(* ===== verification/Gateway_Prelude.thy ===== *)
theory Gateway_Prelude
  imports Complex_Main "HOL-Library.Word" "HOL-Library.List_Lexorder" "HOL-Library.Char_ord"
begin

text \<open>
  What the component theories share: Go's machine integers, instants and durations, the
  functions of the packages \<open>strings\<close> and \<open>strconv\<close> that the gateway calls, and the
  collections of simplification rules.

  \<^item> A Go \<open>int\<close>, \<open>int64\<close> or \<open>time.Duration\<close> is an \<^typ>\<open>int\<close>; where the code computes
    with it the 64-bit wrap-around is written out with \<open>wrap64\<close>. A Go \<open>uint64\<close> is a
    64-bit word.
  \<^item> An instant (\<open>time.Time\<close>) is the number of nanoseconds since the zero \<open>time.Time\<close>
    (1 January of the year 1), so \<open>zero_time\<close> is \<open>0\<close>. \<open>Time.Sub\<close> and \<open>time.Since\<close>
    saturate at the ends of \<open>time.Duration\<close>, which \<open>sat64\<close> models.
  \<^item> A Go string is a list of bytes, an Isabelle \<^typ>\<open>string\<close>.
\<close>

named_theorems go_time \<open>facts about durations, instants and 64-bit arithmetic\<close>
named_theorems go_string \<open>facts about the string functions\<close>

subsection \<open>Integers, instants, durations\<close>

type_synonym instant = int
type_synonym duration = int

definition max_int64 :: int where
  "max_int64 = 9223372036854775807"

definition min_int64 :: int where
  "min_int64 = -9223372036854775808"

definition in_int64 :: "int \<Rightarrow> bool" where
  "in_int64 i \<longleftrightarrow> min_int64 \<le> i \<and> i \<le> max_int64"

definition wrap64 :: "int \<Rightarrow> int" where
  "wrap64 i = (i + 9223372036854775808) mod 18446744073709551616 - 9223372036854775808"

definition sat64 :: "int \<Rightarrow> int" where
  "sat64 i = max min_int64 (min max_int64 i)"

text \<open>Go's integer division truncates towards zero.\<close>

definition tdiv :: "int \<Rightarrow> int \<Rightarrow> int" where
  "tdiv a b = sgn a * sgn b * (\<bar>a\<bar> div \<bar>b\<bar>)"

definition zero_time :: instant where
  "zero_time = 0"

definition time_sub :: "instant \<Rightarrow> instant \<Rightarrow> duration" where
  "time_sub a b = sat64 (a - b)"

text \<open>Seconds between the zero \<open>time.Time\<close> and the Unix epoch.\<close>

definition unix_seconds :: "instant \<Rightarrow> int" where
  "unix_seconds t = t div 1000000000 - 62135596800"

lemma wrap64_id [go_time]: "in_int64 i \<Longrightarrow> wrap64 i = i"
  by (simp add: wrap64_def in_int64_def min_int64_def max_int64_def)

lemma wrap64_range: "in_int64 (wrap64 i)"
proof -
  have "(i + 9223372036854775808) mod 18446744073709551616 < 18446744073709551616"
    and "0 \<le> (i + 9223372036854775808) mod 18446744073709551616"
    by simp_all
  then show ?thesis
    by (simp add: wrap64_def in_int64_def min_int64_def max_int64_def)
qed

lemma wrap64_max: "wrap64 (max_int64 + 1) = min_int64"
  by (simp add: wrap64_def max_int64_def min_int64_def)

lemma sat64_id [go_time]: "in_int64 i \<Longrightarrow> sat64 i = i"
  by (simp add: sat64_def in_int64_def)

lemma sat64_range: "in_int64 (sat64 i)"
  by (simp add: sat64_def in_int64_def min_int64_def max_int64_def)

lemma sat64_mono [go_time]: "a \<le> b \<Longrightarrow> sat64 a \<le> sat64 b"
  by (simp add: sat64_def)

lemma sat64_ge_iff [go_time]: "d \<le> max_int64 \<Longrightarrow> min_int64 < d \<Longrightarrow> d \<le> sat64 i \<longleftrightarrow> d \<le> i"
  by (auto simp: sat64_def)

lemma sat64_le_nonneg [go_time]: "0 \<le> i \<Longrightarrow> sat64 i \<le> i"
  by (simp add: sat64_def min_int64_def)

lemma sat64_nonneg_iff [go_time]: "0 \<le> sat64 i \<longleftrightarrow> 0 \<le> i"
  by (auto simp: sat64_def min_int64_def max_int64_def)

lemma tdiv_nonneg [go_time]: "0 \<le> a \<Longrightarrow> 0 < b \<Longrightarrow> tdiv a b = a div b"
  by (cases "a = 0") (simp_all add: tdiv_def)

subsection \<open>Package strings\<close>

definition HasPrefix :: "string \<Rightarrow> string \<Rightarrow> bool" where
  "HasPrefix s p \<longleftrightarrow> length p \<le> length s \<and> take (length p) s = p"

definition TrimPrefix :: "string \<Rightarrow> string \<Rightarrow> string" where
  "TrimPrefix s p = (if HasPrefix s p then drop (length p) s else s)"

definition HasSuffix :: "string \<Rightarrow> string \<Rightarrow> bool" where
  "HasSuffix s p \<longleftrightarrow> length p \<le> length s \<and> drop (length s - length p) s = p"

definition TrimSuffix :: "string \<Rightarrow> string \<Rightarrow> string" where
  "TrimSuffix s p = (if HasSuffix s p then take (length s - length p) s else s)"

definition TrimLeft :: "string \<Rightarrow> string \<Rightarrow> string" where
  "TrimLeft s cutset = dropWhile (\<lambda>c. c \<in> set cutset) s"

definition TrimRight :: "string \<Rightarrow> string \<Rightarrow> string" where
  "TrimRight s cutset = rev (dropWhile (\<lambda>c. c \<in> set cutset) (rev s))"

text \<open>\<open>strings.Join\<close>, and \<open>strings.Split\<close> with a separator of one byte.\<close>

fun Join :: "string list \<Rightarrow> string \<Rightarrow> string" where
  "Join [] sep = []"
| "Join [s] sep = s"
| "Join (s # t # ss) sep = s @ sep @ Join (t # ss) sep"

fun Split :: "string \<Rightarrow> char \<Rightarrow> string list" where
  "Split [] sep = [[]]"
| "Split (c # cs) sep =
     (if c = sep then [] # Split cs sep
      else case Split cs sep of [] \<Rightarrow> [[c]] | w # ws \<Rightarrow> (c # w) # ws)"

lemma HasPrefix_iff [go_string]: "HasPrefix s p \<longleftrightarrow> (\<exists>t. s = p @ t)"
  by (metis HasPrefix_def append_eq_conv_conj append_take_drop_id length_append le_add1)

lemma HasSuffix_iff [go_string]: "HasSuffix s p \<longleftrightarrow> (\<exists>t. s = t @ p)"
proof
  assume "HasSuffix s p"
  then have "s = take (length s - length p) s @ p"
    by (metis HasSuffix_def append_take_drop_id)
  then show "\<exists>t. s = t @ p" by blast
qed (auto simp: HasSuffix_def)

lemma HasPrefix_append [simp]: "HasPrefix (p @ t) p"
  by (simp add: HasPrefix_def)

lemma HasSuffix_append [simp]: "HasSuffix (t @ p) p"
  by (simp add: HasSuffix_def)

lemma TrimPrefix_append [simp]: "TrimPrefix (p @ t) p = t"
  by (simp add: TrimPrefix_def)

lemma TrimSuffix_append [simp]: "TrimSuffix (t @ p) p = t"
  by (simp add: TrimSuffix_def)

lemma TrimLeft_eq: "\<exists>p. s = p @ TrimLeft s cutset \<and> set p \<subseteq> set cutset"
  unfolding TrimLeft_def
  by (metis set_takeWhileD subsetI takeWhile_dropWhile_id)

lemma Split_not_Nil [simp]: "Split s sep \<noteq> []"
  by (induction s) (auto split: list.splits)

lemma Split_no_sep [go_string]: "sep \<notin> set s \<Longrightarrow> Split s sep = [s]"
  by (induction s) auto

lemma Split_append_sep [go_string]: "sep \<notin> set s \<Longrightarrow> Split (s @ sep # t) sep = s # Split t sep"
  by (induction s) auto

lemma Join_Cons: "ss \<noteq> [] \<Longrightarrow> Join (s # ss) sep = s @ sep @ Join ss sep"
  by (cases ss) simp_all

lemma Split_Join [go_string]:
  "ss \<noteq> [] \<Longrightarrow> \<forall>s \<in> set ss. sep \<notin> set s \<Longrightarrow> Split (Join ss [sep]) sep = ss"
  by (induction ss "[sep]" rule: Join.induct) (simp_all add: go_string)

lemma Join_Cons_Cons: "Join ((c # w) # ws) sep = c # Join (w # ws) sep"
  by (cases ws) simp_all

lemma Join_Split [go_string]: "Join (Split s sep) [sep] = s"
  by (induction s) (auto simp: Join_Cons Join_Cons_Cons split: list.splits)

subsection \<open>Package strconv: Itoa\<close>

definition digit_char :: "nat \<Rightarrow> char" where
  "digit_char d = char_of (48 + d)"

fun nat_digits :: "nat \<Rightarrow> string" where
  "nat_digits n =
     (if n < 10 then [digit_char n] else nat_digits (n div 10) @ [digit_char (n mod 10)])"

declare nat_digits.simps [simp del]

definition Itoa :: "int \<Rightarrow> string" where
  "Itoa i = (if i < 0 then CHR ''-'' # nat_digits (nat (- i)) else nat_digits (nat i))"

definition digits_val :: "string \<Rightarrow> nat" where
  "digits_val s = foldl (\<lambda>a c. 10 * a + (of_char c - 48)) 0 s"

lemma of_char_digit [simp]: "d < 10 \<Longrightarrow> (of_char (digit_char d) :: nat) = 48 + d"
  by (simp add: digit_char_def)

lemma digits_val_nat_digits: "digits_val (nat_digits n) = n"
proof (induction n rule: nat_digits.induct)
  case (1 n)
  show ?case
  proof (cases "n < 10")
    case True
    then show ?thesis by (simp add: nat_digits.simps [of n] digits_val_def)
  next
    case False
    then have "digits_val (nat_digits n) = 10 * (n div 10) + n mod 10"
      using 1 by (simp add: nat_digits.simps [of n] digits_val_def)
    then show ?thesis by simp
  qed
qed

lemma nat_digits_digits: "c \<in> set (nat_digits n) \<Longrightarrow> (of_char c :: nat) \<in> {48..57}"
proof (induction n rule: nat_digits.induct)
  case (1 n)
  then show ?case
    by (cases "n < 10") (auto simp: nat_digits.simps [of n])
qed

lemma nat_digits_inj: "nat_digits m = nat_digits n \<Longrightarrow> m = n"
  by (metis digits_val_nat_digits)

lemma nat_digits_no_minus: "nat_digits n \<noteq> CHR ''-'' # s"
proof
  assume "nat_digits n = CHR ''-'' # s"
  then have "CHR ''-'' \<in> set (nat_digits n)" by simp
  then show False by (auto dest: nat_digits_digits)
qed

lemma nat_digits_not_Nil [simp]: "nat_digits n \<noteq> []"
  by (subst nat_digits.simps) simp

lemma Itoa_inj: "Itoa i = Itoa j \<Longrightarrow> i = j"
  by (auto simp: Itoa_def nat_digits_no_minus nat_digits_no_minus [symmetric]
      split: if_splits dest: nat_digits_inj)

lemma Itoa_not_Nil [simp]: "Itoa i \<noteq> []"
  by (simp add: Itoa_def)

subsection \<open>Hexadecimal encoding\<close>

text \<open>\<open>hex.EncodeToString\<close>, and \<open>%x\<close> on a byte array: two lower-case digits a byte.\<close>

definition hex_digit :: "nat \<Rightarrow> char" where
  "hex_digit d = (if d < 10 then char_of (48 + d) else char_of (87 + d))"

definition hex_byte :: "8 word \<Rightarrow> string" where
  "hex_byte b = [hex_digit (unat b div 16), hex_digit (unat b mod 16)]"

definition hex_encode :: "8 word list \<Rightarrow> string" where
  "hex_encode bs = concat (map hex_byte bs)"

lemma of_char_hex_digit:
  "d < 16 \<Longrightarrow> (of_char (hex_digit d) :: nat) = (if d < 10 then 48 + d else 87 + d)"
  by (simp add: hex_digit_def)

lemma hex_digit_inj: "hex_digit d = hex_digit e \<Longrightarrow> d < 16 \<Longrightarrow> e < 16 \<Longrightarrow> d = e"
  by (drule arg_cong [of _ _ "of_char :: char \<Rightarrow> nat"])
    (simp add: of_char_hex_digit split: if_splits)

lemma unat_byte_bound: "unat (b :: 8 word) div 16 < 16"
proof -
  have "unat b < 2 ^ 8" using unsigned_less [of b] by simp
  then show ?thesis by simp
qed

lemma hex_byte_inj: "hex_byte a = hex_byte b \<Longrightarrow> a = b"
proof -
  assume "hex_byte a = hex_byte b"
  then have "unat a div 16 = unat b div 16" "unat a mod 16 = unat b mod 16"
    by (auto simp: hex_byte_def intro: hex_digit_inj unat_byte_bound)
  then have "unat a = unat b" by (metis div_mult_mod_eq)
  then show "a = b" by (rule unsigned_word_eqI)
qed

lemma length_hex_encode [simp]: "length (hex_encode bs) = 2 * length bs"
  by (induction bs) (simp_all add: hex_encode_def hex_byte_def)

lemma hex_encode_inj: "hex_encode as = hex_encode bs \<Longrightarrow> as = bs"
proof (induction as arbitrary: bs)
  case Nil
  then show ?case by (cases bs) (simp_all add: hex_encode_def hex_byte_def)
next
  case (Cons a as)
  then obtain b bs' where bs: "bs = b # bs'"
    by (cases bs) (simp_all add: hex_encode_def hex_byte_def)
  with Cons.prems have "hex_byte a = hex_byte b" "hex_encode as = hex_encode bs'"
    by (simp_all add: hex_encode_def hex_byte_def)
  with bs Cons.IH show ?case by (auto dest: hex_byte_inj)
qed

lemma hex_encode_digits: "set (hex_encode bs) \<subseteq> hex_digit ` {..<16}"
  by (auto simp: hex_encode_def hex_byte_def unat_byte_bound)

subsection \<open>Run-time panics\<close>

text \<open>The panics the gateway's code can raise, as values.\<close>

datatype go_panic =
    DivideByZero
  | NilDereference
  | CloseOfClosedChannel
  | AbortHandler
  | InvalidWriteHeaderCode
  | IndexOutOfRange

subsection \<open>Lists and maps\<close>

text \<open>A Go map of integers reads 0 for a missing key.\<close>

definition get0 :: "('k \<rightharpoonup> int) \<Rightarrow> 'k \<Rightarrow> int" where
  "get0 m k = (case m k of None \<Rightarrow> 0 | Some v \<Rightarrow> v)"

lemma get0_upd [simp]: "get0 (m(k \<mapsto> v)) k' = (if k' = k then v else get0 m k')"
  by (simp add: get0_def)

lemma get0_empty [simp]: "get0 Map.empty k = 0"
  by (simp add: get0_def)

lemma find_index:
  "List.find P xs = Some x \<longleftrightarrow> (\<exists>i < length xs. P (xs ! i) \<and> x = xs ! i \<and> (\<forall>j < i. \<not> P (xs ! j)))"
  by (auto simp: find_Some_iff)

text \<open>Splitting a list at an element: the head, or a split of the tail.\<close>

lemma ex_split_Cons:
  "(\<exists>before x after. y # ys = before @ x # after \<and> P before x after) \<longleftrightarrow>
     P [] y ys \<or> (\<exists>before x after. ys = before @ x # after \<and> P (y # before) x after)"
  by (auto simp: Cons_eq_append_conv)

text \<open>A map filled in list order holds, under a key, the last value stored there.\<close>

lemma map_of_rev_last:
  "map_of (rev (map (\<lambda>x. (f x, g x)) xs)) k = Some v \<longleftrightarrow>
     (\<exists>before x after. xs = before @ x # after \<and> (f x = k \<and> g x = v \<and> k \<notin> f ` set after))"
proof (induction xs)
  case (Cons y ys)
  have None: "map_of (rev (map (\<lambda>x. (f x, g x)) ys)) k = None \<longleftrightarrow> k \<notin> f ` set ys"
    by (simp add: map_of_eq_None_iff image_image)
  show ?case
    unfolding ex_split_Cons
    using None Cons.IH
    by (cases "map_of (rev (map (\<lambda>x. (f x, g x)) ys)) k") (auto simp: map_add_def)
qed simp

lemma map_upd_neq [simp]: "k' \<noteq> k \<Longrightarrow> (m(k \<mapsto> v)) k' = m k'"
  by simp

end
