(* ===== verification/Key_Store.thy ===== *)
theory Key_Store
  imports Gateway_Prelude
begin

text \<open>
  Package \<open>store\<close>, the API key store (\<open>internal/store/store.go\<close>). The store's map from
  hash to key is a partial map; SHA-256 is the argument \<open>sha256\<close>, and reading and decoding
  the seed file are arguments of \<open>LoadKeyFile\<close>. Keys are created by \<open>LoadKeyFile\<close>, one
  object each, so an update through the pointer in the map is an update of the map.

  The locale \<open>key_store\<close> is the contract of the four operations; its lemmas are about any
  sequence of \<open>Add\<close> and \<open>Revoke\<close> calls.
\<close>

record APIKey =
  k_ID :: string
  k_KeyHash :: string
  k_Service :: string
  k_RateTier :: string
  k_CreatedAt :: instant
  k_Revoked :: bool

record KeyStore =
  ks_keys :: "string \<rightharpoonup> APIKey"

definition NewKeyStore :: KeyStore where
  "NewKeyStore = \<lparr>ks_keys = Map.empty\<rparr>"

definition Lookup :: "KeyStore \<Rightarrow> string \<Rightarrow> APIKey option" where
  "Lookup ks hash = ks_keys ks hash"

definition Add :: "KeyStore \<Rightarrow> APIKey \<Rightarrow> KeyStore" where
  "Add ks key = ks\<lparr>ks_keys := (ks_keys ks)(k_KeyHash key \<mapsto> key)\<rparr>"

definition Revoke :: "KeyStore \<Rightarrow> string \<Rightarrow> bool \<times> KeyStore" where
  "Revoke ks hash =
     (case ks_keys ks hash of
        None \<Rightarrow> (False, ks)
      | Some k \<Rightarrow> (True, ks\<lparr>ks_keys := (ks_keys ks)(hash \<mapsto> k\<lparr>k_Revoked := True\<rparr>)\<rparr>))"

definition HashKey :: "(string \<Rightarrow> 8 word list) \<Rightarrow> string \<Rightarrow> string" where
  "HashKey sha256 rawKey = hex_encode (sha256 rawKey)"

subsection \<open>The seed file\<close>

record keyFileEntry =
  kf_ID :: string
  kf_Key :: string
  kf_Service :: string
  kf_RateTier :: string

datatype ('e, 'p) keyfile_error = KeyFileRead string 'e | KeyFileParse string 'p

fun load_entries ::
  "(string \<Rightarrow> 8 word list) \<Rightarrow> instant \<Rightarrow> KeyStore \<Rightarrow> keyFileEntry list \<Rightarrow> KeyStore" where
  "load_entries sha256 now ks [] = ks"
| "load_entries sha256 now ks (entry # entries) =
     (if kf_ID entry = '''' \<or> kf_Key entry = '''' then load_entries sha256 now ks entries
      else load_entries sha256 now
        (Add ks \<lparr>k_ID = kf_ID entry, k_KeyHash = HashKey sha256 (kf_Key entry),
           k_Service = kf_Service entry, k_RateTier = kf_RateTier entry,
           k_CreatedAt = now, k_Revoked = False\<rparr>) entries)"

text \<open>
  \<open>read_file\<close> is \<open>os.ReadFile\<close>, \<open>not_exist\<close> is \<open>os.IsNotExist\<close> and \<open>unmarshal\<close> decodes
  the list \<open>api_keys\<close>.
\<close>

definition LoadKeyFile ::
  "(string \<Rightarrow> 8 word list) \<Rightarrow> (string \<Rightarrow> 'e + 'd) \<Rightarrow> ('e \<Rightarrow> bool) \<Rightarrow> ('d \<Rightarrow> 'p + keyFileEntry list)
     \<Rightarrow> instant \<Rightarrow> string \<Rightarrow> ('e, 'p) keyfile_error + KeyStore" where
  "LoadKeyFile sha256 read_file not_exist unmarshal now path =
     (case read_file path of
        Inl err \<Rightarrow> if not_exist err then Inr NewKeyStore else Inl (KeyFileRead path err)
      | Inr data \<Rightarrow>
          (case unmarshal data of
             Inl err \<Rightarrow> Inl (KeyFileParse path err)
           | Inr entries \<Rightarrow> Inr (load_entries sha256 now NewKeyStore entries)))"

subsection \<open>The contract\<close>

datatype key_op = AddKey APIKey | RevokeKey string

fun key_step :: "('s \<Rightarrow> APIKey \<Rightarrow> 's) \<Rightarrow> ('s \<Rightarrow> string \<Rightarrow> bool \<times> 's) \<Rightarrow> 's \<Rightarrow> key_op \<Rightarrow> 's" where
  "key_step add revoke s (AddKey k) = add s k"
| "key_step add revoke s (RevokeKey h) = snd (revoke s h)"

fun key_ops :: "('s \<Rightarrow> APIKey \<Rightarrow> 's) \<Rightarrow> ('s \<Rightarrow> string \<Rightarrow> bool \<times> 's) \<Rightarrow> 's \<Rightarrow> key_op list \<Rightarrow> 's" where
  "key_ops add revoke s [] = s"
| "key_ops add revoke s (op # ops) = key_ops add revoke (key_step add revoke s op) ops"

fun adds :: "string \<Rightarrow> key_op \<Rightarrow> bool" where
  "adds h (AddKey k) \<longleftrightarrow> k_KeyHash k = h"
| "adds h (RevokeKey h') \<longleftrightarrow> False"

locale key_store =
  fixes empty :: 's
    and lookup :: "'s \<Rightarrow> string \<Rightarrow> APIKey option"
    and add :: "'s \<Rightarrow> APIKey \<Rightarrow> 's"
    and revoke :: "'s \<Rightarrow> string \<Rightarrow> bool \<times> 's"
  assumes lookup_empty: "lookup empty h = None"
    and lookup_add: "lookup (add s k) h = (if h = k_KeyHash k then Some k else lookup s h)"
    and revoke_result: "fst (revoke s h) \<longleftrightarrow> lookup s h \<noteq> None"
    and lookup_revoke: "lookup (snd (revoke s h)) h' =
      (if h' = h then map_option (\<lambda>k. k\<lparr>k_Revoked := True\<rparr>) (lookup s h) else lookup s h')"
begin

text \<open>A key stays what it is, and stays revoked, until a key with its hash is added.\<close>

lemma step_revoked:
  assumes "lookup s h = Some k" "k_Revoked k" "\<not> adds h op"
  shows "\<exists>k'. lookup (key_step add revoke s op) h = Some k' \<and> k_Revoked k' \<and> k_ID k' = k_ID k"
proof (cases op)
  case (RevokeKey h')
  with assms show ?thesis by (cases "h = h'") (simp_all add: lookup_revoke)
qed (use assms in \<open>simp add: lookup_add\<close>)

lemma step_unknown:
  "lookup s h = None \<Longrightarrow> \<not> adds h op \<Longrightarrow> lookup (key_step add revoke s op) h = None"
  by (cases op) (auto simp: lookup_add lookup_revoke)

lemma revoked_stays:
  assumes "lookup s h = Some k" "k_Revoked k" "\<forall>op \<in> set ops. \<not> adds h op"
  shows "\<exists>k'. lookup (key_ops add revoke s ops) h = Some k' \<and> k_Revoked k' \<and> k_ID k' = k_ID k"
  using assms
proof (induction ops arbitrary: s k)
  case (Cons op ops)
  then obtain k' where "lookup (key_step add revoke s op) h = Some k'" "k_Revoked k'"
    "k_ID k' = k_ID k"
    using step_revoked [of s h k op] by auto
  with Cons.IH [of _ k'] Cons.prems(3) show ?case by simp
qed simp

lemma unknown_stays:
  "lookup s h = None \<Longrightarrow> \<forall>op \<in> set ops. \<not> adds h op \<Longrightarrow> lookup (key_ops add revoke s ops) h = None"
  by (induction ops arbitrary: s) (simp_all add: step_unknown)

lemma revoke_then:
  assumes "fst (revoke s h)" "\<forall>op \<in> set ops. \<not> adds h op"
  shows "\<exists>k. lookup (key_ops add revoke (snd (revoke s h)) ops) h = Some k \<and> k_Revoked k"
proof -
  from assms(1) obtain k where "lookup s h = Some k" by (auto simp: revoke_result)
  then have "lookup (snd (revoke s h)) h = Some (k\<lparr>k_Revoked := True\<rparr>)"
    by (simp add: lookup_revoke)
  from revoked_stays [OF this _ assms(2)] show ?thesis by auto
qed

end

interpretation ks: key_store NewKeyStore Lookup Add Revoke
  by unfold_locales
    (auto simp: NewKeyStore_def Lookup_def Add_def Revoke_def split: option.splits)

subsection \<open>What LoadKeyFile builds\<close>

definition entry_ok :: "keyFileEntry \<Rightarrow> bool" where
  "entry_ok e \<longleftrightarrow> kf_ID e \<noteq> '''' \<and> kf_Key e \<noteq> ''''"

definition entry_key :: "(string \<Rightarrow> 8 word list) \<Rightarrow> instant \<Rightarrow> keyFileEntry \<Rightarrow> APIKey" where
  "entry_key sha256 now e = \<lparr>k_ID = kf_ID e, k_KeyHash = HashKey sha256 (kf_Key e),
     k_Service = kf_Service e, k_RateTier = kf_RateTier e, k_CreatedAt = now, k_Revoked = False\<rparr>"

lemma entry_key_hash [simp]: "k_KeyHash (entry_key sha256 now e) = HashKey sha256 (kf_Key e)"
  by (simp add: entry_key_def)

text \<open>The key under a hash is that of the last usable entry with it.\<close>

definition not_under :: "(string \<Rightarrow> 8 word list) \<Rightarrow> string \<Rightarrow> keyFileEntry list \<Rightarrow> bool" where
  "not_under sha256 h es \<longleftrightarrow> (\<forall>e \<in> set es. entry_ok e \<longrightarrow> HashKey sha256 (kf_Key e) \<noteq> h)"

lemma not_under_simps [simp]:
  "not_under sha256 h []"
  "not_under sha256 h (e # es) \<longleftrightarrow>
     (entry_ok e \<longrightarrow> HashKey sha256 (kf_Key e) \<noteq> h) \<and> not_under sha256 h es"
  by (auto simp: not_under_def)

lemma load_entries_Cons:
  "load_entries sha256 now ks (e # es) =
     load_entries sha256 now (if entry_ok e then Add ks (entry_key sha256 now e) else ks) es"
  by (simp add: entry_ok_def entry_key_def)

lemma load_entries_lookup:
  "Lookup (load_entries sha256 now ks es) h = Some k \<longleftrightarrow>
     (\<exists>before e after. es = before @ e # after
        \<and> (entry_ok e \<and> HashKey sha256 (kf_Key e) = h \<and> k = entry_key sha256 now e
           \<and> not_under sha256 h after))
     \<or> (not_under sha256 h es \<and> Lookup ks h = Some k)"
proof (induction es arbitrary: ks)
  case (Cons e es)
  show ?case
    unfolding ex_split_Cons load_entries_Cons Cons.IH
    by (auto simp: ks.lookup_add)
qed (simp add: not_under_def)

text \<open>Every stored key is filed under its own hash.\<close>

definition filed_by_hash :: "KeyStore \<Rightarrow> bool" where
  "filed_by_hash ks \<longleftrightarrow> (\<forall>h k. Lookup ks h = Some k \<longrightarrow> k_KeyHash k = h)"

lemma filed_by_hash_Add: "filed_by_hash ks \<Longrightarrow> filed_by_hash (Add ks k)"
  by (simp add: filed_by_hash_def ks.lookup_add)

lemma filed_by_hash_Revoke: "filed_by_hash ks \<Longrightarrow> filed_by_hash (snd (Revoke ks h))"
  by (auto simp: filed_by_hash_def ks.lookup_revoke)

lemma filed_by_hash_step: "filed_by_hash ks \<Longrightarrow> filed_by_hash (key_step Add Revoke ks op)"
  by (cases op) (simp_all add: filed_by_hash_Add filed_by_hash_Revoke)

lemma filed_by_hash_ops:
  "filed_by_hash ks \<Longrightarrow> filed_by_hash (key_ops Add Revoke ks ops)"
  by (induction ops arbitrary: ks) (simp_all add: filed_by_hash_step)

lemma filed_by_hash_load: "filed_by_hash ks \<Longrightarrow> filed_by_hash (load_entries sha256 now ks es)"
  by (induction es arbitrary: ks) (simp_all add: filed_by_hash_Add)

lemma filed_by_hash_empty: "filed_by_hash NewKeyStore"
  by (simp add: filed_by_hash_def ks.lookup_empty)

end
