(* ===== verification/Gateway_Config.thy ===== *)
theory Gateway_Config
  imports Gateway_Prelude
begin

text \<open>
  Package \<open>config\<close> (\<open>internal/config/config.go\<close>): the configuration model, the loader
  \<open>Load\<close>, the check \<open>validate\<close> and the log level conversion.

  A pointer field that may be \<open>nil\<close> is an \<open>option\<close>; a slice is a list (the code never
  tells a nil slice from an empty one). Reading the file and decoding its YAML are arguments
  of \<open>Load\<close>. \<open>validate\<close> has a pointer receiver and writes the defaults into the
  configuration before it checks the routes, so its model returns the error, if any,
  together with the configuration it leaves behind.
\<close>

subsection \<open>The configuration model\<close>

record Upstream =
  u_URL :: string
  u_Weight :: int

record JWTConfig =
  jwt_Required :: bool
  jwt_Issuers :: "string list"

record APIKeyConfig =
  apikey_Required :: bool

record AuthConfig =
  auth_JWT :: "JWTConfig option"
  auth_APIKey :: "APIKeyConfig option"

record RateLimitCfg =
  rl_Enabled :: bool
  rl_Requests :: int
  rl_Window :: duration
  rl_PerClient :: bool

record CircuitBrkCfg =
  cbc_Enabled :: bool
  cbc_Threshold :: int
  cbc_Timeout :: duration
  cbc_HalfOpenMaxReqs :: int

record Route =
  rt_ID :: string
  rt_Path :: string
  rt_Methods :: "string list"
  rt_Hosts :: "string list"
  rt_Upstreams :: "Upstream list"
  rt_Auth :: "AuthConfig option"
  rt_RateLimit :: "RateLimitCfg option"
  rt_CircuitBreaker :: "CircuitBrkCfg option"
  rt_Timeout :: duration
  rt_Retry :: int

record GatewayConfig =
  gw_Listen :: string
  gw_MetricsListen :: string
  gw_ShutdownTimeout :: duration
  gw_LogLevel :: string

record RedisConfig =
  rd_Addr :: string
  rd_Password :: string
  rd_DB :: int
  rd_PoolSize :: int

record Config =
  c_Gateway :: GatewayConfig
  c_Redis :: RedisConfig
  c_Routes :: "Route list"

subsection \<open>validate\<close>

text \<open>One constructor for each error message of \<open>validate\<close>, with its indices.\<close>

datatype config_error =
    ListenRequired
  | NoRoutes
  | RouteIDRequired nat
  | RoutePathRequired nat
  | NoUpstreams nat
  | UpstreamURLRequired nat nat

fun validate_upstreams :: "nat \<Rightarrow> nat \<Rightarrow> Upstream list \<Rightarrow> config_error option" where
  "validate_upstreams i j [] = None"
| "validate_upstreams i j (u # us) =
     (if u_URL u = '''' then Some (UpstreamURLRequired i j)
      else validate_upstreams i (Suc j) us)"

fun validate_routes :: "nat \<Rightarrow> Route list \<Rightarrow> config_error option" where
  "validate_routes i [] = None"
| "validate_routes i (r # rs) =
     (if rt_ID r = '''' then Some (RouteIDRequired i)
      else if rt_Path r = '''' then Some (RoutePathRequired i)
      else if length (rt_Upstreams r) = 0 then Some (NoUpstreams i)
      else case validate_upstreams i 0 (rt_Upstreams r) of
             Some e \<Rightarrow> Some e
           | None \<Rightarrow> validate_routes (Suc i) rs)"

definition default_shutdown :: "GatewayConfig \<Rightarrow> GatewayConfig" where
  "default_shutdown g =
     (if gw_ShutdownTimeout g \<le> 0 then g\<lparr>gw_ShutdownTimeout := 15 * 1000000000\<rparr> else g)"

definition default_loglevel :: "GatewayConfig \<Rightarrow> GatewayConfig" where
  "default_loglevel g = (if gw_LogLevel g = '''' then g\<lparr>gw_LogLevel := ''info''\<rparr> else g)"

definition validate :: "Config \<Rightarrow> config_error option \<times> Config" where
  "validate c =
     (if gw_Listen (c_Gateway c) = '''' then (Some ListenRequired, c)
      else
        let c1 = c\<lparr>c_Gateway := default_shutdown (c_Gateway c)\<rparr>;
            c2 = c1\<lparr>c_Gateway := default_loglevel (c_Gateway c1)\<rparr>
        in if length (c_Routes c2) = 0 then (Some NoRoutes, c2)
           else (validate_routes 0 (c_Routes c2), c2))"

subsection \<open>Load\<close>

datatype ('e, 'p) load_error =
    ReadFailed string 'e
  | ParseFailed string 'p
  | ValidateFailed string config_error

definition Load ::
  "(string \<Rightarrow> 'e + 'd) \<Rightarrow> ('d \<Rightarrow> 'p + Config) \<Rightarrow> string \<Rightarrow> ('e, 'p) load_error + Config" where
  "Load read_file unmarshal path =
     (case read_file path of
        Inl e \<Rightarrow> Inl (ReadFailed path e)
      | Inr data \<Rightarrow>
          (case unmarshal data of
             Inl e \<Rightarrow> Inl (ParseFailed path e)
           | Inr cfg \<Rightarrow>
               (case validate cfg of
                  (Some e, _) \<Rightarrow> Inl (ValidateFailed path e)
                | (None, cfg') \<Rightarrow> Inr cfg')))"

subsection \<open>LogLevelToSlog\<close>

datatype slog_level = LevelDebug | LevelInfo | LevelWarn | LevelError

definition LogLevelToSlog :: "string \<Rightarrow> slog_level" where
  "LogLevelToSlog level =
     (if level = ''debug'' then LevelDebug
      else if level = ''info'' then LevelInfo
      else if level = ''warn'' then LevelWarn
      else if level = ''error'' then LevelError
      else LevelInfo)"

subsection \<open>What validate promises\<close>

definition route_ok :: "Route \<Rightarrow> bool" where
  "route_ok r \<longleftrightarrow> rt_ID r \<noteq> '''' \<and> rt_Path r \<noteq> '''' \<and> rt_Upstreams r \<noteq> []
     \<and> (\<forall>u \<in> set (rt_Upstreams r). u_URL u \<noteq> '''')"

definition config_ok :: "Config \<Rightarrow> bool" where
  "config_ok c \<longleftrightarrow> gw_Listen (c_Gateway c) \<noteq> '''' \<and> c_Routes c \<noteq> []
     \<and> (\<forall>r \<in> set (c_Routes c). route_ok r)"

text \<open>The error a configuration has, by position: the first faulty route, its first fault.\<close>

fun first_error :: "Config \<Rightarrow> config_error \<Rightarrow> bool" where
  "first_error c ListenRequired \<longleftrightarrow> gw_Listen (c_Gateway c) = ''''"
| "first_error c NoRoutes \<longleftrightarrow> gw_Listen (c_Gateway c) \<noteq> '''' \<and> c_Routes c = []"
| "first_error c (RouteIDRequired i) \<longleftrightarrow> gw_Listen (c_Gateway c) \<noteq> ''''
     \<and> i < length (c_Routes c) \<and> (\<forall>k < i. route_ok (c_Routes c ! k))
     \<and> rt_ID (c_Routes c ! i) = ''''"
| "first_error c (RoutePathRequired i) \<longleftrightarrow> gw_Listen (c_Gateway c) \<noteq> ''''
     \<and> i < length (c_Routes c) \<and> (\<forall>k < i. route_ok (c_Routes c ! k))
     \<and> rt_ID (c_Routes c ! i) \<noteq> '''' \<and> rt_Path (c_Routes c ! i) = ''''"
| "first_error c (NoUpstreams i) \<longleftrightarrow> gw_Listen (c_Gateway c) \<noteq> ''''
     \<and> i < length (c_Routes c) \<and> (\<forall>k < i. route_ok (c_Routes c ! k))
     \<and> rt_ID (c_Routes c ! i) \<noteq> '''' \<and> rt_Path (c_Routes c ! i) \<noteq> ''''
     \<and> rt_Upstreams (c_Routes c ! i) = []"
| "first_error c (UpstreamURLRequired i j) \<longleftrightarrow> gw_Listen (c_Gateway c) \<noteq> ''''
     \<and> i < length (c_Routes c) \<and> (\<forall>k < i. route_ok (c_Routes c ! k))
     \<and> rt_ID (c_Routes c ! i) \<noteq> '''' \<and> rt_Path (c_Routes c ! i) \<noteq> ''''
     \<and> j < length (rt_Upstreams (c_Routes c ! i))
     \<and> (\<forall>k < j. u_URL (rt_Upstreams (c_Routes c ! i) ! k) \<noteq> '''')
     \<and> u_URL (rt_Upstreams (c_Routes c ! i) ! j) = ''''"

lemma validate_upstreams_None:
  "validate_upstreams i j us = None \<longleftrightarrow> (\<forall>u \<in> set us. u_URL u \<noteq> '''')"
  by (induction us arbitrary: j) auto

lemma validate_upstreams_Some:
  "validate_upstreams i j us = Some e \<longleftrightarrow>
     (\<exists>k < length us. e = UpstreamURLRequired i (j + k) \<and> u_URL (us ! k) = ''''
        \<and> (\<forall>l < k. u_URL (us ! l) \<noteq> ''''))"
proof (induction us arbitrary: j)
  case (Cons u us)
  show ?case
  proof (cases "u_URL u = ''''")
    case True
    then show ?thesis
      by (auto simp: less_Suc_eq_0_disj All_less_Suc2 Ex_less_Suc2)
  next
    case False
    then show ?thesis
      using Cons.IH [of "Suc j"]
      by (simp add: Ex_less_Suc2 All_less_Suc2)
  qed
qed simp

lemma validate_routes_None:
  "validate_routes i rs = None \<longleftrightarrow> (\<forall>r \<in> set rs. route_ok r)"
proof (induction rs arbitrary: i)
  case (Cons r rs)
  then show ?case
    using validate_upstreams_None [of i 0 "rt_Upstreams r"]
    by (cases "validate_upstreams i 0 (rt_Upstreams r)") (auto simp: route_ok_def)
qed simp

text \<open>The fault of one route, at its index.\<close>

definition route_fault :: "nat \<Rightarrow> Route \<Rightarrow> config_error \<Rightarrow> bool" where
  "route_fault i r e \<longleftrightarrow>
     (rt_ID r = '''' \<and> e = RouteIDRequired i)
     \<or> (rt_ID r \<noteq> '''' \<and> rt_Path r = '''' \<and> e = RoutePathRequired i)
     \<or> (rt_ID r \<noteq> '''' \<and> rt_Path r \<noteq> '''' \<and> rt_Upstreams r = [] \<and> e = NoUpstreams i)
     \<or> (rt_ID r \<noteq> '''' \<and> rt_Path r \<noteq> ''''
        \<and> (\<exists>j < length (rt_Upstreams r). e = UpstreamURLRequired i j
             \<and> u_URL (rt_Upstreams r ! j) = ''''
             \<and> (\<forall>l < j. u_URL (rt_Upstreams r ! l) \<noteq> '''')))"

lemma route_fault_not_ok: "route_fault i r e \<Longrightarrow> \<not> route_ok r"
  by (auto simp: route_fault_def route_ok_def)

lemma validate_routes_Cons:
  "validate_routes i (r # rs) = Some e \<longleftrightarrow>
     route_fault i r e \<or> (route_ok r \<and> validate_routes (Suc i) rs = Some e)"
proof (cases "rt_ID r = '''' \<or> rt_Path r = '''' \<or> rt_Upstreams r = []")
  case True
  then show ?thesis by (auto simp: route_fault_def route_ok_def)
next
  case False
  show ?thesis
  proof (cases "validate_upstreams i 0 (rt_Upstreams r)")
    case None
    then have "\<forall>u \<in> set (rt_Upstreams r). u_URL u \<noteq> ''''"
      by (rule validate_upstreams_None [THEN iffD1])
    with False None show ?thesis by (auto simp: route_fault_def route_ok_def)
  next
    case (Some e')
    then obtain k where k: "k < length (rt_Upstreams r)" "e' = UpstreamURLRequired i k"
      "u_URL (rt_Upstreams r ! k) = ''''" "\<forall>l < k. u_URL (rt_Upstreams r ! l) \<noteq> ''''"
      by (auto simp: validate_upstreams_Some)
    then have "\<not> route_ok r" by (auto simp: route_ok_def)
    moreover have "route_fault i r e \<longleftrightarrow> e = e'"
      using False k by (auto simp: route_fault_def) (metis linorder_neqE_nat)
    ultimately show ?thesis using False Some by auto
  qed
qed

lemma validate_routes_Some:
  "validate_routes i rs = Some e \<longleftrightarrow>
     (\<exists>k < length rs. (\<forall>l < k. route_ok (rs ! l)) \<and> route_fault (i + k) (rs ! k) e)"
proof (induction rs arbitrary: i)
  case (Cons r rs)
  show ?case
    unfolding validate_routes_Cons Cons.IH
    by (auto simp: Ex_less_Suc2 All_less_Suc2 dest: route_fault_not_ok)
qed simp

lemma default_gateway_fields [simp]:
  "gw_Listen (default_shutdown g) = gw_Listen g"
  "gw_MetricsListen (default_shutdown g) = gw_MetricsListen g"
  "gw_LogLevel (default_shutdown g) = gw_LogLevel g"
  "gw_Listen (default_loglevel g) = gw_Listen g"
  "gw_MetricsListen (default_loglevel g) = gw_MetricsListen g"
  "gw_ShutdownTimeout (default_loglevel g) = gw_ShutdownTimeout g"
  by (simp_all add: default_shutdown_def default_loglevel_def)

lemma validate_None: "fst (validate c) = None \<longleftrightarrow> config_ok c"
  by (simp add: validate_def Let_def config_ok_def validate_routes_None)

lemma validate_Some: "fst (validate c) = Some e \<longleftrightarrow> first_error c e"
proof (cases "gw_Listen (c_Gateway c) = '''' \<or> c_Routes c = []")
  case True
  then show ?thesis by (cases e) (auto simp: validate_def)
next
  case False
  then have "fst (validate c) = Some e \<longleftrightarrow> validate_routes 0 (c_Routes c) = Some e"
    by (simp add: validate_def Let_def)
  also have "\<dots> \<longleftrightarrow> first_error c e"
    unfolding validate_routes_Some
    using False by (cases e) (auto simp: route_fault_def)
  finally show ?thesis .
qed

lemma validate_config:
  "snd (validate c) =
     (if gw_Listen (c_Gateway c) = '''' then c
      else c\<lparr>c_Gateway := default_loglevel (default_shutdown (c_Gateway c))\<rparr>)"
  by (simp add: validate_def Let_def)

lemma validate_routes_kept [simp]: "c_Routes (snd (validate c)) = c_Routes c"
  by (simp add: validate_config)

lemma default_gateway_idem:
  "default_loglevel (default_shutdown (default_loglevel (default_shutdown g)))
     = default_loglevel (default_shutdown g)"
  by (simp add: default_shutdown_def default_loglevel_def)

lemma Load_Inr:
  "Load rf um path = Inr cfg \<longleftrightarrow>
     (\<exists>d c. rf path = Inr d \<and> um d = Inr c \<and> config_ok c \<and> cfg = snd (validate c))"
  unfolding validate_None [symmetric]
  by (cases "rf path") (auto simp: Load_def split: sum.splits prod.splits option.splits)

lemma Load_config_ok: "Load rf um path = Inr cfg \<Longrightarrow> config_ok cfg"
  by (auto simp: Load_Inr config_ok_def validate_config)

subsection \<open>Properties\<close>

text \<open>
  C35: A configuration is accepted exactly when it has a listen address, at least one route,
  and every route has an ID, a path and at least one upstream, all with a URL; and when it is
  rejected the error names the first faulty route and the first fault within it.
\<close>

theorem validate_complete:
  "(fst (validate c) = None \<longleftrightarrow> config_ok c)
     \<and> (fst (validate c) = Some e \<longleftrightarrow> first_error c e)"
  by (simp add: validate_None validate_Some)

text \<open>
  What \<open>Load\<close> returns has a positive shutdown timeout and a log level, keeps every
  other setting of the file, and passes \<open>validate\<close> again unchanged.
\<close>

theorem Load_defaults:
  assumes "Load rf um path = Inr cfg"
  shows "\<exists>d c. rf path = Inr d \<and> um d = Inr c
    \<and> 0 < gw_ShutdownTimeout (c_Gateway cfg) \<and> gw_LogLevel (c_Gateway cfg) \<noteq> ''''
    \<and> (0 < gw_ShutdownTimeout (c_Gateway c)
         \<longrightarrow> gw_ShutdownTimeout (c_Gateway cfg) = gw_ShutdownTimeout (c_Gateway c))
    \<and> (gw_LogLevel (c_Gateway c) \<noteq> ''''
         \<longrightarrow> gw_LogLevel (c_Gateway cfg) = gw_LogLevel (c_Gateway c))
    \<and> c_Routes cfg = c_Routes c \<and> c_Redis cfg = c_Redis c
    \<and> gw_Listen (c_Gateway cfg) = gw_Listen (c_Gateway c)
    \<and> validate cfg = (None, cfg)"
proof -
  from assms obtain d c where dc: "rf path = Inr d" "um d = Inr c"
    and ok: "config_ok c" and cfg: "cfg = snd (validate c)"
    by (auto simp: Load_Inr)
  have again: "validate cfg = (None, cfg)"
  proof (rule prod_eqI)
    show "fst (validate cfg) = fst (None, cfg)"
      using assms by (simp add: validate_None Load_config_ok)
    show "snd (validate cfg) = snd (None, cfg)"
      using ok by (simp add: cfg validate_config default_gateway_idem config_ok_def)
  qed
  from ok have "gw_Listen (c_Gateway c) \<noteq> ''''" by (simp add: config_ok_def)
  with dc again show ?thesis
    by (auto simp: cfg validate_config default_shutdown_def default_loglevel_def)
qed

definition sample_route :: Route where
  "sample_route = \<lparr>rt_ID = ''default'', rt_Path = ''/*'', rt_Methods = [''GET''], rt_Hosts = [],
     rt_Upstreams = [\<lparr>u_URL = ''http://localhost:8081'', u_Weight = 0\<rparr>], rt_Auth = None,
     rt_RateLimit = None, rt_CircuitBreaker = None, rt_Timeout = 0, rt_Retry = 0\<rparr>"

definition sample_config :: Config where
  "sample_config = \<lparr>c_Gateway = \<lparr>gw_Listen = '':8080'', gw_MetricsListen = '''',
       gw_ShutdownTimeout = 0, gw_LogLevel = ''''\<rparr>,
     c_Redis = \<lparr>rd_Addr = ''localhost:6379'', rd_Password = '''', rd_DB = 0, rd_PoolSize = 20\<rparr>,
     c_Routes = [sample_route]\<rparr>"

theorem Load_defaults_witness:
  "\<exists>cfg. Load (\<lambda>p. Inr p :: nat + string) (\<lambda>d. Inr sample_config :: nat + Config) ''f'' = Inr cfg
     \<and> gw_LogLevel (c_Gateway cfg) \<noteq> ''''"
proof -
  have "Load (\<lambda>p. Inr p :: nat + string) (\<lambda>d. Inr sample_config :: nat + Config) ''f''
      = Inr (snd (validate sample_config))"
    by (simp add: Load_Inr config_ok_def route_ok_def sample_config_def sample_route_def)
  from Load_defaults [OF this] this show ?thesis by blast
qed

end
