(* ===== verification/Http_Model.thy ===== *)
theory Http_Model
  imports Gateway_Prelude
begin

text \<open>
  The part of \<open>net/http\<close> and \<open>net/url\<close> the gateway works on: header maps with their
  canonical keys, URLs, requests, and the writer side of a response.

  \<^item> A header (\<open>http.Header\<close>) maps a canonical key to its values; \<open>Get\<close> and \<open>Set\<close>
    canonicalise the key they are given.
  \<^item> A response writer is the header map and the list of the calls made on it, each
    \<open>WriteHeader\<close> with the headers it sent. The status handed to it is the first code that is
    not informational, or 200 when data was written first or nothing was; the body is all the
    data written. \<open>net/http\<close> delivers them when the handler returns (but for the body of a
    response to HEAD or of a status without one); what a handler that panics has written may be
    lost with the writer's buffer.
\<close>

subsection \<open>Headers\<close>

type_synonym header = "string \<rightharpoonup> string list"

definition token_byte :: "char \<Rightarrow> bool" where
  "token_byte c \<longleftrightarrow>
     (CHR ''a'' \<le> c \<and> c \<le> CHR ''z'') \<or> (CHR ''A'' \<le> c \<and> c \<le> CHR ''Z'')
     \<or> (CHR ''0'' \<le> c \<and> c \<le> CHR ''9'')
     \<or> c \<in> set ''!#$%&*+-.^_|~'' \<or> c = CHR 0x27 \<or> c = CHR 0x60"

definition upcase :: "char \<Rightarrow> char" where
  "upcase c = (if CHR ''a'' \<le> c \<and> c \<le> CHR ''z'' then char_of (of_char c - 32 :: nat) else c)"

definition downcase :: "char \<Rightarrow> char" where
  "downcase c = (if CHR ''A'' \<le> c \<and> c \<le> CHR ''Z'' then char_of (of_char c + 32 :: nat) else c)"

fun canonical_loop :: "bool \<Rightarrow> string \<Rightarrow> string" where
  "canonical_loop upper [] = []"
| "canonical_loop upper (c # cs) =
     (let c' = (if upper then upcase c else downcase c)
      in c' # canonical_loop (c' = CHR ''-'') cs)"

definition CanonicalHeaderKey :: "string \<Rightarrow> string" where
  "CanonicalHeaderKey k = (if list_all token_byte k then canonical_loop True k else k)"

definition Header_Get :: "header \<Rightarrow> string \<Rightarrow> string" where
  "Header_Get h k =
     (case h (CanonicalHeaderKey k) of None \<Rightarrow> '''' | Some [] \<Rightarrow> '''' | Some (v # _) \<Rightarrow> v)"

definition Header_Set :: "header \<Rightarrow> string \<Rightarrow> string \<Rightarrow> header" where
  "Header_Set h k v = h(CanonicalHeaderKey k \<mapsto> [v])"

definition Header_Add :: "header \<Rightarrow> string \<Rightarrow> string \<Rightarrow> header" where
  "Header_Add h k v =
     (let key = CanonicalHeaderKey k
      in h(key \<mapsto> (case h key of None \<Rightarrow> [v] | Some vs \<Rightarrow> vs @ [v])))"

definition Header_Del :: "header \<Rightarrow> string \<Rightarrow> header" where
  "Header_Del h k = h(CanonicalHeaderKey k := None)"

text \<open>\<open>h[key]\<close>: the values under a key, none if it is absent.\<close>

definition header_values :: "header \<Rightarrow> string \<Rightarrow> string list" where
  "header_values h key = (case h key of None \<Rightarrow> [] | Some vs \<Rightarrow> vs)"

lemma Header_Get_Set:
  "Header_Get (Header_Set h k v) k' =
     (if CanonicalHeaderKey k' = CanonicalHeaderKey k then v else Header_Get h k')"
  by (simp add: Header_Get_def Header_Set_def)

lemma Header_Get_empty [simp]: "Header_Get Map.empty k = ''''"
  by (simp add: Header_Get_def)

text \<open>The keys the gateway uses, and their canonical forms.\<close>

lemma canonical_keys [simp]:
  "CanonicalHeaderKey ''Authorization'' = ''Authorization''"
  "CanonicalHeaderKey ''Content-Type'' = ''Content-Type''"
  "CanonicalHeaderKey ''Retry-After'' = ''Retry-After''"
  "CanonicalHeaderKey ''User-Agent'' = ''User-Agent''"
  "CanonicalHeaderKey ''X-API-Key'' = ''X-Api-Key''"
  "CanonicalHeaderKey ''X-API-Key-ID'' = ''X-Api-Key-Id''"
  "CanonicalHeaderKey ''X-API-Key-Tier'' = ''X-Api-Key-Tier''"
  "CanonicalHeaderKey ''X-Forwarded-For'' = ''X-Forwarded-For''"
  "CanonicalHeaderKey ''X-RateLimit-Limit'' = ''X-Ratelimit-Limit''"
  "CanonicalHeaderKey ''X-RateLimit-Remaining'' = ''X-Ratelimit-Remaining''"
  "CanonicalHeaderKey ''X-RateLimit-Reset'' = ''X-Ratelimit-Reset''"
  "CanonicalHeaderKey ''X-Request-Id'' = ''X-Request-Id''"
  "CanonicalHeaderKey ''X-User-Claims'' = ''X-User-Claims''"
  "CanonicalHeaderKey ''X-User-ID'' = ''X-User-Id''"
  by code_simp+

subsection \<open>URLs and requests\<close>

text \<open>
  The fields of \<open>url.URL\<close>. Parsing (\<open>url.Parse\<close>) and printing (\<open>URL.String\<close>) are
  arguments of the definitions that call them.
\<close>

record URL =
  url_Scheme :: string
  url_Opaque :: string
  url_User :: "string option"
  url_Host :: string
  url_Path :: string
  url_RawPath :: string
  url_RawQuery :: string
  url_Fragment :: string

text \<open>
  \<open>rq_target\<close> is the value the request's context holds under \<open>targetURLKey\<close>.
\<close>

record Request =
  rq_Method :: string
  rq_Host :: string
  rq_URL :: URL
  rq_Header :: header
  rq_RemoteAddr :: string
  rq_target :: "URL option"

subsection \<open>Response writers\<close>

datatype wop = OpWriteHeader int header | OpWrite string

record ResponseWriter =
  w_Header :: header
  w_ops :: "wop list"

definition new_writer :: ResponseWriter where
  "new_writer = \<lparr>w_Header = Map.empty, w_ops = []\<rparr>"

definition raw_WriteHeader :: "ResponseWriter \<Rightarrow> int \<Rightarrow> ResponseWriter" where
  "raw_WriteHeader w code = w\<lparr>w_ops := w_ops w @ [OpWriteHeader code (w_Header w)]\<rparr>"

definition raw_Write :: "ResponseWriter \<Rightarrow> string \<Rightarrow> ResponseWriter" where
  "raw_Write w data = w\<lparr>w_ops := w_ops w @ [OpWrite data]\<rparr>"

definition raw_SetHeader :: "ResponseWriter \<Rightarrow> string \<Rightarrow> string \<Rightarrow> ResponseWriter" where
  "raw_SetHeader w k v = w\<lparr>w_Header := Header_Set (w_Header w) k v\<rparr>"

definition informational :: "int \<Rightarrow> bool" where
  "informational code \<longleftrightarrow> 100 \<le> code \<and> code \<le> 199 \<and> code \<noteq> 101"

fun written_status :: "wop list \<Rightarrow> int" where
  "written_status [] = 200"
| "written_status (OpWriteHeader code h # ops) =
     (if informational code then written_status ops else code)"
| "written_status (OpWrite data # ops) = 200"

fun written_body :: "wop list \<Rightarrow> string" where
  "written_body [] = ''''"
| "written_body (OpWriteHeader code h # ops) = written_body ops"
| "written_body (OpWrite data # ops) = data @ written_body ops"

lemma raw_writer_simps [simp]:
  "w_ops (raw_WriteHeader w c) = w_ops w @ [OpWriteHeader c (w_Header w)]"
  "w_Header (raw_WriteHeader w c) = w_Header w"
  "w_ops (raw_Write w d) = w_ops w @ [OpWrite d]"
  "w_Header (raw_Write w d) = w_Header w"
  "w_ops (raw_SetHeader w k v) = w_ops w"
  "w_Header (raw_SetHeader w k v) = Header_Set (w_Header w) k v"
  by (simp_all add: raw_WriteHeader_def raw_Write_def raw_SetHeader_def)

lemma written_body_append [simp]: "written_body (xs @ ys) = written_body xs @ written_body ys"
  by (induction xs rule: written_body.induct) simp_all

end
