(* ===== verification/Route_Match.thy ===== *)
theory Route_Match
  imports Gateway_Config Http_Model
begin

text \<open>
  Package \<open>router\<close> (\<open>internal/router/router.go\<close>): the route table and the matching of a
  request by method, host and path. \<open>Match\<close> is the loop over the table; a pointer into the
  table is the route itself.
\<close>

record Router =
  ro_routes :: "Route list"

definition New_Router :: "Route list \<Rightarrow> Router" where
  "New_Router routes = \<lparr>ro_routes = routes\<rparr>"

fun contains :: "string list \<Rightarrow> string \<Rightarrow> bool" where
  "contains [] item = False"
| "contains (i # items) item = (if i = item then True else contains items item)"

definition matchPath :: "string \<Rightarrow> string \<Rightarrow> bool" where
  "matchPath pattern path =
     (if HasSuffix pattern ''/*'' then
        let prefix = TrimSuffix pattern ''/*''
        in if prefix = '''' then True else HasPrefix path prefix
      else pattern = path)"

definition matchRoute :: "Route \<Rightarrow> Request \<Rightarrow> bool" where
  "matchRoute route req =
     (if 0 < length (rt_Methods route) \<and> \<not> contains (rt_Methods route) (rq_Method req) then False
      else if 0 < length (rt_Hosts route) \<and> \<not> contains (rt_Hosts route) (rq_Host req) then False
      else matchPath (rt_Path route) (url_Path (rq_URL req)))"

fun Match_loop :: "Route list \<Rightarrow> Request \<Rightarrow> Route option" where
  "Match_loop [] req = None"
| "Match_loop (route # routes) req =
     (if matchRoute route req then Some route else Match_loop routes req)"

definition Match :: "Router \<Rightarrow> Request \<Rightarrow> Route option" where
  "Match r req = Match_loop (ro_routes r) req"

subsection \<open>Lemmas\<close>

lemma contains_iff [simp]: "contains items item \<longleftrightarrow> item \<in> set items"
  by (induction items) auto

lemma Match_loop_find: "Match_loop routes req = List.find (\<lambda>r. matchRoute r req) routes"
  by (induction routes) simp_all

lemma Match_Some:
  "Match r req = Some route \<longleftrightarrow>
     (\<exists>i < length (ro_routes r). route = ro_routes r ! i \<and> matchRoute route req
        \<and> (\<forall>j < i. \<not> matchRoute (ro_routes r ! j) req))"
  by (auto simp: Match_def Match_loop_find find_index)

lemma Match_loop_skip:
  "\<forall>r' \<in> set before. \<not> matchRoute r' req \<Longrightarrow> Match_loop (before @ rs) req = Match_loop rs req"
  by (induction before) auto

lemma Match_split:
  "Match r req = Some route \<longleftrightarrow>
     (\<exists>before after. ro_routes r = before @ route # after \<and> matchRoute route req
        \<and> (\<forall>r' \<in> set before. \<not> matchRoute r' req))"
proof
  assume "Match r req = Some route"
  then obtain i where i: "i < length (ro_routes r)" "route = ro_routes r ! i"
    "matchRoute route req" "\<forall>j < i. \<not> matchRoute (ro_routes r ! j) req"
    by (auto simp: Match_Some)
  then have "ro_routes r = take i (ro_routes r) @ route # drop (Suc i) (ro_routes r)"
    by (simp add: id_take_nth_drop)
  moreover have "\<forall>r' \<in> set (take i (ro_routes r)). \<not> matchRoute r' req"
    using i by (auto simp: in_set_conv_nth)
  ultimately show "\<exists>before after. ro_routes r = before @ route # after \<and> matchRoute route req
        \<and> (\<forall>r' \<in> set before. \<not> matchRoute r' req)"
    using i(3) by blast
qed (auto simp: Match_def Match_loop_skip)

lemma Match_None: "Match r req = None \<longleftrightarrow> (\<forall>route \<in> set (ro_routes r). \<not> matchRoute route req)"
  by (auto simp: Match_def Match_loop_find find_None_iff)

lemma Match_in_table: "Match r req = Some route \<Longrightarrow> route \<in> set (ro_routes r)"
  by (auto simp: Match_Some)

lemma Match_matches: "Match r req = Some route \<Longrightarrow> matchRoute route req"
  by (auto simp: Match_Some)

lemma matchRoute_iff:
  "matchRoute route req \<longleftrightarrow>
     (rt_Methods route = [] \<or> rq_Method req \<in> set (rt_Methods route))
     \<and> (rt_Hosts route = [] \<or> rq_Host req \<in> set (rt_Hosts route))
     \<and> matchPath (rt_Path route) (url_Path (rq_URL req))"
  by (auto simp: matchRoute_def)

lemma matchPath_wildcard: "matchPath (p @ ''/*'') path \<longleftrightarrow> HasPrefix path p"
  by (auto simp: matchPath_def HasPrefix_def)

lemma matchPath_exact: "\<not> HasSuffix pattern ''/*'' \<Longrightarrow> matchPath pattern path \<longleftrightarrow> path = pattern"
  by (auto simp: matchPath_def)

text \<open>The reading of a wildcard as a directory: the prefix itself, or something below it.\<close>

definition below_dir :: "string \<Rightarrow> string \<Rightarrow> bool" where
  "below_dir p path \<longleftrightarrow> path = p \<or> HasPrefix path (p @ ''/'')"

lemma matchPath_below_dir: "below_dir p path \<Longrightarrow> matchPath (p @ ''/*'') path"
  by (auto simp: matchPath_wildcard below_dir_def go_string)

lemma wildcard_cases:
  "matchPath (p @ ''/*'') path \<longleftrightarrow>
     below_dir p path \<or> (\<exists>c rest. c \<noteq> CHR ''/'' \<and> path = p @ c # rest)"
proof
  assume "matchPath (p @ ''/*'') path"
  then obtain t where t: "path = p @ t" by (auto simp: matchPath_wildcard go_string)
  then show "below_dir p path \<or> (\<exists>c rest. c \<noteq> CHR ''/'' \<and> path = p @ c # rest)"
    by (cases t) (auto simp: below_dir_def go_string)
qed (auto simp: matchPath_wildcard below_dir_def go_string)

subsection \<open>Properties\<close>

text \<open>
  C28: \<open>Match\<close> returns the first route of the table, in declaration order, whose methods
  and hosts (when it lists any) hold the request's and whose path pattern matches; it returns
  nil exactly when no route of the table does.
\<close>

theorem Match_first:
  "(Match r req = Some route \<longleftrightarrow>
      (\<exists>before after. ro_routes r = before @ route # after
         \<and> (rt_Methods route = [] \<or> rq_Method req \<in> set (rt_Methods route))
         \<and> (rt_Hosts route = [] \<or> rq_Host req \<in> set (rt_Hosts route))
         \<and> matchPath (rt_Path route) (url_Path (rq_URL req))
         \<and> (\<forall>r' \<in> set before. \<not> matchRoute r' req)))
   \<and> (Match r req = None \<longleftrightarrow> (\<forall>r' \<in> set (ro_routes r). \<not> matchRoute r' req))"
  unfolding Match_split Match_None by (auto simp: matchRoute_iff [of route])

definition sample_request :: "string \<Rightarrow> string \<Rightarrow> Request" where
  "sample_request method path = \<lparr>rq_Method = method, rq_Host = ''example.com'',
     rq_URL = \<lparr>url_Scheme = '''', url_Opaque = '''', url_User = None, url_Host = '''',
       url_Path = path, url_RawPath = '''', url_RawQuery = '''', url_Fragment = ''''\<rparr>,
     rq_Header = Map.empty, rq_RemoteAddr = ''192.0.2.1:1234'', rq_target = None\<rparr>"

theorem Match_first_witness:
  "Match (New_Router [sample_route]) (sample_request ''GET'' ''/x'') = Some sample_route
     \<and> Match (New_Router [sample_route]) (sample_request ''POST'' ''/x'') = None"
proof
  show "Match (New_Router [sample_route]) (sample_request ''GET'' ''/x'') = Some sample_route"
    by (rule Match_first [THEN conjunct1, THEN iffD2], rule exI [of _ "[]"])
      (simp add: New_Router_def sample_route_def sample_request_def matchPath_def HasSuffix_def
        TrimSuffix_def)
  show "Match (New_Router [sample_route]) (sample_request ''POST'' ''/x'') = None"
    using Match_first [of "New_Router [sample_route]" "sample_request ''POST'' ''/x''"]
    by (simp add: New_Router_def sample_route_def sample_request_def matchRoute_iff)
qed

text \<open>
  C29: A pattern with a trailing wildcard matches every path that extends its prefix: the
  prefix itself, every path below it as a directory, and also every path that goes on with
  another character (\<open>/api/*\<close> matches \<open>/apikeys\<close>). A pattern without one matches only
  itself.
\<close>

theorem matchPath_spec:
  "(matchPath (p @ ''/*'') path \<longleftrightarrow>
      path = p \<or> HasPrefix path (p @ ''/'') \<or> (\<exists>c rest. c \<noteq> CHR ''/'' \<and> path = p @ c # rest))
   \<and> (matchPath pattern path \<longleftrightarrow>
        (if HasSuffix pattern ''/*'' then HasPrefix path (TrimSuffix pattern ''/*'')
         else path = pattern))
   \<and> matchPath ''/api/*'' ''/apikeys''"
proof -
  have "matchPath ''/api/*'' ''/apikeys''"
    using matchPath_wildcard [of "''/api''" "''/apikeys''"] by (simp add: HasPrefix_def)
  moreover have "matchPath pattern path \<longleftrightarrow>
      (if HasSuffix pattern ''/*'' then HasPrefix path (TrimSuffix pattern ''/*'')
       else path = pattern)"
    by (auto simp: matchPath_exact matchPath_wildcard HasSuffix_iff)
  ultimately show ?thesis
    using wildcard_cases [of p path] by (simp add: below_dir_def)
qed

end
