(* ===== verification/Request_Auth.thy ===== *)
theory Request_Auth
  imports Key_Store Route_Match
begin

text \<open>
  The authenticators of package \<open>middleware\<close>: API keys (\<open>apikey.go\<close>) and JSON web tokens
  (\<open>jwt.go\<close>).

  The JWT library and the JSON encoder are arguments: \<open>jwt_parse s kf\<close> is \<open>jwt.Parse\<close> and
  \<open>marshal\<close> is \<open>json.Marshal\<close>. What the library documents about \<open>Parse\<close>, that a token it
  returns was verified with the key the key function chose for it, is the hypothesis
  \<open>jwt_parse_sound\<close> of the theorems that need it; \<open>jwt_parse_exact\<close> is the whole of it.
\<close>

subsection \<open>API keys\<close>

datatype apikey_error = MissingAPIKey | UnknownAPIKey | APIKeyIsRevoked

record APIKeyAuth =
  ak_keyStore :: KeyStore

definition NewAPIKeyAuth :: "KeyStore \<Rightarrow> APIKeyAuth" where
  "NewAPIKeyAuth ks = \<lparr>ak_keyStore = ks\<rparr>"

definition bearer :: string where
  "bearer = ''Bearer ''"

lemma bearer_not_Nil [simp]: "bearer \<noteq> []"
  by (simp add: bearer_def)

definition request_api_key :: "Request \<Rightarrow> string" where
  "request_api_key r =
     (let rawKey = Header_Get (rq_Header r) ''X-API-Key''
      in if rawKey = ''''
         then (let auth = Header_Get (rq_Header r) ''Authorization''
               in if HasPrefix auth bearer then TrimPrefix auth bearer else rawKey)
         else rawKey)"

definition APIKey_Validate ::
  "(string \<Rightarrow> 8 word list) \<Rightarrow> APIKeyAuth \<Rightarrow> Request \<Rightarrow> apikey_error + APIKey" where
  "APIKey_Validate sha256 a r =
     (let rawKey = request_api_key r
      in if rawKey = '''' then Inl MissingAPIKey
         else case Lookup (ak_keyStore a) (HashKey sha256 rawKey) of
                None \<Rightarrow> Inl UnknownAPIKey
              | Some key \<Rightarrow> if k_Revoked key then Inl APIKeyIsRevoked else Inr key)"

subsection \<open>Tokens\<close>

text \<open>Claim and header values as \<open>encoding/json\<close> decodes them into an \<open>interface{}\<close>.\<close>

datatype json =
    JNull | JBool bool | JNumber rat | JString string | JArray "json list"
  | JObject "(string \<times> json) list"

type_synonym claims = "string \<rightharpoonup> json"

text \<open>The type assertion \<open>v.(string)\<close> with its result dropped: the zero string otherwise.\<close>

fun as_string :: "json option \<Rightarrow> string" where
  "as_string (Some (JString s)) = s"
| "as_string _ = ''''"

datatype signing_method = SigningMethodHMAC string | SigningMethodRSA string | OtherMethod string

record jwt_token =
  tk_Method :: signing_method
  tk_Header :: "string \<rightharpoonup> json"
  tk_Claims :: "claims option"
  tk_Valid :: bool

datatype 'k verify_key = HMACKey string | RSAKey 'k

datatype keyfunc_error =
    HMACNotConfigured | RSANotConfigured | MissingKid | UnknownKid string
  | UnexpectedMethod signing_method | OverrideError string

record 'k JWTAuth =
  ja_HMACSecret :: "string option"
  ja_RSAPublicKeys :: "(string \<rightharpoonup> 'k) option"
  ja_KeyFunc :: "(jwt_token \<Rightarrow> keyfunc_error + 'k verify_key) option"

definition NewJWTAuth :: "string option \<Rightarrow> 'k JWTAuth" where
  "NewJWTAuth secret =
     \<lparr>ja_HMACSecret = secret, ja_RSAPublicKeys = Some Map.empty, ja_KeyFunc = None\<rparr>"

definition AddRSAKey :: "'k JWTAuth \<Rightarrow> string \<Rightarrow> 'k \<Rightarrow> 'k JWTAuth" where
  "AddRSAKey j kid key =
     (let keys = (case ja_RSAPublicKeys j of None \<Rightarrow> Map.empty | Some m \<Rightarrow> m)
      in j\<lparr>ja_RSAPublicKeys := Some (keys(kid \<mapsto> key))\<rparr>)"

definition defaultKeyFunc :: "'k JWTAuth \<Rightarrow> jwt_token \<Rightarrow> keyfunc_error + 'k verify_key" where
  "defaultKeyFunc j token =
     (case tk_Method token of
        SigningMethodHMAC alg \<Rightarrow>
          (case ja_HMACSecret j of
             None \<Rightarrow> Inl HMACNotConfigured
           | Some secret \<Rightarrow> Inr (HMACKey secret))
      | SigningMethodRSA alg \<Rightarrow>
          (case ja_RSAPublicKeys j of
             None \<Rightarrow> Inl RSANotConfigured
           | Some keys \<Rightarrow>
               (let kid = as_string (tk_Header token ''kid'')
                in if kid = '''' then Inl MissingKid
                   else case keys kid of
                          None \<Rightarrow> Inl (UnknownKid kid)
                        | Some pubKey \<Rightarrow> Inr (RSAKey pubKey)))
      | OtherMethod alg \<Rightarrow> Inl (UnexpectedMethod (OtherMethod alg)))"

datatype 'pe jwt_error =
    MissingAuthorization | InvalidAuthFormat | ParseError 'pe | InvalidClaims
  | UnexpectedIssuer string

type_synonym ('k, 'pe) jwt_parser =
  "string \<Rightarrow> (jwt_token \<Rightarrow> keyfunc_error + 'k verify_key) \<Rightarrow> 'pe + jwt_token"

fun jwt_contains :: "string list \<Rightarrow> string \<Rightarrow> bool" where
  "jwt_contains [] item = False"
| "jwt_contains (i # items) item = (if i = item then True else jwt_contains items item)"

lemma jwt_contains_iff [simp]: "jwt_contains items item \<longleftrightarrow> item \<in> set items"
  by (induction items) auto

definition JWT_Validate ::
  "('k, 'pe) jwt_parser \<Rightarrow> 'k JWTAuth \<Rightarrow> Request \<Rightarrow> JWTConfig option \<Rightarrow> 'pe jwt_error + claims" where
  "JWT_Validate jwt_parse j r jwtCfg =
     (let auth = Header_Get (rq_Header r) ''Authorization''
      in if auth = '''' then Inl MissingAuthorization
         else if \<not> HasPrefix auth bearer then Inl InvalidAuthFormat
         else
           let tokenString = TrimPrefix auth bearer;
               keyFunc = (case ja_KeyFunc j of None \<Rightarrow> defaultKeyFunc j | Some kf \<Rightarrow> kf)
           in case jwt_parse tokenString keyFunc of
                Inl err \<Rightarrow> Inl (ParseError err)
              | Inr token \<Rightarrow>
                  (case tk_Claims token of
                     None \<Rightarrow> Inl InvalidClaims
                   | Some claims \<Rightarrow>
                       if \<not> tk_Valid token then Inl InvalidClaims
                       else case jwtCfg of
                              None \<Rightarrow> Inr claims
                            | Some cfg \<Rightarrow>
                                if 0 < length (jwt_Issuers cfg)
                                then (let iss = as_string (claims ''iss'')
                                      in if \<not> jwt_contains (jwt_Issuers cfg) iss
                                         then Inl (UnexpectedIssuer iss) else Inr claims)
                                else Inr claims))"

definition ForwardClaims :: "(claims \<Rightarrow> string option) \<Rightarrow> Request \<Rightarrow> claims \<Rightarrow> Request" where
  "ForwardClaims marshal r claims =
     (let sub = as_string (claims ''sub'');
          r1 = (if sub \<noteq> '''' then r\<lparr>rq_Header := Header_Set (rq_Header r) ''X-User-ID'' sub\<rparr> else r)
      in case marshal claims of
           None \<Rightarrow> r1
         | Some data \<Rightarrow> r1\<lparr>rq_Header := Header_Set (rq_Header r1) ''X-User-Claims'' data\<rparr>)"

subsection \<open>What the JWT library promises\<close>

text \<open>
  \<open>verify s m key\<close> says that token string \<open>s\<close> carries a signature of method \<open>m\<close> that the
  key verifies. The key function is given the token as decoded, before it is marked valid.
\<close>

definition jwt_parse_sound ::
  "('k, 'pe) jwt_parser \<Rightarrow> (string \<Rightarrow> signing_method \<Rightarrow> 'k verify_key \<Rightarrow> bool) \<Rightarrow> bool" where
  "jwt_parse_sound jwt_parse verify \<longleftrightarrow>
     (\<forall>s kf token. jwt_parse s kf = Inr token \<longrightarrow>
        (\<exists>key. kf (token\<lparr>tk_Valid := False\<rparr>) = Inr key \<and> verify s (tk_Method token) key))"

text \<open>
  The full documented behaviour of \<open>Parse\<close>: it decodes the token, asks the key function, verifies
  the signature and the token's time claims, and fails otherwise.
\<close>

definition jwt_parse_exact ::
  "('k, 'pe) jwt_parser \<Rightarrow> (string \<Rightarrow> jwt_token option)
     \<Rightarrow> (string \<Rightarrow> signing_method \<Rightarrow> 'k verify_key \<Rightarrow> bool) \<Rightarrow> (jwt_token \<Rightarrow> bool) \<Rightarrow> bool" where
  "jwt_parse_exact jwt_parse decode verify timely \<longleftrightarrow>
     (\<forall>s kf token. jwt_parse s kf = Inr token \<longleftrightarrow>
        (\<exists>t key. decode s = Some t \<and> kf t = Inr key \<and> verify s (tk_Method t) key \<and> timely t \<and>
           token = t\<lparr>tk_Valid := True\<rparr>))"

subsection \<open>Lemmas\<close>

lemma request_api_key_cases:
  "request_api_key r =
     (let x = Header_Get (rq_Header r) ''X-API-Key'';
          a = Header_Get (rq_Header r) ''Authorization''
      in if x \<noteq> '''' then x else if HasPrefix a bearer then drop (length bearer) a else '''')"
  by (simp add: request_api_key_def Let_def TrimPrefix_def)

lemma APIKey_Validate_Inr:
  "APIKey_Validate sha256 a r = Inr key \<longleftrightarrow>
     request_api_key r \<noteq> ''''
     \<and> Lookup (ak_keyStore a) (HashKey sha256 (request_api_key r)) = Some key
     \<and> \<not> k_Revoked key"
  by (auto simp: APIKey_Validate_def Let_def split: option.splits)

lemma defaultKeyFunc_Inr:
  "defaultKeyFunc j token = Inr key \<longleftrightarrow>
     (\<exists>alg secret. tk_Method token = SigningMethodHMAC alg \<and> ja_HMACSecret j = Some secret
        \<and> key = HMACKey secret)
     \<or> (\<exists>alg keys kid pub. tk_Method token = SigningMethodRSA alg \<and> ja_RSAPublicKeys j = Some keys
        \<and> tk_Header token ''kid'' = Some (JString kid) \<and> kid \<noteq> '''' \<and> keys kid = Some pub
        \<and> key = RSAKey pub)"
proof -
  have "as_string x \<noteq> '''' \<longleftrightarrow> (\<exists>s. x = Some (JString s) \<and> s \<noteq> '''')" for x
    by (cases x rule: as_string.cases) auto
  then show ?thesis
    by (auto simp: defaultKeyFunc_def Let_def split: signing_method.splits option.splits)
qed

lemma JWT_Validate_Inr:
  "JWT_Validate jwt_parse j r jwtCfg = Inr claims \<longleftrightarrow>
     (\<exists>s token. Header_Get (rq_Header r) ''Authorization'' = bearer @ s
        \<and> jwt_parse s (case ja_KeyFunc j of None \<Rightarrow> defaultKeyFunc j | Some kf \<Rightarrow> kf) = Inr token
        \<and> tk_Claims token = Some claims \<and> tk_Valid token
        \<and> (\<forall>cfg. jwtCfg = Some cfg \<and> jwt_Issuers cfg \<noteq> [] \<longrightarrow>
             as_string (claims ''iss'') \<in> set (jwt_Issuers cfg)))"
proof (cases "HasPrefix (Header_Get (rq_Header r) ''Authorization'') bearer")
  case False
  then show ?thesis by (auto simp: JWT_Validate_def Let_def)
next
  case True
  then obtain s where s: "Header_Get (rq_Header r) ''Authorization'' = bearer @ s"
    by (auto simp: HasPrefix_iff)
  then show ?thesis
    by (auto simp: JWT_Validate_def Let_def s split: sum.splits option.splits)
qed

lemma ForwardClaims_header:
  "Header_Get (rq_Header (ForwardClaims marshal r claims)) k =
     (if CanonicalHeaderKey k = ''X-User-Claims'' \<and> marshal claims \<noteq> None
        then the (marshal claims)
      else if CanonicalHeaderKey k = ''X-User-Id'' \<and> as_string (claims ''sub'') \<noteq> ''''
        then as_string (claims ''sub'')
      else Header_Get (rq_Header r) k)"
  by (auto simp: ForwardClaims_def Let_def Header_Get_Set split: option.splits)

lemma ForwardClaims_frame [simp]:
  "rq_Method (ForwardClaims marshal r claims) = rq_Method r"
  "rq_Host (ForwardClaims marshal r claims) = rq_Host r"
  "rq_URL (ForwardClaims marshal r claims) = rq_URL r"
  "rq_RemoteAddr (ForwardClaims marshal r claims) = rq_RemoteAddr r"
  "rq_target (ForwardClaims marshal r claims) = rq_target r"
  by (simp_all add: ForwardClaims_def Let_def split: option.splits)

lemma APIKey_Validate_revoked:
  "request_api_key r \<noteq> '''' \<Longrightarrow>
   Lookup (ak_keyStore a) (HashKey sha256 (request_api_key r)) = Some k \<Longrightarrow> k_Revoked k \<Longrightarrow>
   APIKey_Validate sha256 a r = Inl APIKeyIsRevoked"
  by (simp add: APIKey_Validate_def Let_def)

lemma HashKey_eq_iff [simp]: "HashKey sha256 x = HashKey sha256 y \<longleftrightarrow> sha256 x = sha256 y"
  by (auto simp: HashKey_def dest: hex_encode_inj)

lemma loaded_key_valid:
  assumes "LoadKeyFile sha256 read_file not_exist unmarshal now path = Inr ks"
    and "read_file path = Inr data" "unmarshal data = Inr entries"
  shows "APIKey_Validate sha256 (NewAPIKeyAuth ks) r = Inr key \<longleftrightarrow>
    request_api_key r \<noteq> ''''
    \<and> (\<exists>before e after. entries = before @ e # after
        \<and> (entry_ok e \<and> sha256 (kf_Key e) = sha256 (request_api_key r)
           \<and> key = entry_key sha256 now e
           \<and> not_under sha256 (HashKey sha256 (request_api_key r)) after))"
proof -
  have ks: "ks = load_entries sha256 now NewKeyStore entries"
    using assms by (simp add: LoadKeyFile_def)
  have fresh: "\<not> k_Revoked (entry_key sha256 now e)" for e by (simp add: entry_key_def)
  show ?thesis
    unfolding APIKey_Validate_Inr NewAPIKeyAuth_def ks
    by (auto simp: load_entries_lookup ks.lookup_empty fresh)
qed

subsection \<open>Properties\<close>

text \<open>
  A token is accepted only from a header \<open>Authorization: Bearer s\<close> whose signature the
  JWT library verified with the server's own key for the token's method: the shared secret
  for an HMAC token, the registered RSA key of the token's non-empty \<open>kid\<close> for an RSA token,
  and no other method, so no RSA key is ever used as an HMAC secret; and when the route lists
  issuers the token's issuer is one of them.
\<close>

theorem JWT_Validate_sound:
  assumes "jwt_parse_sound jwt_parse verify" and "ja_KeyFunc j = None"
    and "JWT_Validate jwt_parse j r (Some cfg) = Inr claims"
  shows "\<exists>s m. Header_Get (rq_Header r) ''Authorization'' = bearer @ s
    \<and> ((\<exists>alg secret. m = SigningMethodHMAC alg \<and> ja_HMACSecret j = Some secret
          \<and> verify s m (HMACKey secret))
       \<or> (\<exists>alg keys kid pub. m = SigningMethodRSA alg \<and> ja_RSAPublicKeys j = Some keys
          \<and> kid \<noteq> '''' \<and> keys kid = Some pub \<and> verify s m (RSAKey pub)))
    \<and> (jwt_Issuers cfg = [] \<or> as_string (claims ''iss'') \<in> set (jwt_Issuers cfg))"
proof -
  from assms(2,3) obtain s token where s: "Header_Get (rq_Header r) ''Authorization'' = bearer @ s"
    and parse: "jwt_parse s (defaultKeyFunc j) = Inr token"
    and iss: "jwt_Issuers cfg = [] \<or> as_string (claims ''iss'') \<in> set (jwt_Issuers cfg)"
    by (auto simp: JWT_Validate_Inr)
  from assms(1) parse obtain key where
    "defaultKeyFunc j (token\<lparr>tk_Valid := False\<rparr>) = Inr key" "verify s (tk_Method token) key"
    unfolding jwt_parse_sound_def by blast
  with s iss show ?thesis
    by (intro exI [of _ s] exI [of _ "tk_Method token"]) (auto simp: defaultKeyFunc_Inr)
qed

text \<open>A parser that accepts the one token string signed with the secret.\<close>

definition sample_token :: jwt_token where
  "sample_token = \<lparr>tk_Method = SigningMethodHMAC ''HS256'', tk_Header = Map.empty,
     tk_Claims = Some [''iss'' \<mapsto> JString ''me'', ''sub'' \<mapsto> JString ''bob''], tk_Valid = True\<rparr>"

definition sample_jwt_parse :: "(nat, nat) jwt_parser" where
  "sample_jwt_parse s kf =
     (if s \<noteq> ''tok'' then Inl 1
      else case kf (sample_token\<lparr>tk_Valid := False\<rparr>) of
             Inr (HMACKey secret) \<Rightarrow> if secret = ''key'' then Inr sample_token else Inl 2
           | _ \<Rightarrow> Inl 3)"

definition sample_verify :: "string \<Rightarrow> signing_method \<Rightarrow> nat verify_key \<Rightarrow> bool" where
  "sample_verify s m key \<longleftrightarrow> s = ''tok'' \<and> key = HMACKey ''key''"

definition bearer_request :: "string \<Rightarrow> Request" where
  "bearer_request s = (sample_request ''GET'' ''/x'')
     \<lparr>rq_Header := Header_Set Map.empty ''Authorization'' (bearer @ s)\<rparr>"

lemma sample_jwt_sound: "jwt_parse_sound sample_jwt_parse sample_verify"
  by (auto simp: jwt_parse_sound_def sample_jwt_parse_def sample_verify_def
      split: if_splits sum.splits verify_key.splits)

lemma sample_jwt_accepts:
  "JWT_Validate sample_jwt_parse (NewJWTAuth (Some ''key'')) (bearer_request ''tok'')
     (Some \<lparr>jwt_Required = True, jwt_Issuers = [''me'']\<rparr>)
     = Inr [''iss'' \<mapsto> JString ''me'', ''sub'' \<mapsto> JString ''bob'']"
  by (simp add: JWT_Validate_Inr bearer_request_def Header_Get_Set sample_jwt_parse_def NewJWTAuth_def
      defaultKeyFunc_def sample_token_def)

theorem JWT_Validate_sound_witness:
  "\<exists>m alg. m = SigningMethodHMAC alg \<and> sample_verify ''tok'' m (HMACKey ''key'')"
  using JWT_Validate_sound [OF sample_jwt_sound _ sample_jwt_accepts]
  by (auto simp: NewJWTAuth_def bearer_request_def Header_Get_Set)

text \<open>
  C24: Which tokens are accepted, exactly. A request passes a route's JWT check with given claims
  if and only if its header is \<open>Authorization: Bearer s\<close> with an \<open>s\<close> that decodes to a token
  with those claims, in its time, whose signature the server's own key for its method verifies
  (the shared secret for an HMAC token, the registered RSA key of its non-empty \<open>kid\<close> for an RSA
  token), and whose issuer the route lists, if it lists any. So no token of another method is
  accepted, no RSA key serves as an HMAC secret, and no good token is refused.
\<close>

theorem JWT_Validate_exact:
  assumes "jwt_parse_exact jwt_parse decode verify timely" and "ja_KeyFunc j = None"
  shows "JWT_Validate jwt_parse j r (Some cfg) = Inr claims \<longleftrightarrow>
    (\<exists>s t. Header_Get (rq_Header r) ''Authorization'' = bearer @ s
      \<and> decode s = Some t \<and> timely t \<and> tk_Claims t = Some claims
      \<and> ((\<exists>alg secret. tk_Method t = SigningMethodHMAC alg \<and> ja_HMACSecret j = Some secret
            \<and> verify s (SigningMethodHMAC alg) (HMACKey secret))
         \<or> (\<exists>alg keys kid pub. tk_Method t = SigningMethodRSA alg \<and> ja_RSAPublicKeys j = Some keys
            \<and> tk_Header t ''kid'' = Some (JString kid) \<and> kid \<noteq> '''' \<and> keys kid = Some pub
            \<and> verify s (SigningMethodRSA alg) (RSAKey pub)))
      \<and> (jwt_Issuers cfg = [] \<or> as_string (claims ''iss'') \<in> set (jwt_Issuers cfg)))"
proof -
  have parse: "jwt_parse s (defaultKeyFunc j) = Inr token \<longleftrightarrow>
      (\<exists>t key. decode s = Some t \<and> defaultKeyFunc j t = Inr key \<and> verify s (tk_Method t) key \<and>
         timely t \<and> token = t\<lparr>tk_Valid := True\<rparr>)" for s token
    using assms(1) unfolding jwt_parse_exact_def by blast
  have "JWT_Validate jwt_parse j r (Some cfg) = Inr claims \<longleftrightarrow>
      (\<exists>s t key. Header_Get (rq_Header r) ''Authorization'' = bearer @ s \<and> decode s = Some t \<and>
         defaultKeyFunc j t = Inr key \<and> verify s (tk_Method t) key \<and> timely t \<and>
         tk_Claims t = Some claims \<and>
         (jwt_Issuers cfg = [] \<or> as_string (claims ''iss'') \<in> set (jwt_Issuers cfg)))"
    unfolding JWT_Validate_Inr assms(2) option.case parse by auto
  also have "\<dots> \<longleftrightarrow> (\<exists>s t. Header_Get (rq_Header r) ''Authorization'' = bearer @ s \<and> decode s = Some t \<and>
         timely t \<and> tk_Claims t = Some claims \<and>
         (\<exists>key. defaultKeyFunc j t = Inr key \<and> verify s (tk_Method t) key) \<and>
         (jwt_Issuers cfg = [] \<or> as_string (claims ''iss'') \<in> set (jwt_Issuers cfg)))"
    by blast
  also have "(\<lambda>s t. \<exists>key. defaultKeyFunc j t = Inr key \<and> verify s (tk_Method t) key) =
      (\<lambda>s t. (\<exists>alg secret. tk_Method t = SigningMethodHMAC alg \<and> ja_HMACSecret j = Some secret
            \<and> verify s (SigningMethodHMAC alg) (HMACKey secret))
         \<or> (\<exists>alg keys kid pub. tk_Method t = SigningMethodRSA alg \<and> ja_RSAPublicKeys j = Some keys
            \<and> tk_Header t ''kid'' = Some (JString kid) \<and> kid \<noteq> '''' \<and> keys kid = Some pub
            \<and> verify s (SigningMethodRSA alg) (RSAKey pub)))"
    by (intro ext) (auto simp: defaultKeyFunc_Inr)
  finally show ?thesis .
qed

definition sample_decode :: "string \<Rightarrow> jwt_token option" where
  "sample_decode s = (if s = ''tok'' then Some (sample_token\<lparr>tk_Valid := False\<rparr>) else None)"

lemma sample_jwt_exact: "jwt_parse_exact sample_jwt_parse sample_decode sample_verify (\<lambda>_. True)"
  by (auto simp: jwt_parse_exact_def sample_jwt_parse_def sample_decode_def sample_verify_def sample_token_def
      split: if_splits sum.splits verify_key.splits)

lemma JWT_Validate_exact_witness:
  "JWT_Validate sample_jwt_parse (NewJWTAuth (Some ''key'')) (bearer_request ''tok'')
     (Some \<lparr>jwt_Required = True, jwt_Issuers = [''me'']\<rparr>) =
     Inr [''iss'' \<mapsto> JString ''me'', ''sub'' \<mapsto> JString ''bob''] \<and>
   JWT_Validate sample_jwt_parse (NewJWTAuth (Some ''other'')) (bearer_request ''tok'')
     (Some \<lparr>jwt_Required = True, jwt_Issuers = [''me'']\<rparr>) \<noteq>
     Inr [''iss'' \<mapsto> JString ''me'', ''sub'' \<mapsto> JString ''bob'']"
proof -
  have kf: "ja_KeyFunc (NewJWTAuth (Some secret) :: nat JWTAuth) = None" for secret
    by (simp add: NewJWTAuth_def)
  show ?thesis
    unfolding JWT_Validate_exact [OF sample_jwt_exact kf]
    by (auto simp: NewJWTAuth_def bearer_request_def Header_Get_Set sample_verify_def sample_decode_def
        sample_token_def)
qed

text \<open>
  C25: With the seed file loaded, a request authenticates as a key exactly when it presents a
  non-empty raw key whose SHA-256 is that of a usable entry (one with an ID and a key), and the
  key returned is that of the last such entry, with its ID and tier.
\<close>

theorem APIKey_file_spec:
  assumes "LoadKeyFile sha256 read_file not_exist unmarshal now path = Inr ks"
    and "read_file path = Inr data" "unmarshal data = Inr entries"
  shows "APIKey_Validate sha256 (NewAPIKeyAuth ks) r = Inr key \<longleftrightarrow>
    request_api_key r \<noteq> ''''
    \<and> (\<exists>before e after. entries = before @ e # after \<and> kf_ID e \<noteq> '''' \<and> kf_Key e \<noteq> ''''
        \<and> sha256 (kf_Key e) = sha256 (request_api_key r)
        \<and> (\<forall>e' \<in> set after. kf_ID e' \<noteq> '''' \<and> kf_Key e' \<noteq> '''' \<longrightarrow>
             sha256 (kf_Key e') \<noteq> sha256 (request_api_key r))
        \<and> key = \<lparr>k_ID = kf_ID e, k_KeyHash = HashKey sha256 (kf_Key e),
             k_Service = kf_Service e, k_RateTier = kf_RateTier e, k_CreatedAt = now,
             k_Revoked = False\<rparr>)"
  unfolding loaded_key_valid [OF assms] not_under_def entry_ok_def entry_key_def
  by (rule conj_cong [OF refl], intro ex_cong1) auto

definition sample_sha :: "string \<Rightarrow> 8 word list" where
  "sample_sha s = map (\<lambda>c. word_of_nat (of_char c)) s"

definition sample_entries :: "keyFileEntry list" where
  "sample_entries =
     [\<lparr>kf_ID = ''k1'', kf_Key = ''raw'', kf_Service = ''users'', kf_RateTier = ''pro''\<rparr>]"

definition key_request :: "string \<Rightarrow> Request" where
  "key_request k = (sample_request ''GET'' ''/x'')
     \<lparr>rq_Header := Header_Set Map.empty ''X-API-Key'' k\<rparr>"

lemma key_request_key [simp]: "k \<noteq> '''' \<Longrightarrow> request_api_key (key_request k) = k"
  by (simp add: request_api_key_def key_request_def Header_Get_Set Let_def)

theorem APIKey_file_spec_witness:
  "\<exists>ks key. LoadKeyFile sample_sha (\<lambda>p. Inr p :: nat + string) (\<lambda>_. True)
       (\<lambda>d. Inr sample_entries :: nat + keyFileEntry list) 5 ''f'' = Inr ks
     \<and> APIKey_Validate sample_sha (NewAPIKeyAuth ks) (key_request ''raw'') = Inr key
     \<and> k_ID key = ''k1''"
proof -
  let ?load = "LoadKeyFile sample_sha (\<lambda>p. Inr p :: nat + string) (\<lambda>_. True)
       (\<lambda>d. Inr sample_entries :: nat + keyFileEntry list) 5 ''f''"
  obtain ks where load: "?load = Inr ks" by (simp add: LoadKeyFile_def)
  have "APIKey_Validate sample_sha (NewAPIKeyAuth ks) (key_request ''raw'') =
      Inr (entry_key sample_sha 5 (hd sample_entries))"
    unfolding APIKey_file_spec [OF load refl refl]
    by (rule conjI, simp, rule exI [of _ "[]"])
      (simp add: sample_entries_def entry_key_def)
  with load show ?thesis by (auto simp: sample_entries_def entry_key_def)
qed

text \<open>
  Revoking a known key is permanent: whatever keys are added or revoked afterwards, as
  long as none with the same hash is added, every request that presents the raw key is
  rejected as revoked.
\<close>

theorem revoked_key_rejected:
  assumes "fst (Revoke ks (HashKey sha256 (request_api_key r)))"
    and "request_api_key r \<noteq> ''''"
    and "\<forall>op \<in> set ops. \<not> adds (HashKey sha256 (request_api_key r)) op"
  shows "APIKey_Validate sha256
      (NewAPIKeyAuth (key_ops Add Revoke (snd (Revoke ks (HashKey sha256 (request_api_key r)))) ops)) r
    = Inl APIKeyIsRevoked"
  using ks.revoke_then [OF assms(1,3)] assms(2)
  by (auto simp: NewAPIKeyAuth_def intro: APIKey_Validate_revoked)

theorem revoked_key_rejected_witness:
  "APIKey_Validate sample_sha (NewAPIKeyAuth (key_ops Add Revoke
       (snd (Revoke (Add NewKeyStore (entry_key sample_sha 5 (hd sample_entries)))
          (HashKey sample_sha ''raw'')))
       [RevokeKey ''other''])) (key_request ''raw'') = Inl APIKeyIsRevoked"
  using revoked_key_rejected [of "Add NewKeyStore (entry_key sample_sha 5 (hd sample_entries))"
      sample_sha "key_request ''raw''" "[RevokeKey ''other'']"]
  by (simp add: ks.revoke_result ks.lookup_add sample_entries_def)

end
