(* ===== verification/Window_Counter.thy ===== *)
theory Window_Counter
  imports Gateway_Prelude
begin

text \<open>
  The contract of a fixed-window request counter, which both back ends of the rate limiter
  implement: the in-memory map (theory \<open>Memory_Limit\<close>) and the Redis script (theory
  \<open>Redis_Limit\<close>).

  \<open>hit k l w t s\<close> is a request of key \<open>k\<close> at time \<open>t\<close> with limit \<open>l\<close> and window \<open>w\<close>; it
  answers whether the request is admitted and how many remain. \<open>count t s k\<close> is the number of
  requests counted for \<open>k\<close> in the window that is live at \<open>t\<close>, \<open>ends s k\<close> the end of the last
  window of \<open>k\<close>; \<open>win\<close> converts a window to the unit of the back end's clock, and \<open>inv n s\<close>
  says that every counter of \<open>s\<close> has room for \<open>n\<close> more requests. What a counter answers at
  the very instant its window ends is left open: the two back ends differ there.

  The two lemmas of the contract: inside one window exactly the first \<open>l\<close> requests of a key
  are admitted, whatever the other keys do, and over any interval no longer than the window at
  most \<open>2 l\<close> are.
\<close>

record request_hit =
  rh_key :: string
  rh_limit :: int
  rh_window :: duration
  rh_time :: int

fun run_hits :: "(string \<Rightarrow> int \<Rightarrow> duration \<Rightarrow> int \<Rightarrow> 's \<Rightarrow> (bool \<times> int) \<times> 's)
    \<Rightarrow> request_hit list \<Rightarrow> 's \<Rightarrow> (string \<times> bool \<times> int) list \<times> 's" where
  "run_hits hit [] s = ([], s)"
| "run_hits hit (h # hs) s =
     (let (a, s') = hit (rh_key h) (rh_limit h) (rh_window h) (rh_time h) s;
          (as, s'') = run_hits hit hs s'
      in ((rh_key h, a) # as, s''))"

text \<open>The answers a key got, in order; how often it asked and was admitted.\<close>

definition answers_of :: "string \<Rightarrow> (string \<times> bool \<times> int) list \<Rightarrow> (bool \<times> int) list" where
  "answers_of k as = map snd (filter (\<lambda>a. fst a = k) as)"

definition hits_of :: "string \<Rightarrow> request_hit list \<Rightarrow> nat" where
  "hits_of k hs = length (filter (\<lambda>h. rh_key h = k) hs)"

definition admitted :: "string \<Rightarrow> (string \<times> bool \<times> int) list \<Rightarrow> int" where
  "admitted k as = int (length (filter fst (answers_of k as)))"

text \<open>The answers of a window that has already counted \<open>c\<close> requests to the next \<open>n\<close>.\<close>

definition window_answers :: "int \<Rightarrow> int \<Rightarrow> nat \<Rightarrow> (bool \<times> int) list" where
  "window_answers l c n = map (\<lambda>i. (c + int i < l, max 0 (l - c - int i - 1))) [0..<n]"

text \<open>
  The hits of an interval: in time order, from \<open>t\<close> on and before \<open>T\<close>, those of \<open>k\<close> with the
  limit and the window of its route.
\<close>

definition hits_between :: "int \<Rightarrow> int \<Rightarrow> string \<Rightarrow> int \<Rightarrow> duration \<Rightarrow> request_hit list \<Rightarrow> bool" where
  "hits_between t T k l w hs \<longleftrightarrow> sorted (map rh_time hs) \<and>
     list_all (\<lambda>h. t \<le> rh_time h \<and> rh_time h < T \<and>
       (rh_key h = k \<longrightarrow> rh_limit h = l \<and> rh_window h = w)) hs"

text \<open>Limits a Redis script and a Go \<open>int\<close> both hold exactly.\<close>

definition limit_ok :: "int \<Rightarrow> bool" where
  "limit_ok l \<longleftrightarrow> 0 \<le> l \<and> l \<le> 9007199254740992"

lemma answers_of_simps [simp]:
  "answers_of k [] = []"
  "answers_of k ((k', a) # as) = (if k' = k then a # answers_of k as else answers_of k as)"
  by (simp_all add: answers_of_def)

lemma admitted_simps [simp]:
  "admitted k [] = 0"
  "admitted k ((k', a) # as) = (if k' = k \<and> fst a then 1 else 0) + admitted k as"
  by (simp_all add: admitted_def)

lemma hits_of_simps [simp]:
  "hits_of k [] = 0"
  "hits_of k (h # hs) = (if rh_key h = k then Suc (hits_of k hs) else hits_of k hs)"
  by (simp_all add: hits_of_def)

lemma run_hits_fst [simp]:
  "fst (run_hits hit (h # hs) s) =
     (let r = hit (rh_key h) (rh_limit h) (rh_window h) (rh_time h) s
      in (rh_key h, fst r) # fst (run_hits hit hs (snd r)))"
  by (simp add: Let_def split: prod.splits)

lemma run_hits_snd [simp]:
  "snd (run_hits hit (h # hs) s) =
     snd (run_hits hit hs (snd (hit (rh_key h) (rh_limit h) (rh_window h) (rh_time h) s)))"
  by (simp add: Let_def split: prod.splits)

declare run_hits.simps(2) [simp del]

lemma run_hits_append:
  "fst (run_hits hit (hs @ hs') s) = fst (run_hits hit hs s) @ fst (run_hits hit hs' (snd (run_hits hit hs s)))"
  "snd (run_hits hit (hs @ hs') s) = snd (run_hits hit hs' (snd (run_hits hit hs s)))"
  by (induction hs arbitrary: s) (simp_all add: Let_def)

lemma run_hits_length [simp]: "length (fst (run_hits hit hs s)) = length hs"
  by (induction hs arbitrary: s) (simp_all add: Let_def)

lemma window_answers_0 [simp]: "window_answers l c 0 = []"
  by (simp add: window_answers_def)

lemma window_answers_Suc [simp]:
  "window_answers l c (Suc n) = (c < l, max 0 (l - c - 1)) # window_answers l (c + 1) n"
proof -
  have "[0..<Suc n] = 0 # map Suc [0..<n]" by (simp add: upt_conv_Cons map_Suc_upt del: upt_Suc)
  then show ?thesis by (simp add: window_answers_def algebra_simps del: upt_Suc)
qed

lemma window_answers_admitted: "int (length (filter fst (window_answers l c n))) \<le> max 0 (l - c)"
proof (induction n arbitrary: c)
  case (Suc n)
  show ?case using Suc.IH [of "c + 1"] by (auto simp: max_def split: if_splits)
qed simp

lemma hits_between_Nil [simp]: "hits_between t T k l w []"
  by (simp add: hits_between_def)

lemma hits_between_Cons:
  "hits_between t T k l w (h # hs) \<Longrightarrow>
     t \<le> rh_time h \<and> rh_time h < T \<and> (rh_key h = k \<longrightarrow> rh_limit h = l \<and> rh_window h = w)
     \<and> hits_between (rh_time h) T k l w hs"
  by (auto simp: hits_between_def list_all_iff)

lemma hits_between_later: "hits_between t' T k l w hs \<Longrightarrow> t \<le> t' \<Longrightarrow> hits_between t T k l w hs"
  by (auto simp: hits_between_def list_all_iff)

subsection \<open>Logs\<close>

text \<open>What is known of a counter from outside: who asked what, and who was let through.\<close>

record limit_entry =
  le_task :: nat
  le_hit :: request_hit
  le_allowed :: bool

definition log_agrees ::
  "(string \<Rightarrow> int \<Rightarrow> duration \<Rightarrow> int \<Rightarrow> 's \<Rightarrow> (bool \<times> int) \<times> 's) \<Rightarrow> limit_entry list \<Rightarrow> 's \<Rightarrow> bool" where
  "log_agrees hit es s \<longleftrightarrow>
     list_all2 (\<lambda>a e. le_allowed e \<longrightarrow> fst (snd a)) (fst (run_hits hit (map le_hit es) s)) es"

lemma log_agrees_append:
  "log_agrees hit (es @ es') s \<longleftrightarrow>
     log_agrees hit es s \<and> log_agrees hit es' (snd (run_hits hit (map le_hit es) s))"
  by (simp add: log_agrees_def run_hits_append list_all2_append)

lemma log_agrees_Cons:
  "log_agrees hit (e # es) s \<longleftrightarrow>
     (let r = hit (rh_key (le_hit e)) (rh_limit (le_hit e)) (rh_window (le_hit e)) (rh_time (le_hit e)) s
      in (le_allowed e \<longrightarrow> fst (fst r)) \<and> log_agrees hit es (snd r))"
  by (simp add: log_agrees_def Let_def)

lemma log_agrees_admitted:
  "log_agrees hit es s \<Longrightarrow>
     int (length (filter (\<lambda>e. rh_key (le_hit e) = k \<and> le_allowed e) es)) \<le>
       admitted k (fst (run_hits hit (map le_hit es) s))"
proof (induction es arbitrary: s)
  case (Cons e es)
  let ?r = "hit (rh_key (le_hit e)) (rh_limit (le_hit e)) (rh_window (le_hit e)) (rh_time (le_hit e)) s"
  from Cons.prems have "le_allowed e \<longrightarrow> fst (fst ?r)" "log_agrees hit es (snd ?r)"
    by (simp_all add: log_agrees_Cons Let_def)
  with Cons.IH [of "snd ?r"] show ?case by (auto simp: Let_def)
qed simp

text \<open>The part of a sorted log between two times.\<close>

lemma sorted_interval:
  fixes a :: "'b :: linorder"
  assumes "sorted (map f xs)" "a \<le> b"
  obtains before between after where "xs = before @ between @ after"
    "\<And>P. filter (\<lambda>e. P e \<and> a \<le> f e \<and> f e < b) xs = filter P between"
    "\<forall>e \<in> set between. a \<le> f e \<and> f e < b" "sorted (map f between)"
proof
  let ?later = "dropWhile (\<lambda>e. f e < a) xs"
  let ?before = "takeWhile (\<lambda>e. f e < a) xs"
  let ?between = "takeWhile (\<lambda>e. f e < b) ?later"
  let ?after = "dropWhile (\<lambda>e. f e < b) ?later"
  have from_first: "\<forall>e \<in> set (dropWhile (\<lambda>e. f e < c) ys). c \<le> f e" if "sorted (map f ys)" for c ys
    using that
  proof (induction ys)
    case (Cons y ys)
    then show ?case by (auto simp: not_less intro: order_trans)
  qed simp
  have "sorted (map f ?later)" using sorted_wrt_dropWhile [of "\<lambda>x y. f x \<le> f y"] assms(1)
    by (simp add: sorted_map)
  note later = from_first [OF assms(1), of a] from_first [OF this, of b]
  show xs: "xs = ?before @ ?between @ ?after" by simp
  show in_between: "\<forall>e \<in> set ?between. a \<le> f e \<and> f e < b"
    using later(1) by (auto dest: set_takeWhileD)
  have "filter (\<lambda>e. P e \<and> a \<le> f e \<and> f e < b) ?before = []" for P
    by (auto simp: filter_empty_conv dest: set_takeWhileD)
  moreover have "filter (\<lambda>e. P e \<and> a \<le> f e \<and> f e < b) ?after = []" for P
    using later(2) by (auto simp: filter_empty_conv)
  moreover have "filter (\<lambda>e. P e \<and> a \<le> f e \<and> f e < b) ?between = filter P ?between" for P
    using in_between by (auto intro: filter_cong)
  ultimately show "filter (\<lambda>e. P e \<and> a \<le> f e \<and> f e < b) xs = filter P ?between" for P
    by (subst xs) (simp only: filter_append append_Nil append_Nil2)
  show "sorted (map f ?between)"
    using \<open>sorted (map f ?later)\<close> by (metis sorted_map sorted_wrt_takeWhile)
qed

subsection \<open>The contract\<close>

locale window_counter =
  fixes hit :: "string \<Rightarrow> int \<Rightarrow> duration \<Rightarrow> int \<Rightarrow> 's \<Rightarrow> (bool \<times> int) \<times> 's"
    and count :: "int \<Rightarrow> 's \<Rightarrow> string \<Rightarrow> int"
    and ends :: "'s \<Rightarrow> string \<Rightarrow> int"
    and inv :: "nat \<Rightarrow> 's \<Rightarrow> bool"
    and win :: "duration \<Rightarrow> int"
  assumes count_nonneg: "inv n s \<Longrightarrow> 0 \<le> count t s k"
    and inv_less: "inv n s \<Longrightarrow> n' \<le> n \<Longrightarrow> inv n' s"
    and hit_inv: "inv (Suc n) s \<Longrightarrow> inv n (snd (hit k l w t s))"
    and hit_answer: "inv (Suc n) s \<Longrightarrow> limit_ok l \<Longrightarrow>
      fst (hit k l w t s) = (count t s k < l, max 0 (l - count t s k - 1))"
    and count_other: "inv (Suc n) s \<Longrightarrow> k' \<noteq> k \<Longrightarrow> count t' (snd (hit k l w t s)) k' = count t' s k'"
    and ends_other: "inv (Suc n) s \<Longrightarrow> k' \<noteq> k \<Longrightarrow> ends (snd (hit k l w t s)) k' = ends s k'"
    and hit_ends: "inv (Suc n) s \<Longrightarrow> 0 < win w \<Longrightarrow>
      ends (snd (hit k l w t s)) k = (if count t s k = 0 then t + win w else ends s k)"
    and count_until: "inv (Suc n) s \<Longrightarrow> 0 < win w \<Longrightarrow> t \<le> t' \<Longrightarrow>
      t' < ends (snd (hit k l w t s)) k \<Longrightarrow> count t' (snd (hit k l w t s)) k = count t s k + 1"
    and count_after: "inv (Suc n) s \<Longrightarrow> 0 < win w \<Longrightarrow> t \<le> t' \<Longrightarrow>
      count t' (snd (hit k l w t s)) k \<in> {count t s k + 1, 0}"
begin

lemma run_inv: "inv (length hs + n) s \<Longrightarrow> inv n (snd (run_hits hit hs s))"
  by (induction hs arbitrary: s) (simp_all add: hit_inv)

text \<open>
  Between \<open>t\<close> and \<open>T\<close> the counter of \<open>k\<close> stands at \<open>c\<close> until its next hit: no window is live
  and one opened in the interval outlasts it, or one is and does.
\<close>

lemma window_exact:
  assumes "inv (length hs) s" "0 < win w" "limit_ok l" "hits_between t T k l w hs"
    and "\<And>t'. t \<le> t' \<Longrightarrow> t' < T \<Longrightarrow> count t' s k = c"
    and "if c = 0 then T \<le> t + win w else T \<le> ends s k"
  shows "answers_of k (fst (run_hits hit hs s)) = window_answers l c (hits_of k hs)"
  using assms
proof (induction hs arbitrary: s c t)
  case (Cons h hs)
  let ?s' = "snd (hit (rh_key h) (rh_limit h) (rh_window h) (rh_time h) s)"
  from Cons.prems have inv: "inv (Suc (length hs)) s" by simp
  from hits_between_Cons [OF Cons.prems(4)] have h: "t \<le> rh_time h" "rh_time h < T"
    "rh_key h = k \<Longrightarrow> rh_limit h = l \<and> rh_window h = w" "hits_between (rh_time h) T k l w hs"
    by auto
  have inv': "inv (length hs) ?s'" using hit_inv [OF inv] .
  show ?case
  proof (cases "rh_key h = k")
    case True
    have c: "count (rh_time h) s k = c" using Cons.prems(5) h by simp
    have c0: "0 \<le> c" using count_nonneg [OF inv] c by metis
    have T: "T \<le> ends ?s' k"
      using hit_ends [OF inv Cons.prems(2), of k l "rh_time h"] True h c Cons.prems(6)
      by (auto split: if_splits)
    have "answers_of k (fst (run_hits hit hs ?s')) = window_answers l (c + 1) (hits_of k hs)"
    proof (rule Cons.IH [OF inv' Cons.prems(2,3) h(4)])
      show "count t' ?s' k = c + 1" if "rh_time h \<le> t'" "t' < T" for t'
        using count_until [OF inv Cons.prems(2), of "rh_time h" t' k l] that True h c T by simp
      show "if c + 1 = 0 then T \<le> rh_time h + win w else T \<le> ends ?s' k"
        using c0 T by simp
    qed
    then show ?thesis
      using True h c hit_answer [OF inv Cons.prems(3), of k w "rh_time h"] by (simp add: Let_def)
  next
    case False
    have "answers_of k (fst (run_hits hit hs ?s')) = window_answers l c (hits_of k hs)"
    proof (rule Cons.IH [OF inv' Cons.prems(2,3) h(4)])
      show "count t' ?s' k = c" if "rh_time h \<le> t'" "t' < T" for t'
        using that Cons.prems(5) h False by (simp add: count_other [OF inv])
      show "if c = 0 then T \<le> rh_time h + win w else T \<le> ends ?s' k"
        using False Cons.prems(6) h by (auto simp: ends_other [OF inv] split: if_splits)
    qed
    then show ?thesis using False by (simp add: Let_def)
  qed
qed simp

lemma window_admits:
  assumes "inv (length hs) s" "0 < win w" "limit_ok l" "hits_between t T k l w hs"
    and "\<And>t'. t \<le> t' \<Longrightarrow> t' < T \<Longrightarrow> count t' s k = c"
    and "if c = 0 then T \<le> t + win w else T \<le> ends s k"
  shows "admitted k (fst (run_hits hit hs s)) \<le> max 0 (l - c)"
  using window_exact [OF assms] window_answers_admitted [of l c "hits_of k hs"]
  by (simp add: admitted_def)

text \<open>An interval no longer than the window meets at most two windows.\<close>

lemma two_windows:
  assumes "inv (length hs) s" "0 < win w" "limit_ok l" "hits_between t T k l w hs"
    and "T \<le> t + win w" "0 \<le> c"
    and "\<And>t'. t \<le> t' \<Longrightarrow> count t' s k = 0 \<or> c \<le> count t' s k"
  shows "admitted k (fst (run_hits hit hs s)) \<le> max 0 (l - c) + l"
  using assms
proof (induction hs arbitrary: s c t)
  case Nil
  then show ?case by (simp add: limit_ok_def)
next
  case (Cons h hs)
  let ?s' = "snd (hit (rh_key h) (rh_limit h) (rh_window h) (rh_time h) s)"
  let ?d = "count (rh_time h) s k"
  from Cons.prems have inv: "inv (Suc (length hs)) s" by simp
  from hits_between_Cons [OF Cons.prems(4)] have h: "t \<le> rh_time h" "rh_time h < T"
    "rh_key h = k \<Longrightarrow> rh_limit h = l \<and> rh_window h = w" "hits_between (rh_time h) T k l w hs"
    by auto
  have inv': "inv (length hs) ?s'" using hit_inv [OF inv] .
  have T: "T \<le> rh_time h + win w" using h Cons.prems(5) by simp
  have l: "0 \<le> l" using Cons.prems(3) by (simp add: limit_ok_def)
  show ?case
  proof (cases "rh_key h = k")
    case False
    have "admitted k (fst (run_hits hit hs ?s')) \<le> max 0 (l - c) + l"
      using False Cons.prems(7) h
      by (intro Cons.IH [OF inv' Cons.prems(2,3) h(4) T Cons.prems(6)]) (simp add: count_other [OF inv])
    then show ?thesis using False by (simp add: Let_def)
  next
    case True
    with h have h': "rh_limit h = l" "rh_window h = w" by auto
    have answer: "fst (hit k l w (rh_time h) s) = (?d < l, max 0 (l - ?d - 1))"
      by (rule hit_answer [OF inv Cons.prems(3)])
    show ?thesis
    proof (cases "?d = 0")
      case True': True
      have ends: "ends ?s' k = rh_time h + win w"
        using hit_ends [OF inv Cons.prems(2), of k l "rh_time h"] True True' h' by simp
      have "admitted k (fst (run_hits hit hs ?s')) \<le> max 0 (l - 1)"
      proof (rule window_admits [OF inv' Cons.prems(2,3) h(4)])
        show "count t' ?s' k = 1" if "rh_time h \<le> t'" "t' < T" for t'
          using count_until [OF inv Cons.prems(2), of "rh_time h" t' k l] that True True' h' T ends
          by simp
      qed (use ends T in simp)
      then show ?thesis
        using True True' h' answer l by (cases "l = 0") (simp_all add: Let_def max_def)
    next
      case False
      then have d: "c \<le> ?d" "0 < ?d"
        using Cons.prems(7) [OF h(1)] count_nonneg [OF inv, of "rh_time h" k] by auto
      have "admitted k (fst (run_hits hit hs ?s')) \<le> max 0 (l - (?d + 1)) + l"
      proof (rule Cons.IH [OF inv' Cons.prems(2,3) h(4) T])
        show "count t' ?s' k = 0 \<or> ?d + 1 \<le> count t' ?s' k" if "rh_time h \<le> t'" for t'
          using count_after [OF inv Cons.prems(2) that, of k l] True h' by auto
      qed (use d in simp)
      then show ?thesis using True h' answer d by (auto simp: Let_def max_def split: if_splits)
    qed
  qed
qed

lemma two_windows_any:
  assumes "inv (length hs) s" "0 < win w" "limit_ok l" "hits_between t (t + win w) k l w hs"
  shows "admitted k (fst (run_hits hit hs s)) \<le> 2 * l"
proof -
  have "admitted k (fst (run_hits hit hs s)) \<le> max 0 (l - 0) + l"
    using count_nonneg [OF assms(1)] by (intro two_windows [OF assms]) simp_all
  then show ?thesis using assms(3) by (simp add: limit_ok_def)
qed

text \<open>In a log, the admitted entries of a key within one window are at most twice the limit.\<close>

lemma log_bound:
  assumes "log_agrees hit es s" "sorted (map (\<lambda>e. rh_time (le_hit e)) es)"
    and "inv (length es) s" "limit_ok l" "0 < win w"
    and "\<forall>e \<in> set es. rh_key (le_hit e) = k \<longrightarrow> rh_limit (le_hit e) = l \<and> rh_window (le_hit e) = w"
  shows "int (length (filter (\<lambda>e. (rh_key (le_hit e) = k \<and> le_allowed e) \<and>
      t \<le> rh_time (le_hit e) \<and> rh_time (le_hit e) < t + win w) es)) \<le> 2 * l"
proof -
  obtain before between after where b: "es = before @ between @ after"
    "\<And>P. filter (\<lambda>e. P e \<and> t \<le> rh_time (le_hit e) \<and> rh_time (le_hit e) < t + win w) es = filter P between"
    "\<forall>e \<in> set between. t \<le> rh_time (le_hit e) \<and> rh_time (le_hit e) < t + win w"
    "sorted (map (\<lambda>e. rh_time (le_hit e)) between)"
    using sorted_interval [OF assms(2), of t "t + win w"] assms(5) by auto
  let ?s = "snd (run_hits hit (map le_hit before) s)"
  have "inv (length (map le_hit before) + length between) s"
    using inv_less [OF assms(3)] by (simp add: b(1))
  then have inv: "inv (length (map le_hit between)) ?s" using run_inv by simp
  have hits: "hits_between t (t + win w) k l w (map le_hit between)"
    using b(3,4) assms(6) by (simp add: hits_between_def list_all_iff comp_def b(1))
  have "log_agrees hit between ?s" using assms(1) by (simp add: b(1) log_agrees_append)
  note log_agrees_admitted [OF this, of k]
  also have "admitted k (fst (run_hits hit (map le_hit between) ?s)) \<le> 2 * l"
    by (rule two_windows_any [OF inv assms(5,4) hits])
  finally show ?thesis unfolding b(2) .
qed

end

end
