(* ===== verification/Memory_Limit.thy ===== *)
theory Memory_Limit
  imports Window_Counter
begin

text \<open>
  The in-memory rate limiter of \<open>internal/middleware/ratelimit.go\<close>: \<open>memoryLimiter\<close>,
  its \<open>allow\<close> and its \<open>cleanExpired\<close>.

  Both methods hold the limiter's mutex throughout, so each is one step on the map. \<open>allow\<close>
  reads the clock twice, once for the window (\<open>time.Now\<close>) and once for the answer
  (\<open>time.Until\<close>); both readings are arguments. The limiter implements the contract
  \<open>window_counter\<close> of theory \<open>Window_Counter\<close>.
\<close>

subsection \<open>The limiter\<close>

record memoryEntry =
  me_count :: int
  me_resetAt :: instant

type_synonym memoryLimiter = "string \<rightharpoonup> memoryEntry"

definition newMemoryLimiter :: memoryLimiter where
  "newMemoryLimiter = Map.empty"

definition memory_entry :: "string \<Rightarrow> duration \<Rightarrow> instant \<Rightarrow> memoryLimiter \<Rightarrow> memoryEntry" where
  "memory_entry key window now m =
     (let fresh = \<lparr>me_count = 0, me_resetAt = now + window\<rparr>
      in case m key of
           None \<Rightarrow> fresh
         | Some entry \<Rightarrow> if me_resetAt entry < now then fresh else entry)"

definition memory_allow_key ::
  "string \<Rightarrow> int \<Rightarrow> duration \<Rightarrow> instant \<Rightarrow> instant \<Rightarrow> memoryLimiter \<Rightarrow>
     (bool \<times> int \<times> duration) \<times> memoryLimiter" where
  "memory_allow_key key limit window now now2 m =
     (let entry = memory_entry key window now m;
          entry = entry\<lparr>me_count := wrap64 (me_count entry + 1)\<rparr>;
          remaining = wrap64 (limit - me_count entry);
          remaining = (if remaining < 0 then 0 else remaining);
          reset = time_sub (me_resetAt entry) now2;
          reset = (if reset < 0 then 0 else reset);
          m' = m(key \<mapsto> entry)
      in if me_count entry \<le> limit then ((True, remaining, reset), m')
         else ((False, 0, reset), m'))"

definition memory_allow ::
  "string \<Rightarrow> string \<Rightarrow> int \<Rightarrow> duration \<Rightarrow> instant \<Rightarrow> instant \<Rightarrow> memoryLimiter \<Rightarrow>
     (bool \<times> int \<times> duration) \<times> memoryLimiter" where
  "memory_allow routeID clientID limit window now now2 m =
     memory_allow_key (routeID @ '':'' @ clientID) limit window now now2 m"

definition cleanExpired :: "instant \<Rightarrow> memoryLimiter \<Rightarrow> memoryLimiter" where
  "cleanExpired now m =
     (\<lambda>k. case m k of
            None \<Rightarrow> None
          | Some v \<Rightarrow> if me_resetAt v < now then None else Some v)"

lemma memory_allow_key_state:
  "snd (memory_allow_key key limit window now now2 m) =
     m(key \<mapsto> (memory_entry key window now m)
          \<lparr>me_count := wrap64 (me_count (memory_entry key window now m) + 1)\<rparr>)"
  by (simp add: memory_allow_key_def Let_def)

text \<open>The answered reset is never negative and never longer than a \<open>time.Duration\<close>.\<close>

lemma memory_allow_key_reset:
  "(snd (snd (fst (memory_allow_key key limit window now now2 m)))) \<in> {0..max_int64}"
  using sat64_range [of "me_resetAt (memory_entry key window now m) - now2"]
  by (auto simp: memory_allow_key_def Let_def time_sub_def in_int64_def max_int64_def)

text \<open>Keys of different (route, client) pairs differ when no route ID has a colon.\<close>

lemma rate_key_inj:
  assumes "a @ '':'' @ c = b @ '':'' @ d" "CHR '':'' \<notin> set a" "CHR '':'' \<notin> set b"
  shows "a = b \<and> c = d"
proof -
  have "Split (a @ '':'' @ c) CHR '':'' = a # Split c CHR '':''"
    "Split (b @ '':'' @ d) CHR '':'' = b # Split d CHR '':''"
    using assms(2,3) by (simp_all add: go_string)
  with assms(1) show ?thesis by auto
qed

subsection \<open>A fixed-window counter\<close>

definition mem_hit ::
  "string \<Rightarrow> int \<Rightarrow> duration \<Rightarrow> instant \<Rightarrow> memoryLimiter \<Rightarrow> (bool \<times> int) \<times> memoryLimiter" where
  "mem_hit k l w t m =
     (case memory_allow_key k l w t t m of ((allowed, remaining, reset), m') \<Rightarrow>
        ((allowed, remaining), m'))"

definition mem_count :: "instant \<Rightarrow> memoryLimiter \<Rightarrow> string \<Rightarrow> int" where
  "mem_count t m k =
     (case m k of None \<Rightarrow> 0 | Some e \<Rightarrow> if me_resetAt e < t then 0 else me_count e)"

definition mem_ends :: "memoryLimiter \<Rightarrow> string \<Rightarrow> instant" where
  "mem_ends m k = (case m k of None \<Rightarrow> 0 | Some e \<Rightarrow> me_resetAt e)"

text \<open>Every counter is positive and has room for \<open>n\<close> more requests in a Go \<open>int\<close>.\<close>

definition mem_inv :: "nat \<Rightarrow> memoryLimiter \<Rightarrow> bool" where
  "mem_inv n m \<longleftrightarrow> int n \<le> max_int64 \<and>
     (\<forall>k e. m k = Some e \<longrightarrow> 1 \<le> me_count e \<and> me_count e + int n \<le> max_int64)"

lemma mem_hit_answer_any_clock:
  "memory_allow_key k l w t t2 m = ((allowed, remaining, reset), m') \<Longrightarrow>
     mem_hit k l w t m = ((allowed, remaining), m')"
  by (auto simp: mem_hit_def memory_allow_key_def Let_def split: if_splits)

lemma mem_hit_state: "snd (mem_hit k l w t m) = snd (memory_allow_key k l w t t m)"
  by (simp add: mem_hit_def split: prod.splits)

lemma mem_entry_room:
  assumes "mem_inv (Suc n) m"
  shows "0 \<le> me_count (memory_entry k w t m)"
    and "me_count (memory_entry k w t m) + int (Suc n) \<le> max_int64"
    and "wrap64 (me_count (memory_entry k w t m) + 1) = me_count (memory_entry k w t m) + 1"
proof -
  show "0 \<le> me_count (memory_entry k w t m)"
    "me_count (memory_entry k w t m) + int (Suc n) \<le> max_int64"
    using assms by (fastforce simp: mem_inv_def memory_entry_def Let_def split: option.splits)+
  then show "wrap64 (me_count (memory_entry k w t m) + 1) = me_count (memory_entry k w t m) + 1"
    by (intro wrap64_id) (auto simp: in_int64_def min_int64_def)
qed

lemma mem_count_entry: "mem_count t m k = me_count (memory_entry k w t m)"
  by (simp add: mem_count_def memory_entry_def Let_def split: option.splits)

lemma mem_hit_entry:
  "mem_inv (Suc n) m \<Longrightarrow> snd (mem_hit k l w t m) k =
     Some \<lparr>me_count = mem_count t m k + 1, me_resetAt = me_resetAt (memory_entry k w t m)\<rparr>"
  by (simp add: mem_hit_state memory_allow_key_state mem_entry_room
      mem_count_entry [where w = w])

lemma mem_hit_other: "k' \<noteq> k \<Longrightarrow> snd (mem_hit k l w t m) k' = m k'"
  by (simp add: mem_hit_state memory_allow_key_state)

lemma mem_entry_resetAt:
  "mem_inv n m \<Longrightarrow> me_resetAt (memory_entry k w t m) =
     (if mem_count t m k = 0 then t + w else mem_ends m k)"
  by (fastforce simp: memory_entry_def mem_count_def mem_ends_def mem_inv_def Let_def
      split: option.splits)

lemma mem_hit_inv:
  assumes "mem_inv (Suc n) m"
  shows "mem_inv n (snd (mem_hit k l w t m))"
  unfolding mem_inv_def
proof (intro conjI allI impI)
  show "int n \<le> max_int64" using assms by (simp add: mem_inv_def)
  fix k' e
  assume e: "snd (mem_hit k l w t m) k' = Some e"
  have "1 \<le> me_count e \<and> me_count e + int n \<le> max_int64"
  proof (cases "k' = k")
    case True
    then have "me_count e = me_count (memory_entry k w t m) + 1"
      using e assms by (auto simp: mem_hit_entry mem_count_entry [where w = w])
    then show ?thesis using mem_entry_room(1,2) [OF assms, of k w t] by simp
  next
    case False
    then show ?thesis using e assms by (fastforce simp: mem_hit_other mem_inv_def)
  qed
  then show "1 \<le> me_count e" "me_count e + int n \<le> max_int64" by auto
qed

lemma mem_inv_less: "mem_inv n m \<Longrightarrow> n' \<le> n \<Longrightarrow> mem_inv n' m"
  by (fastforce simp: mem_inv_def)

interpretation mem: window_counter mem_hit mem_count mem_ends mem_inv "\<lambda>w. w"
proof
  fix n n' :: nat and s :: memoryLimiter and k k' :: string and l :: int and w t t' :: int
  show "mem_inv n s \<Longrightarrow> 0 \<le> mem_count t s k"
    by (fastforce simp: mem_inv_def mem_count_def split: option.splits)
  show "mem_inv n s \<Longrightarrow> n' \<le> n \<Longrightarrow> mem_inv n' s"
    by (rule mem_inv_less)
  show "mem_inv n (snd (mem_hit k l w t s))" if "mem_inv (Suc n) s"
    using that by (rule mem_hit_inv)
  show "fst (mem_hit k l w t s) = (mem_count t s k < l, max 0 (l - mem_count t s k - 1))"
    if "mem_inv (Suc n) s" "limit_ok l"
  proof -
    have "wrap64 (l - (mem_count t s k + 1)) = l - (mem_count t s k + 1)"
      using mem_entry_room [OF that(1), of k w t] that(2)
      by (intro wrap64_id)
        (auto simp: mem_count_entry [where w = w] limit_ok_def in_int64_def min_int64_def max_int64_def)
    then show ?thesis
      using mem_entry_room [OF that(1), of k w t]
      by (simp add: mem_hit_def memory_allow_key_def Let_def mem_count_entry [where w = w] max_def)
  qed
  show "k' \<noteq> k \<Longrightarrow> mem_count t' (snd (mem_hit k l w t s)) k' = mem_count t' s k'"
    by (simp add: mem_count_def mem_hit_other)
  show "k' \<noteq> k \<Longrightarrow> mem_ends (snd (mem_hit k l w t s)) k' = mem_ends s k'"
    by (simp add: mem_ends_def mem_hit_other)
  show "mem_ends (snd (mem_hit k l w t s)) k = (if mem_count t s k = 0 then t + w else mem_ends s k)"
    if "mem_inv (Suc n) s"
    using that by (simp add: mem_ends_def mem_hit_entry) (simp add: mem_entry_resetAt mem_ends_def)
  show "mem_count t' (snd (mem_hit k l w t s)) k = mem_count t s k + 1"
    if "mem_inv (Suc n) s" "t' < mem_ends (snd (mem_hit k l w t s)) k"
    using that by (simp add: mem_hit_entry mem_ends_def mem_count_def)
  show "mem_count t' (snd (mem_hit k l w t s)) k \<in> {mem_count t s k + 1, 0}"
    if "mem_inv (Suc n) s"
    using that by (simp add: mem_hit_entry mem_count_def)
qed

text \<open>
  C21: Whatever other keys do meanwhile and however they are interleaved, a key of the
  in-memory limiter with no live window admits exactly the first \<open>limit\<close> requests of the
  window its next request opens, reporting \<open>limit - 1\<close>, \<open>limit - 2\<close>, ..., \<open>0\<close> remaining, and
  denies the rest with 0 remaining.
\<close>

theorem memory_window_exact:
  assumes "mem_inv (length hs) m" "0 < window" "limit_ok limit"
    and "hits_between t (t + window) (routeID @ '':'' @ clientID) limit window hs"
    and "\<And>t'. t \<le> t' \<Longrightarrow> mem_count t' m (routeID @ '':'' @ clientID) = 0"
  shows "answers_of (routeID @ '':'' @ clientID) (fst (run_hits mem_hit hs m)) =
    window_answers limit 0 (hits_of (routeID @ '':'' @ clientID) hs)"
  using assms by (intro mem.window_exact) auto

definition sample_hits :: "request_hit list" where
  "sample_hits =
    [\<lparr>rh_key = ''r:a'', rh_limit = 2, rh_window = 1000, rh_time = 0\<rparr>,
     \<lparr>rh_key = ''r:b'', rh_limit = 2, rh_window = 1000, rh_time = 1\<rparr>,
     \<lparr>rh_key = ''r:a'', rh_limit = 2, rh_window = 1000, rh_time = 2\<rparr>,
     \<lparr>rh_key = ''r:a'', rh_limit = 2, rh_window = 1000, rh_time = 999\<rparr>]"

lemma sample_hits_between: "hits_between 0 1000 ''r:a'' 2 1000 sample_hits"
  by (simp add: sample_hits_def hits_between_def)

lemma empty_limiter [simp]: "mem_inv n Map.empty \<longleftrightarrow> int n \<le> max_int64" "mem_count t Map.empty k = 0"
  by (simp_all add: mem_inv_def mem_count_def)

lemma memory_window_exact_witness:
  "answers_of ''r:a'' (fst (run_hits mem_hit sample_hits newMemoryLimiter)) =
     [(True, 1), (True, 0), (False, 0)]"
proof -
  have "answers_of (''r'' @ '':'' @ ''a'') (fst (run_hits mem_hit sample_hits newMemoryLimiter)) =
      window_answers 2 0 (hits_of (''r'' @ '':'' @ ''a'') sample_hits)"
    using sample_hits_between
    by (intro memory_window_exact [where window = 1000 and t = 0])
      (simp_all add: newMemoryLimiter_def limit_ok_def max_int64_def sample_hits_def)
  then show ?thesis by (simp add: sample_hits_def)
qed

text \<open>
  Over any interval as long as the window, whatever the limiter held before, at most twice
  the limit is admitted: the price of a fixed window.
\<close>

theorem memory_two_windows:
  assumes "mem_inv (length hs) m" "0 < window" "limit_ok limit"
    and "hits_between t (t + window) (routeID @ '':'' @ clientID) limit window hs"
  shows "admitted (routeID @ '':'' @ clientID) (fst (run_hits mem_hit hs m)) \<le> 2 * limit"
  using mem.two_windows_any [OF assms] .

lemma memory_two_windows_witness:
  "admitted ''r:a'' (fst (run_hits mem_hit sample_hits
     [''r:a'' \<mapsto> \<lparr>me_count = 1, me_resetAt = 0\<rparr>])) \<le> 4"
proof -
  let ?m = "[''r:a'' \<mapsto> \<lparr>me_count = 1, me_resetAt = 0\<rparr>]"
  have "admitted (''r'' @ '':'' @ ''a'') (fst (run_hits mem_hit sample_hits ?m)) \<le> 2 * 2"
    using sample_hits_between
    by (intro memory_two_windows [where window = 1000 and t = 0])
      (simp_all add: mem_inv_def limit_ok_def max_int64_def sample_hits_def)
  then show ?thesis by simp
qed

subsection \<open>Cleaning\<close>

datatype mem_event =
    MAllow string string int duration instant instant
  | MClean instant

fun mem_time :: "mem_event \<Rightarrow> instant" where
  "mem_time (MAllow routeID clientID limit window now now2) = now"
| "mem_time (MClean now) = now"

fun is_allow :: "mem_event \<Rightarrow> bool" where
  "is_allow (MAllow routeID clientID limit window now now2) = True"
| "is_allow (MClean now) = False"

fun mem_run :: "mem_event list \<Rightarrow> memoryLimiter \<Rightarrow> (bool \<times> int \<times> duration) list" where
  "mem_run [] m = []"
| "mem_run (MAllow routeID clientID limit window now now2 # es) m =
     (let (a, m') = memory_allow routeID clientID limit window now now2 m in a # mem_run es m')"
| "mem_run (MClean now # es) m = mem_run es (cleanExpired now m)"

text \<open>\<open>m'\<close> is \<open>m\<close> less some entries that have expired at \<open>t\<close>.\<close>

definition cleaned :: "instant \<Rightarrow> memoryLimiter \<Rightarrow> memoryLimiter \<Rightarrow> bool" where
  "cleaned t m m' \<longleftrightarrow>
     (\<forall>k. m' k = m k \<or> (m' k = None \<and> (\<exists>e. m k = Some e \<and> me_resetAt e < t)))"

lemma cleaned_refl [simp]: "cleaned t m m"
  by (simp add: cleaned_def)

lemma cleaned_mono: "cleaned t m m' \<Longrightarrow> t \<le> t' \<Longrightarrow> cleaned t' m m'"
  unfolding cleaned_def by (meson order_less_le_trans)

lemma cleaned_clean: "cleaned t m m' \<Longrightarrow> cleaned t m (cleanExpired t m')"
  unfolding cleaned_def cleanExpired_def by (auto split: option.splits) (metis option.distinct(1))+

lemma cleaned_entry: "cleaned t m m' \<Longrightarrow> memory_entry k w t m' = memory_entry k w t m"
  unfolding cleaned_def memory_entry_def Let_def
  by (drule spec [of _ k]) (auto split: option.splits)

lemma cleaned_allow:
  assumes "cleaned t m m'"
  shows "fst (memory_allow r c l w t t2 m') = fst (memory_allow r c l w t t2 m)"
    and "cleaned t (snd (memory_allow r c l w t t2 m)) (snd (memory_allow r c l w t t2 m'))"
proof -
  show "fst (memory_allow r c l w t t2 m') = fst (memory_allow r c l w t t2 m)"
    by (simp add: memory_allow_def memory_allow_key_def Let_def cleaned_entry [OF assms])
  show "cleaned t (snd (memory_allow r c l w t t2 m)) (snd (memory_allow r c l w t t2 m'))"
    using assms unfolding memory_allow_def memory_allow_key_state cleaned_entry [OF assms]
    by (simp add: cleaned_def)
qed

lemma cleaned_run:
  "sorted (map mem_time es) \<Longrightarrow> list_all (\<lambda>e. t \<le> mem_time e) es \<Longrightarrow> cleaned t m m' \<Longrightarrow>
     mem_run es m' = mem_run (filter is_allow es) m"
proof (induction es arbitrary: t m m')
  case (Cons e es)
  from Cons.prems have later: "sorted (map mem_time es)" "list_all (\<lambda>e'. mem_time e \<le> mem_time e') es"
    and cl: "cleaned (mem_time e) m m'"
    by (auto simp: list_all_iff intro: cleaned_mono)
  show ?case
  proof (cases e)
    case (MAllow r c l w t1 t2)
    with cl have "cleaned t1 m m'" by simp
    with Cons.IH [OF later] show ?thesis
      using cleaned_allow [of t1 m m' r c l w t2] MAllow
      by (cases "memory_allow r c l w t1 t2 m", cases "memory_allow r c l w t1 t2 m'") auto
  next
    case (MClean t1)
    with Cons.IH [OF later, of m "cleanExpired t1 m'"] show ?thesis
      using cl by (simp add: cleaned_clean)
  qed
qed simp

text \<open>
  C23: The periodic cleaning cannot be observed: on any sequence of requests and cleanings in
  time order the limiter gives the requests the answers it gives without the cleanings.
\<close>

theorem memory_clean_unobservable:
  assumes "sorted (map mem_time es)"
  shows "mem_run es m = mem_run (filter is_allow es) m"
proof (cases es)
  case (Cons e es')
  with assms show ?thesis
    by (intro cleaned_run [of _ "mem_time e"]) (auto simp: list_all_iff)
qed simp

lemma memory_clean_unobservable_witness:
  "mem_run [MAllow ''r'' ''a'' 1 10 0 0, MClean 5, MAllow ''r'' ''a'' 1 10 7 8, MClean 11,
      MAllow ''r'' ''a'' 1 10 12 12] newMemoryLimiter = [(True, 0, 10), (False, 0, 2), (True, 0, 10)]"
proof -
  let ?es = "[MAllow ''r'' ''a'' 1 10 0 0, MClean 5, MAllow ''r'' ''a'' 1 10 7 8, MClean 11,
      MAllow ''r'' ''a'' 1 10 12 12]"
  have "mem_run ?es newMemoryLimiter = mem_run (filter is_allow ?es) newMemoryLimiter"
    by (rule memory_clean_unobservable) simp
  also have "\<dots> = [(True, 0, 10), (False, 0, 2), (True, 0, 10)]" by code_simp
  finally show ?thesis .
qed

end
