(* ===== verification/Redis_Limit.thy ===== *)
theory Redis_Limit
  imports Window_Counter
begin

text \<open>
  The Redis back end of the rate limiter, \<open>internal/store/redis.go\<close>: the Lua script of
  \<open>CheckRateLimit\<close>, the decoding of its reply, and the client's construction.

  The Redis server is not part of the repository. Its commands \<open>INCR\<close>, \<open>PEXPIRE\<close> and \<open>PTTL\<close>
  are arguments of the script's definition, which Redis runs as one step with a clock that
  stands still; \<open>redis_laws\<close> states what the Redis documentation says of them. The connection
  is an argument too: \<open>run\<close> stands for \<open>script.Run(...).Result()\<close>, which may fail.
  Redis counts time in milliseconds; so do the instants of this theory.
\<close>

subsection \<open>Replies\<close>

text \<open>
  The dynamic types \<open>toInt\<close> distinguishes. Converting a \<open>float64\<close> that does not fit an \<open>int\<close>
  is left to the platform by the Go specification; on amd64 it gives the least \<open>int\<close>.
\<close>

datatype go_any = AnyInt64 int | AnyInt int | AnyFloat64 rat | AnySlice "go_any list" | AnyOther

definition float_to_int :: "rat \<Rightarrow> int" where
  "float_to_int x =
     (let i = (if 0 \<le> x then \<lfloor>x\<rfloor> else \<lceil>x\<rceil>) in if in_int64 i then i else min_int64)"

fun toInt :: "go_any \<Rightarrow> int" where
  "toInt (AnyInt64 n) = n"
| "toInt (AnyInt n) = n"
| "toInt (AnyFloat64 x) = float_to_int x"
| "toInt v = 0"

datatype 'e redis_error = RunFailed 'e | UnexpectedResult go_any

subsection \<open>CheckRateLimit\<close>

text \<open>
  \<open>run key limit windowMs\<close> is one round trip to the server, whose state is of type \<open>'r\<close>.
\<close>

type_synonym ('e, 'r) script_run = "string \<Rightarrow> int \<Rightarrow> int \<Rightarrow> 'r \<Rightarrow> ('e + go_any) \<times> 'r"

definition decode_reply :: "go_any \<Rightarrow> 'e redis_error + bool \<times> int \<times> duration" where
  "decode_reply raw =
     (case raw of
        AnySlice items \<Rightarrow>
          if length items < 3 then Inl (UnexpectedResult raw)
          else Inr (toInt (items ! 0) = 1, toInt (items ! 1), wrap64 (toInt (items ! 2) * 1000000))
      | _ \<Rightarrow> Inl (UnexpectedResult raw))"

definition CheckRateLimit_key ::
  "('e, 'r) script_run \<Rightarrow> string \<Rightarrow> int \<Rightarrow> duration \<Rightarrow> 'r \<Rightarrow>
     ('e redis_error + bool \<times> int \<times> duration) \<times> 'r" where
  "CheckRateLimit_key run key limit window r =
     (let windowMs = tdiv window 1000000
      in case run key limit windowMs r of
           (Inl err, r') \<Rightarrow> (Inl (RunFailed err), r')
         | (Inr raw, r') \<Rightarrow> (decode_reply raw, r'))"

definition CheckRateLimit ::
  "('e, 'r) script_run \<Rightarrow> string \<Rightarrow> string \<Rightarrow> int \<Rightarrow> duration \<Rightarrow> 'r \<Rightarrow>
     ('e redis_error + bool \<times> int \<times> duration) \<times> 'r" where
  "CheckRateLimit run routeID clientID limit window r =
     CheckRateLimit_key run (''rate:'' @ routeID @ '':'' @ clientID) limit window r"

text \<open>
  Construction of the client: \<open>connect\<close> stands for \<open>redis.NewClient\<close> with the address, password,
  database and pool size, \<open>ping\<close> for \<open>Ping\<close>. No address means no client and no error.
\<close>

definition NewRedisClient ::
  "(string \<Rightarrow> string \<Rightarrow> int \<Rightarrow> int \<Rightarrow> 'c) \<Rightarrow> ('c \<Rightarrow> 'e option) \<Rightarrow>
     string \<Rightarrow> string \<Rightarrow> int \<Rightarrow> int \<Rightarrow> 'e + 'c option" where
  "NewRedisClient connect ping addr password db poolSize =
     (if addr = '''' then Inr None
      else let client = connect addr password db poolSize
           in case ping client of Some err \<Rightarrow> Inl err | None \<Rightarrow> Inr (Some client))"

definition Redis_Close :: "('c \<Rightarrow> 'e option) \<Rightarrow> 'c option \<Rightarrow> 'e option" where
  "Redis_Close close rc = (case rc of None \<Rightarrow> None | Some client \<Rightarrow> close client)"

definition Redis_Ping :: "('c \<Rightarrow> 'e option) \<Rightarrow> 'c \<Rightarrow> 'e option" where
  "Redis_Ping ping client = ping client"

subsection \<open>The Lua script\<close>

text \<open>
  \<open>INCR\<close> fails (\<open>None\<close>) on a value that is no integer or the largest one, and ends the
  script with an error. Lua numbers are doubles; the counts and limits here stay below
  \<open>2 ^ 53\<close>, where they are exact.
\<close>

record 'r redis_cmds =
  INCR :: "string \<Rightarrow> int \<Rightarrow> 'r \<Rightarrow> int option \<times> 'r"
  PEXPIRE :: "string \<Rightarrow> int \<Rightarrow> int \<Rightarrow> 'r \<Rightarrow> 'r"
  PTTL :: "string \<Rightarrow> int \<Rightarrow> 'r \<Rightarrow> int"

definition rate_script ::
  "'r redis_cmds \<Rightarrow> int \<Rightarrow> string \<Rightarrow> int \<Rightarrow> int \<Rightarrow> 'r \<Rightarrow> (int \<times> int \<times> int) option \<times> 'r" where
  "rate_script cmds t key limit window r =
     (case INCR cmds key t r of
        (None, r1) \<Rightarrow> (None, r1)
      | (Some count, r1) \<Rightarrow>
          let r2 = (if count = 1 then PEXPIRE cmds key window t r1 else r1);
              remaining = limit - count;
              remaining = (if remaining < 0 then 0 else remaining);
              ttl = PTTL cmds key t r2;
              ttl = (if ttl < 0 then 0 else ttl)
          in if count \<le> limit then (Some (1, remaining, ttl), r2)
             else (Some (0, remaining, ttl), r2))"

text \<open>The client's view: a script error is an error, a Lua table of numbers a slice of \<open>int64\<close>.\<close>

definition script_run :: "'r redis_cmds \<Rightarrow> int \<Rightarrow> (unit, 'r) script_run" where
  "script_run cmds t key limit window r =
     (case rate_script cmds t key limit window r of
        (None, r') \<Rightarrow> (Inl (), r')
      | (Some (a, b, c), r') \<Rightarrow> (Inr (AnySlice [AnyInt64 a, AnyInt64 b, AnyInt64 c]), r'))"

subsection \<open>What Redis promises\<close>

text \<open>
  \<open>db r k\<close> is the value of \<open>k\<close> with its expiry time, if it has one. A key is gone once its
  time has passed; \<open>expired t x\<close> says whether a key that expires at \<open>x\<close> is gone at \<open>t\<close>, which
  for \<open>t = x\<close> the documentation leaves open.
\<close>

type_synonym 'r redis_db = "'r \<Rightarrow> string \<Rightarrow> (int \<times> int option) option"

definition alive :: "(int \<Rightarrow> int \<Rightarrow> bool) \<Rightarrow> int \<Rightarrow> (int \<times> int option) option \<Rightarrow> (int \<times> int option) option"
  where
  "alive expired t v =
     (case v of Some (n, Some x) \<Rightarrow> if expired t x then None else v | _ \<Rightarrow> v)"

definition redis_laws :: "'r redis_cmds \<Rightarrow> 'r redis_db \<Rightarrow> (int \<Rightarrow> int \<Rightarrow> bool) \<Rightarrow> bool" where
  "redis_laws cmds db expired \<longleftrightarrow>
     (\<forall>t x. (x < t \<longrightarrow> expired t x) \<and> (t < x \<longrightarrow> \<not> expired t x)) \<and>
     (\<forall>k t r. alive expired t (db r k) = None \<longrightarrow>
        fst (INCR cmds k t r) = Some 1 \<and> db (snd (INCR cmds k t r)) = (db r)(k \<mapsto> (1, None))) \<and>
     (\<forall>k t r n x. alive expired t (db r k) = Some (n, x) \<longrightarrow> n < max_int64 \<longrightarrow>
        fst (INCR cmds k t r) = Some (n + 1) \<and> db (snd (INCR cmds k t r)) = (db r)(k \<mapsto> (n + 1, x))) \<and>
     (\<forall>k d t r n x. alive expired t (db r k) = Some (n, x) \<longrightarrow>
        db (PEXPIRE cmds k d t r) =
          (db r)(k := if 0 < d then Some (n, Some (t + d)) else None)) \<and>
     (\<forall>k t r. PTTL cmds k t r =
        (case alive expired t (db r k) of
           None \<Rightarrow> -2 | Some (_, None) \<Rightarrow> -1 | Some (_, Some x) \<Rightarrow> x - t))"

subsection \<open>A fixed-window counter\<close>

definition redis_hit ::
  "'r redis_cmds \<Rightarrow> string \<Rightarrow> int \<Rightarrow> duration \<Rightarrow> int \<Rightarrow> 'r \<Rightarrow> (bool \<times> int) \<times> 'r" where
  "redis_hit cmds k l w t r =
     (case CheckRateLimit_key (script_run cmds t) k l w r of
        (Inr (allowed, remaining, reset), r') \<Rightarrow> ((allowed, remaining), r')
      | (Inl e, r') \<Rightarrow> ((False, 0), r'))"

definition red_count :: "'r redis_db \<Rightarrow> (int \<Rightarrow> int \<Rightarrow> bool) \<Rightarrow> int \<Rightarrow> 'r \<Rightarrow> string \<Rightarrow> int" where
  "red_count db expired t r k =
     (case alive expired t (db r k) of None \<Rightarrow> 0 | Some (n, x) \<Rightarrow> n)"

definition red_ends :: "'r redis_db \<Rightarrow> 'r \<Rightarrow> string \<Rightarrow> int" where
  "red_ends db r k = (case db r k of Some (n, Some x) \<Rightarrow> x | _ \<Rightarrow> 0)"

text \<open>
  The dataset holds counters only, all with an expiry time, and all with room for \<open>n\<close> more
  requests below \<open>2 ^ 53\<close>.
\<close>

definition counter_ok :: "nat \<Rightarrow> int \<times> int option \<Rightarrow> bool" where
  "counter_ok n v \<longleftrightarrow> 1 \<le> fst v \<and> fst v + int n \<le> 9007199254740992 \<and> snd v \<noteq> None"

definition red_inv :: "'r redis_db \<Rightarrow> nat \<Rightarrow> 'r \<Rightarrow> bool" where
  "red_inv db n r \<longleftrightarrow> int n \<le> 9007199254740992 \<and> (\<forall>k v. db r k = Some v \<longrightarrow> counter_ok n v)"

lemma redis_lawsD:
  assumes "redis_laws cmds db expired"
  shows "x < t \<Longrightarrow> expired t x" and "t < x \<Longrightarrow> \<not> expired t x"
    and "alive expired t (db r k) = None \<Longrightarrow> fst (INCR cmds k t r) = Some 1"
    and "alive expired t (db r k) = None \<Longrightarrow> db (snd (INCR cmds k t r)) = (db r)(k \<mapsto> (1, None))"
    and "alive expired t (db r k) = Some (n, y) \<Longrightarrow> n < max_int64 \<Longrightarrow>
      fst (INCR cmds k t r) = Some (n + 1)"
    and "alive expired t (db r k) = Some (n, y) \<Longrightarrow> n < max_int64 \<Longrightarrow>
      db (snd (INCR cmds k t r)) = (db r)(k \<mapsto> (n + 1, y))"
    and "alive expired t (db r k) = Some (n, y) \<Longrightarrow> db (PEXPIRE cmds k d t r) =
      (db r)(k := if 0 < d then Some (n, Some (t + d)) else None)"
    and "PTTL cmds k t r = (case alive expired t (db r k) of
      None \<Rightarrow> -2 | Some (_, None) \<Rightarrow> -1 | Some (_, Some x) \<Rightarrow> x - t)"
  using assms unfolding redis_laws_def by blast+

text \<open>The counter the script leaves behind.\<close>

definition next_counter :: "(int \<Rightarrow> int \<Rightarrow> bool) \<Rightarrow> int \<Rightarrow> int \<Rightarrow> (int \<times> int option) option \<Rightarrow>
    (int \<times> int option) option" where
  "next_counter expired t d v =
     (case alive expired t v of
        None \<Rightarrow> if 0 < d then Some (1, Some (t + d)) else None
      | Some (n, x) \<Rightarrow> Some (n + 1, x))"

lemma alive_counter_ok: "alive expired t v = Some a \<Longrightarrow> v = Some a"
  by (auto simp: alive_def split: option.splits if_splits)

lemma rate_script_spec:
  assumes laws: "redis_laws cmds db expired" and inv: "red_inv db (Suc n) r"
  shows "\<exists>ttl. fst (rate_script cmds t k l d r) =
      Some (if red_count db expired t r k < l then 1 else 0,
            max 0 (l - red_count db expired t r k - 1), ttl)" (is ?ans)
    and "db (snd (rate_script cmds t k l d r)) = (db r)(k := next_counter expired t d (db r k))"
      (is ?state)
proof -
  note L = redis_lawsD [OF laws]
  have "?ans \<and> ?state"
  proof (cases "alive expired t (db r k)")
    case None
    note i = L(3,4) [OF None]
    obtain r1 where r1: "INCR cmds k t r = (Some 1, r1)" "db r1 = (db r)(k \<mapsto> (1, None))"
      using i by (metis prod.collapse)
    have "alive expired t (db r1 k) = Some (1, None)" by (simp add: r1 alive_def)
    note p = L(7) [OF this, of d]
    show ?thesis
      using None r1 p
      by (auto simp: rate_script_def Let_def red_count_def next_counter_def fun_upd_def)
  next
    case (Some v)
    then obtain m x where v: "alive expired t (db r k) = Some (m, x)" by (cases v) auto
    with inv have m: "1 \<le> m" "m < max_int64"
      by (auto simp: red_inv_def counter_ok_def max_int64_def dest!: alive_counter_ok)
        (fastforce)+
    obtain r1 where r1: "INCR cmds k t r = (Some (m + 1), r1)" "db r1 = (db r)(k \<mapsto> (m + 1, x))"
      using L(5,6) [OF v m(2)] by (metis prod.collapse)
    show ?thesis
      using m v r1 by (auto simp: rate_script_def Let_def red_count_def next_counter_def)
  qed
  then show ?ans ?state by auto
qed

definition window_ms :: "duration \<Rightarrow> int" where
  "window_ms w = tdiv w 1000000"

lemma redis_hit_eq:
  assumes "redis_laws cmds db expired" "red_inv db (Suc n) r"
  shows "fst (redis_hit cmds k l w t r) =
      (red_count db expired t r k < l, max 0 (l - red_count db expired t r k - 1))"
    and "db (snd (redis_hit cmds k l w t r)) =
      (db r)(k := next_counter expired t (window_ms w) (db r k))"
proof -
  from rate_script_spec(1) [OF assms, of t k l "window_ms w"]
  obtain ttl r1 where "rate_script cmds t k l (window_ms w) r =
      (Some (if red_count db expired t r k < l then 1 else 0,
             max 0 (l - red_count db expired t r k - 1), ttl), r1)"
    by (metis prod.collapse)
  moreover note rate_script_spec(2) [OF assms, of t k l "window_ms w"]
  ultimately show "fst (redis_hit cmds k l w t r) =
      (red_count db expired t r k < l, max 0 (l - red_count db expired t r k - 1))"
    and "db (snd (redis_hit cmds k l w t r)) =
      (db r)(k := next_counter expired t (window_ms w) (db r k))"
    by (simp_all add: redis_hit_def CheckRateLimit_key_def script_run_def decode_reply_def
        Let_def numeral_2_eq_2 flip: window_ms_def)
qed

lemma redis_hit_db_other:
  assumes "redis_laws cmds db expired" "red_inv db (Suc n) r" "k' \<noteq> k"
  shows "db (snd (redis_hit cmds k l w t r)) k' = db r k'"
  using assms by (simp add: redis_hit_eq)

lemma alive_cases:
  assumes "red_inv db n r"
  obtains "alive expired t (db r k) = None" "red_count db expired t r k = 0"
  | m x where "db r k = Some (m, Some x)" "alive expired t (db r k) = Some (m, Some x)"
      "1 \<le> m" "m + int n \<le> 9007199254740992" "\<not> expired t x" "red_count db expired t r k = m"
proof (cases "alive expired t (db r k)")
  case (Some v)
  then have v: "db r k = Some v" by (rule alive_counter_ok)
  with assms have "counter_ok n v" unfolding red_inv_def by blast
  then obtain m x where "v = (m, Some x)" "1 \<le> m" "m + int n \<le> 9007199254740992"
    by (cases v) (auto simp: counter_ok_def)
  with v Some that(2) show ?thesis by (auto simp: red_count_def alive_def split: if_splits)
qed (use that in \<open>simp add: red_count_def\<close>)

lemma next_counter_ok:
  assumes "red_inv db (Suc n) r" "next_counter expired t d (db r k) = Some v"
  shows "counter_ok n v"
  using assms(1)
proof (cases rule: alive_cases [of _ _ _ expired t k])
  case 1
  with assms show ?thesis
    by (auto simp: next_counter_def counter_ok_def red_inv_def split: if_splits)
next
  case (2 m x)
  with assms show ?thesis by (auto simp: next_counter_def counter_ok_def)
qed

lemma counter_ok_Suc: "counter_ok (Suc n) v \<Longrightarrow> counter_ok n v"
  by (simp add: counter_ok_def)

lemma redis_hit_inv:
  assumes laws: "redis_laws cmds db expired" and inv: "red_inv db (Suc n) r"
  shows "red_inv db n (snd (redis_hit cmds k l w t r))"
  unfolding red_inv_def
proof (intro conjI allI impI)
  show "int n \<le> 9007199254740992" using inv by (simp add: red_inv_def)
  fix k' v
  assume "db (snd (redis_hit cmds k l w t r)) k' = Some v"
  then have v: "(if k' = k then next_counter expired t (window_ms w) (db r k) else db r k') = Some v"
    by (simp add: redis_hit_eq [OF laws inv])
  show "counter_ok n v"
  proof (cases "k' = k")
    case True
    then show ?thesis using v next_counter_ok [OF inv] by auto
  next
    case False
    with v have "db r k' = Some v" by simp
    with inv have "counter_ok (Suc n) v" unfolding red_inv_def by blast
    then show ?thesis by (rule counter_ok_Suc)
  qed
qed

text \<open>What the dataset holds for the key after a hit, when its window is positive.\<close>

lemma redis_hit_counter:
  assumes "redis_laws cmds db expired" "red_inv db (Suc n) r" "0 < window_ms w"
  shows "db (snd (redis_hit cmds k l w t r)) k =
    Some (red_count db expired t r k + 1,
      Some (if red_count db expired t r k = 0 then t + window_ms w else red_ends db r k))"
  using assms(2)
proof (cases rule: alive_cases [of _ _ _ expired t k])
  case 1
  then show ?thesis using assms by (simp add: redis_hit_eq next_counter_def)
next
  case (2 m x)
  then show ?thesis using assms by (simp add: redis_hit_eq next_counter_def red_ends_def)
qed

lemma red_inv_less: "red_inv db n r \<Longrightarrow> n' \<le> n \<Longrightarrow> red_inv db n' r"
  by (fastforce simp: red_inv_def counter_ok_def)

lemma redis_window_counter:
  fixes cmds :: "'r redis_cmds"
  assumes laws: "redis_laws cmds db expired"
  shows "window_counter (redis_hit cmds) (red_count db expired) (red_ends db) (red_inv db) window_ms"
proof
  fix n n' :: nat and s :: 'r and k k' :: string and l :: int and w t t' :: int
  show "0 \<le> red_count db expired t s k" if "red_inv db n s"
    using that by (cases rule: alive_cases [of _ _ _ expired t k]) auto
  show "red_inv db n' s" if "red_inv db n s" "n' \<le> n"
    by (rule red_inv_less [OF that])
  assume inv: "red_inv db (Suc n) s"
  let ?s' = "snd (redis_hit cmds k l w t s)"
  show "red_inv db n ?s'" by (rule redis_hit_inv [OF laws inv])
  show "fst (redis_hit cmds k l w t s) =
      (red_count db expired t s k < l, max 0 (l - red_count db expired t s k - 1))"
    by (rule redis_hit_eq(1) [OF laws inv])
  show "red_count db expired t' ?s' k' = red_count db expired t' s k'" if "k' \<noteq> k"
    by (simp add: red_count_def redis_hit_db_other [OF laws inv that])
  show "red_ends db ?s' k' = red_ends db s k'" if "k' \<noteq> k"
    by (simp add: red_ends_def redis_hit_db_other [OF laws inv that])
  assume w: "0 < window_ms w"
  note counter = redis_hit_counter [OF laws inv w, of k l t]
  show ends: "red_ends db ?s' k =
      (if red_count db expired t s k = 0 then t + window_ms w else red_ends db s k)"
    by (simp add: red_ends_def counter)
  show "red_count db expired t' ?s' k = red_count db expired t s k + 1" if "t' < red_ends db ?s' k"
    using that redis_lawsD(2) [OF laws, of t'] unfolding ends
    by (simp add: red_count_def [of _ _ t'] alive_def counter split: if_splits)
  show "red_count db expired t' ?s' k \<in> {red_count db expired t s k + 1, 0}"
    by (simp add: red_count_def [of _ _ t'] alive_def counter)
qed

text \<open>A server that keeps its promises: a map of counters, with the expiry test of Redis.\<close>

type_synonym redis_map = "string \<rightharpoonup> int \<times> int option"

definition map_expired :: "int \<Rightarrow> int \<Rightarrow> bool" where
  "map_expired t x \<longleftrightarrow> x < t"

definition map_redis :: "redis_map redis_cmds" where
  "map_redis =
     \<lparr>INCR = (\<lambda>k t r. case alive map_expired t (r k) of
                None \<Rightarrow> (Some 1, r(k \<mapsto> (1, None)))
              | Some (n, x) \<Rightarrow> if n < max_int64 then (Some (n + 1), r(k \<mapsto> (n + 1, x))) else (None, r)),
      PEXPIRE = (\<lambda>k d t r. case alive map_expired t (r k) of
                None \<Rightarrow> r
              | Some (n, x) \<Rightarrow> r(k := if 0 < d then Some (n, Some (t + d)) else None)),
      PTTL = (\<lambda>k t r. case alive map_expired t (r k) of
                None \<Rightarrow> -2 | Some (_, None) \<Rightarrow> -1 | Some (_, Some x) \<Rightarrow> x - t)\<rparr>"

lemma map_redis_laws: "redis_laws map_redis (\<lambda>r. r) map_expired"
  unfolding redis_laws_def
  by (simp add: map_redis_def map_expired_def)

lemma map_redis_empty [simp]:
  "red_inv (\<lambda>r. r) n Map.empty \<longleftrightarrow> int n \<le> 9007199254740992"
  "red_count (\<lambda>r. r) expired t Map.empty k = 0"
  by (simp_all add: red_inv_def red_count_def alive_def)

text \<open>
  C22: With Redis up, a key of the rate limiter with no live window admits exactly the first
  \<open>limit\<close> requests of the window its next request opens, with the same answers as the
  in-memory limiter, for every dataset and however the requests of other keys are interleaved.
\<close>

theorem redis_window_exact:
  assumes "redis_laws cmds db expired" "red_inv db (length hs) r" "0 < window_ms window"
    and "limit_ok limit"
    and "hits_between t (t + window_ms window) (''rate:'' @ routeID @ '':'' @ clientID) limit window hs"
    and "\<And>t'. t \<le> t' \<Longrightarrow> red_count db expired t' r (''rate:'' @ routeID @ '':'' @ clientID) = 0"
  shows "answers_of (''rate:'' @ routeID @ '':'' @ clientID) (fst (run_hits (redis_hit cmds) hs r)) =
    window_answers limit 0 (hits_of (''rate:'' @ routeID @ '':'' @ clientID) hs)"
  using assms(2-) by (intro window_counter.window_exact [OF redis_window_counter [OF assms(1)]]) auto

definition redis_hits :: "request_hit list" where
  "redis_hits = map (\<lambda>(k, t). \<lparr>rh_key = k, rh_limit = 2, rh_window = 60000000000, rh_time = t\<rparr>)
     [(''rate:r:a'', 5), (''rate:r:b'', 6), (''rate:r:a'', 7), (''rate:r:a'', 60004)]"

lemma redis_hits_between: "hits_between 5 60005 ''rate:r:a'' 2 60000000000 redis_hits"
  by (simp add: redis_hits_def hits_between_def)

lemma redis_window_exact_witness:
  "answers_of ''rate:r:a'' (fst (run_hits (redis_hit map_redis) redis_hits Map.empty)) =
     [(True, 1), (True, 0), (False, 0)]"
proof -
  have "answers_of (''rate:'' @ ''r'' @ '':'' @ ''a'')
        (fst (run_hits (redis_hit map_redis) redis_hits Map.empty)) =
      window_answers 2 0 (hits_of (''rate:'' @ ''r'' @ '':'' @ ''a'') redis_hits)"
    using redis_hits_between
    by (intro redis_window_exact [OF map_redis_laws, where window = 60000000000 and t = 5])
      (simp_all add: limit_ok_def redis_hits_def window_ms_def tdiv_def)
  then show ?thesis by (simp add: redis_hits_def)
qed

text \<open>
  A window shorter than a millisecond is no limit: the script sets a time to live of 0,
  which deletes the counter, so with a positive limit every request of the key is admitted.
\<close>

theorem redis_short_window_unlimited:
  assumes "redis_laws cmds db expired" "red_inv db (length hs) r" "0 \<le> window" "window < 1000000"
    and "0 < limit" "limit_ok limit" "db r key = None"
    and "list_all (\<lambda>h. rh_key h = key \<longrightarrow> rh_limit h = limit \<and> rh_window h = window) hs"
  shows "list_all fst (answers_of key (fst (run_hits (redis_hit cmds) hs r)))"
  using assms(2,7,8)
proof (induction hs arbitrary: r)
  case (Cons h hs)
  let ?r' = "snd (redis_hit cmds (rh_key h) (rh_limit h) (rh_window h) (rh_time h) r)"
  from Cons.prems have inv: "red_inv db (Suc (length hs)) r" by simp
  have "db ?r' key = None"
    using Cons.prems assms(3,4)
    by (cases "rh_key h = key")
      (simp_all add: redis_hit_eq [OF assms(1) inv] next_counter_def alive_def window_ms_def
        tdiv_nonneg)
  then have "list_all fst (answers_of key (fst (run_hits (redis_hit cmds) hs ?r')))"
    using Cons.prems redis_hit_inv [OF assms(1) inv] by (intro Cons.IH) simp_all
  then show ?case
    using Cons.prems assms(5)
    by (cases "rh_key h = key") (simp_all add: Let_def redis_hit_eq [OF assms(1) inv] red_count_def alive_def)
qed simp

lemma redis_short_window_unlimited_witness:
  "list_all fst (answers_of ''k'' (fst (run_hits (redis_hit map_redis)
     (replicate 5 \<lparr>rh_key = ''k'', rh_limit = 1, rh_window = 999999, rh_time = 0\<rparr>) Map.empty)))"
  by (rule redis_short_window_unlimited [OF map_redis_laws, of _ _ 999999 1])
    (simp_all add: limit_ok_def list_all_iff)

end
