(* ===== verification/Rate_Limiter.thy ===== *)
theory Rate_Limiter
  imports Memory_Limit Redis_Limit Gateway_Config
begin

text \<open>
  \<open>RateLimiter\<close> of \<open>internal/middleware/ratelimit.go\<close>: \<open>Allow\<close>, which asks Redis first and
  falls back to the in-memory limiter when Redis is not configured or fails, and
  \<open>ResolveClientID\<close> with the header adapter it reads.

  The last part follows a limiter while its Redis connection comes and goes: each back end
  counts only the requests it answers, so their windows add up.
\<close>

subsection \<open>Allow\<close>

text \<open>\<open>rlm_redis\<close> is the Redis client with the server behind it, \<open>None\<close> for a nil client.\<close>

record 'r RateLimiter =
  rlm_redis :: "'r option"
  rlm_memory :: memoryLimiter

definition NewRateLimiter :: "'r option \<Rightarrow> 'r RateLimiter" where
  "NewRateLimiter redisClient = \<lparr>rlm_redis = redisClient, rlm_memory = newMemoryLimiter\<rparr>"

definition RL_fallback :: "instant \<Rightarrow> instant \<Rightarrow> 'r RateLimiter \<Rightarrow> string \<Rightarrow> string \<Rightarrow> RateLimitCfg
    \<Rightarrow> (bool \<times> int \<times> duration) \<times> 'r RateLimiter" where
  "RL_fallback now now2 rl routeID clientID lmt =
     (case memory_allow routeID clientID (rl_Requests lmt) (rl_Window lmt) now now2 (rlm_memory rl) of
        (a, m) \<Rightarrow> (a, rl\<lparr>rlm_memory := m\<rparr>))"

definition RL_Allow :: "('e, 'r) script_run \<Rightarrow> instant \<Rightarrow> instant \<Rightarrow> 'r RateLimiter \<Rightarrow> Route \<Rightarrow> string
    \<Rightarrow> (bool \<times> int \<times> duration) \<times> 'r RateLimiter" where
  "RL_Allow run now now2 rl route clientID =
     (case rt_RateLimit route of
        None \<Rightarrow> ((True, 0, 0), rl)
      | Some lmt \<Rightarrow>
          if \<not> rl_Enabled lmt then ((True, 0, 0), rl)
          else case rlm_redis rl of
                 None \<Rightarrow> RL_fallback now now2 rl (rt_ID route) clientID lmt
               | Some r \<Rightarrow>
                   (case CheckRateLimit run (rt_ID route) clientID (rl_Requests lmt) (rl_Window lmt) r of
                      (Inr a, r') \<Rightarrow> (a, rl\<lparr>rlm_redis := Some r'\<rparr>)
                    | (Inl e, r') \<Rightarrow>
                        RL_fallback now now2 (rl\<lparr>rlm_redis := Some r'\<rparr>) (rt_ID route) clientID lmt))"

text \<open>
  \<open>Allow\<close> in its two parts: the round trip to Redis, which may give no answer, and the fallback.
\<close>

definition RL_redis :: "('e, 'r) script_run \<Rightarrow> 'r RateLimiter \<Rightarrow> string \<Rightarrow> string \<Rightarrow> RateLimitCfg
    \<Rightarrow> (bool \<times> int \<times> duration) option \<times> 'r RateLimiter" where
  "RL_redis run rl routeID clientID lmt =
     (case rlm_redis rl of
        None \<Rightarrow> (None, rl)
      | Some r \<Rightarrow>
          (case CheckRateLimit run routeID clientID (rl_Requests lmt) (rl_Window lmt) r of
             (Inr a, r') \<Rightarrow> (Some a, rl\<lparr>rlm_redis := Some r'\<rparr>)
           | (Inl e, r') \<Rightarrow> (None, rl\<lparr>rlm_redis := Some r'\<rparr>)))"

lemma RL_Allow_parts:
  "rt_RateLimit route = Some lmt \<Longrightarrow> rl_Enabled lmt \<Longrightarrow>
     RL_Allow run now now2 rl route clientID =
       (case RL_redis run rl (rt_ID route) clientID lmt of
          (Some a, rl) \<Rightarrow> (a, rl)
        | (None, rl) \<Rightarrow> RL_fallback now now2 rl (rt_ID route) clientID lmt)"
  by (simp add: RL_Allow_def RL_redis_def split: option.split sum.split prod.split)

text \<open>\<open>StartCleanup\<close> runs this at every tick.\<close>

definition RL_clean :: "instant \<Rightarrow> 'r RateLimiter \<Rightarrow> 'r RateLimiter" where
  "RL_clean now rl = rl\<lparr>rlm_memory := cleanExpired now (rlm_memory rl)\<rparr>"

subsection \<open>ResolveClientID\<close>

record requestAdapter =
  ra_getHeader :: "string \<Rightarrow> string"
  ra_remoteAddr :: string

definition AdaptRequest :: "(string \<Rightarrow> string) \<Rightarrow> string \<Rightarrow> requestAdapter" where
  "AdaptRequest getHeader remoteAddr = \<lparr>ra_getHeader = getHeader, ra_remoteAddr = remoteAddr\<rparr>"

definition ResolveClientID :: "requestAdapter \<Rightarrow> Route \<Rightarrow> string" where
  "ResolveClientID r route =
     (case rt_RateLimit route of
        None \<Rightarrow> rt_ID route
      | Some lmt \<Rightarrow>
          if \<not> rl_PerClient lmt then rt_ID route
          else let u = ra_getHeader r ''X-User-ID'' in
               if u \<noteq> '''' then u
               else let k = ra_getHeader r ''X-API-Key-ID'' in
               if k \<noteq> '''' then k
               else let fwd = ra_getHeader r ''X-Forwarded-For'' in
               if fwd \<noteq> '''' then fwd
               else ra_remoteAddr r)"

subsection \<open>A Redis connection that comes and goes\<close>

text \<open>
  The three things that can happen to a call of the script: it is answered; it is executed and
  the answer is lost; it never reaches the server.
\<close>

datatype net = NetOk | NetLost | NetDown

fun net_run :: "'r redis_cmds \<Rightarrow> int \<Rightarrow> net \<Rightarrow> (unit, 'r) script_run" where
  "net_run cmds t NetOk key limit window r = script_run cmds t key limit window r"
| "net_run cmds t NetLost key limit window r = (Inl (), snd (script_run cmds t key limit window r))"
| "net_run cmds t NetDown key limit window r = (Inl (), r)"

record limiter_call =
  ca_client :: string
  ca_net :: net
  ca_ms :: int
  ca_now :: instant

fun limiter_run :: "'r redis_cmds \<Rightarrow> Route \<Rightarrow> limiter_call list \<Rightarrow> 'r RateLimiter \<Rightarrow> (string \<times> bool) list" where
  "limiter_run cmds route [] rl = []"
| "limiter_run cmds route (c # cs) rl =
     (let (a, rl') = RL_Allow (net_run cmds (ca_ms c) (ca_net c)) (ca_now c) (ca_now c) rl route (ca_client c)
      in (ca_client c, fst a) # limiter_run cmds route cs rl')"

definition client_admitted :: "string \<Rightarrow> (string \<times> bool) list \<Rightarrow> int" where
  "client_admitted client as = int (length (filter (\<lambda>a. fst a = client \<and> snd a) as))"

lemma client_admitted_simps [simp]:
  "client_admitted c [] = 0"
  "client_admitted c (a # as) = (if fst a = c \<and> snd a then 1 else 0) + client_admitted c as"
  by (simp_all add: client_admitted_def)

text \<open>The requests each back end counts.\<close>

definition redis_key :: "string \<Rightarrow> string \<Rightarrow> string" where
  "redis_key routeID clientID = ''rate:'' @ routeID @ '':'' @ clientID"

definition memory_key :: "string \<Rightarrow> string \<Rightarrow> string" where
  "memory_key routeID clientID = routeID @ '':'' @ clientID"

definition redis_side :: "string \<Rightarrow> RateLimitCfg \<Rightarrow> limiter_call list \<Rightarrow> request_hit list" where
  "redis_side routeID lmt cs =
     map (\<lambda>c. \<lparr>rh_key = redis_key routeID (ca_client c), rh_limit = rl_Requests lmt,
                rh_window = rl_Window lmt, rh_time = ca_ms c\<rparr>)
       (filter (\<lambda>c. ca_net c \<noteq> NetDown) cs)"

definition memory_side :: "string \<Rightarrow> RateLimitCfg \<Rightarrow> limiter_call list \<Rightarrow> request_hit list" where
  "memory_side routeID lmt cs =
     map (\<lambda>c. \<lparr>rh_key = memory_key routeID (ca_client c), rh_limit = rl_Requests lmt,
                rh_window = rl_Window lmt, rh_time = ca_now c\<rparr>)
       (filter (\<lambda>c. ca_net c \<noteq> NetOk) cs)"

lemma side_keys [simp]:
  "redis_key r c = redis_key r c' \<longleftrightarrow> c = c'"
  "memory_key r c = memory_key r c' \<longleftrightarrow> c = c'"
  by (simp_all add: redis_key_def memory_key_def)

lemma sides_simps [simp]:
  "redis_side r lmt [] = []" "memory_side r lmt [] = []"
  "redis_side r lmt (c # cs) = (if ca_net c = NetDown then redis_side r lmt cs else
     \<lparr>rh_key = redis_key r (ca_client c), rh_limit = rl_Requests lmt,
      rh_window = rl_Window lmt, rh_time = ca_ms c\<rparr> # redis_side r lmt cs)"
  "memory_side r lmt (c # cs) = (if ca_net c = NetOk then memory_side r lmt cs else
     \<lparr>rh_key = memory_key r (ca_client c), rh_limit = rl_Requests lmt,
      rh_window = rl_Window lmt, rh_time = ca_now c\<rparr> # memory_side r lmt cs)"
  by (simp_all add: redis_side_def memory_side_def)

lemma fallback_hit:
  "RL_fallback now now rl routeID clientID lmt = (a, rl') \<Longrightarrow>
     mem_hit (memory_key routeID clientID) (rl_Requests lmt) (rl_Window lmt) now (rlm_memory rl)
       = ((fst a, fst (snd a)), rlm_memory rl') \<and> rlm_redis rl' = rlm_redis rl"
  by (auto simp: RL_fallback_def memory_allow_def memory_key_def mem_hit_def split: prod.splits)

lemma check_ok:
  assumes "redis_laws cmds db expired" "red_inv db (Suc n) r"
  shows "\<exists>a r'. CheckRateLimit (net_run cmds t NetOk) routeID clientID l w r = (Inr a, r') \<and>
    redis_hit cmds (redis_key routeID clientID) l w t r = ((fst a, fst (snd a)), r')"
proof -
  from rate_script_spec(1) [OF assms, of t "redis_key routeID clientID" l "tdiv w 1000000"]
  obtain a b c r' where
    "rate_script cmds t (redis_key routeID clientID) l (tdiv w 1000000) r = (Some (a, b, c), r')"
    by (metis prod.collapse)
  then show ?thesis
    by (simp add: CheckRateLimit_def CheckRateLimit_key_def redis_hit_def script_run_def
        decode_reply_def redis_key_def)
qed

lemma redis_hit_state:
  "snd (redis_hit cmds k l w t r) = snd (script_run cmds t k l (tdiv w 1000000) r)"
  by (simp add: redis_hit_def CheckRateLimit_key_def split: prod.splits sum.splits)

lemma check_lost:
  "CheckRateLimit (net_run cmds t NetLost) routeID clientID l w r =
     (Inl (RunFailed ()), snd (redis_hit cmds (redis_key routeID clientID) l w t r))"
  by (simp add: CheckRateLimit_def CheckRateLimit_key_def redis_key_def redis_hit_state)

lemma check_down:
  "CheckRateLimit (net_run cmds t NetDown) routeID clientID l w r = (Inl (RunFailed ()), r)"
  by (simp add: CheckRateLimit_def CheckRateLimit_key_def)

lemma limiter_run_step:
  assumes "rt_RateLimit route = Some lmt" "rl_Enabled lmt"
    and "RL_Allow (net_run cmds (ca_ms c) (ca_net c)) (ca_now c) (ca_now c) rl route (ca_client c)
      = (a, rl')"
  shows "limiter_run cmds route (c # cs) rl = (ca_client c, fst a) # limiter_run cmds route cs rl'"
  using assms by simp

lemma limiter_run_split:
  fixes route :: Route
  assumes laws: "redis_laws cmds db expired"
    and lmt: "rt_RateLimit route = Some lmt" "rl_Enabled lmt"
    and "red_inv db (length cs) r" "mem_inv (length cs) m"
  shows "client_admitted client (limiter_run cmds route cs \<lparr>rlm_redis = Some r, rlm_memory = m\<rparr>) \<le>
    admitted (redis_key (rt_ID route) client)
      (fst (run_hits (redis_hit cmds) (redis_side (rt_ID route) lmt cs) r)) +
    admitted (memory_key (rt_ID route) client)
      (fst (run_hits mem_hit (memory_side (rt_ID route) lmt cs) m))"
  using assms(4,5)
proof (induction cs arbitrary: r m)
  case (Cons c cs)
  let ?rl = "\<lparr>rlm_redis = Some r, rlm_memory = m\<rparr>"
  let ?rk = "redis_key (rt_ID route) (ca_client c)"
  let ?mk = "memory_key (rt_ID route) (ca_client c)"
  let ?r' = "snd (redis_hit cmds ?rk (rl_Requests lmt) (rl_Window lmt) (ca_ms c) r)"
  let ?m' = "snd (mem_hit ?mk (rl_Requests lmt) (rl_Window lmt) (ca_now c) m)"
  from Cons.prems have r: "red_inv db (Suc (length cs)) r" and m: "mem_inv (Suc (length cs)) m"
    by simp_all
  have r': "red_inv db (length cs) ?r'" by (rule redis_hit_inv [OF laws r])
  have m': "mem_inv (length cs) ?m'" by (rule mem_hit_inv [OF m])
  have rS: "red_inv db (length cs) r"
    using r unfolding red_inv_def by (auto intro: counter_ok_Suc)
  have mS: "mem_inv (length cs) m" using m by (fastforce simp: mem_inv_def)
  show ?case
  proof (cases "ca_net c")
    case NetOk
    obtain a r1 where a: "CheckRateLimit (net_run cmds (ca_ms c) NetOk) (rt_ID route) (ca_client c)
        (rl_Requests lmt) (rl_Window lmt) r = (Inr a, r1)"
      "redis_hit cmds ?rk (rl_Requests lmt) (rl_Window lmt) (ca_ms c) r = ((fst a, fst (snd a)), r1)"
      using check_ok [OF laws r] by blast
    show ?thesis
      using Cons.IH [OF r' mS] a lmt NetOk by (simp add: RL_Allow_def Let_def)
  next
    case NetLost
    obtain a rl' where a: "RL_fallback (ca_now c) (ca_now c) \<lparr>rlm_redis = Some ?r', rlm_memory = m\<rparr>
        (rt_ID route) (ca_client c) lmt = (a, rl')" by fastforce
    with fallback_hit [OF a] have "rl' = \<lparr>rlm_redis = Some ?r', rlm_memory = ?m'\<rparr>"
      "fst (fst (mem_hit ?mk (rl_Requests lmt) (rl_Window lmt) (ca_now c) m)) = fst a"
      by (cases rl', simp_all)
    then show ?thesis
      using Cons.IH [OF r' m'] a lmt NetLost
      by (cases "ca_client c = client") (simp_all add: RL_Allow_def Let_def check_lost)
  next
    case NetDown
    obtain a rl' where a: "RL_fallback (ca_now c) (ca_now c) ?rl (rt_ID route) (ca_client c) lmt
        = (a, rl')" by fastforce
    with fallback_hit [OF a] have "rl' = \<lparr>rlm_redis = Some r, rlm_memory = ?m'\<rparr>"
      "fst (fst (mem_hit ?mk (rl_Requests lmt) (rl_Window lmt) (ca_now c) m)) = fst a"
      by (cases rl', simp_all)
    then show ?thesis
      using Cons.IH [OF rS m'] a lmt NetDown by (simp add: RL_Allow_def Let_def check_down)
  qed
qed simp

text \<open>The calls of one interval, by the clock of each back end.\<close>

definition calls_between :: "int \<Rightarrow> int \<Rightarrow> instant \<Rightarrow> instant \<Rightarrow> limiter_call list \<Rightarrow> bool" where
  "calls_between u U t T cs \<longleftrightarrow>
     sorted (map ca_ms cs) \<and> sorted (map ca_now cs) \<and>
     list_all (\<lambda>c. u \<le> ca_ms c \<and> ca_ms c < U \<and> t \<le> ca_now c \<and> ca_now c < T) cs"

lemma sides_between:
  assumes "calls_between u U t T cs"
  shows "hits_between u U (redis_key routeID client) (rl_Requests lmt) (rl_Window lmt)
      (redis_side routeID lmt cs)"
    and "hits_between t T (memory_key routeID client) (rl_Requests lmt) (rl_Window lmt)
      (memory_side routeID lmt cs)"
proof -
  have "map rh_time (redis_side routeID lmt cs) = map ca_ms (filter (\<lambda>c. ca_net c \<noteq> NetDown) cs)"
    "map rh_time (memory_side routeID lmt cs) = map ca_now (filter (\<lambda>c. ca_net c \<noteq> NetOk) cs)"
    by (simp_all add: redis_side_def memory_side_def)
  with assms have "sorted (map rh_time (redis_side routeID lmt cs))"
    "sorted (map rh_time (memory_side routeID lmt cs))"
    by (simp_all only: calls_between_def sorted_filter)
  then show "hits_between u U (redis_key routeID client) (rl_Requests lmt) (rl_Window lmt)
      (redis_side routeID lmt cs)"
    "hits_between t T (memory_key routeID client) (rl_Requests lmt) (rl_Window lmt)
      (memory_side routeID lmt cs)"
    using assms unfolding hits_between_def calls_between_def
    by (simp_all add: redis_side_def memory_side_def list_all_iff)
qed

lemma sides_length:
  "length (redis_side routeID lmt cs) \<le> length cs" "length (memory_side routeID lmt cs) \<le> length cs"
  by (simp_all add: redis_side_def memory_side_def)

text \<open>
  While the Redis connection fails and recovers in any pattern (calls answered, executed
  without an answer, or never sent), no more than \<open>4 \<cdot> limit\<close> requests of a client are
  admitted over an interval as long as the window: \<open>2 \<cdot> limit\<close> by each back end.
\<close>

theorem limiter_failover_bound:
  assumes "redis_laws cmds db expired"
    and "rt_RateLimit route = Some lmt" "rl_Enabled lmt"
    and "limit_ok (rl_Requests lmt)" "0 < rl_Window lmt" "0 < window_ms (rl_Window lmt)"
    and "red_inv db (length cs) r" "mem_inv (length cs) m"
    and "calls_between u (u + window_ms (rl_Window lmt)) t (t + rl_Window lmt) cs"
  shows "client_admitted client (limiter_run cmds route cs \<lparr>rlm_redis = Some r, rlm_memory = m\<rparr>)
    \<le> 4 * rl_Requests lmt"
proof -
  note sides = sides_between [OF assms(9), of "rt_ID route" client lmt]
  have "admitted (redis_key (rt_ID route) client)
      (fst (run_hits (redis_hit cmds) (redis_side (rt_ID route) lmt cs) r)) \<le> 2 * rl_Requests lmt"
    by (rule window_counter.two_windows_any [OF redis_window_counter [OF assms(1)]
          red_inv_less [OF assms(7) sides_length(1)] assms(6,4) sides(1)])
  moreover have "admitted (memory_key (rt_ID route) client)
      (fst (run_hits mem_hit (memory_side (rt_ID route) lmt cs) m)) \<le> 2 * rl_Requests lmt"
    by (rule mem.two_windows_any [OF mem_inv_less [OF assms(8) sides_length(2)] assms(5,4) sides(2)])
  moreover note limiter_run_split [OF assms(1,2,3,7,8), of client]
  ultimately show ?thesis by linarith
qed

definition limited_route :: Route where
  "limited_route = sample_route\<lparr>rt_RateLimit := Some \<lparr>rl_Enabled = True, rl_Requests = 1,
     rl_Window = 1000000000, rl_PerClient = True\<rparr>\<rparr>"

definition sample_calls :: "limiter_call list" where
  "sample_calls = [\<lparr>ca_client = ''a'', ca_net = NetOk, ca_ms = 0, ca_now = 3\<rparr>,
     \<lparr>ca_client = ''a'', ca_net = NetDown, ca_ms = 0, ca_now = 7\<rparr>,
     \<lparr>ca_client = ''a'', ca_net = NetOk, ca_ms = 1, ca_now = 1000003\<rparr>]"

lemma limiter_failover_bound_witness:
  "client_admitted ''a'' (limiter_run map_redis limited_route sample_calls (NewRateLimiter (Some Map.empty)))
     \<le> 4 \<and>
   limiter_run map_redis limited_route sample_calls (NewRateLimiter (Some Map.empty)) =
     [(''a'', True), (''a'', True), (''a'', False)]"
proof
  have "client_admitted ''a'' (limiter_run map_redis limited_route sample_calls
      \<lparr>rlm_redis = Some Map.empty, rlm_memory = Map.empty\<rparr>) \<le> 4 * rl_Requests (the (rt_RateLimit limited_route))"
    by (rule limiter_failover_bound [OF map_redis_laws, where u = 0 and t = 0])
      (simp_all add: limited_route_def limit_ok_def sample_calls_def calls_between_def
        window_ms_def tdiv_def max_int64_def)
  then show "client_admitted ''a'' (limiter_run map_redis limited_route sample_calls
      (NewRateLimiter (Some Map.empty))) \<le> 4"
    by (simp add: NewRateLimiter_def newMemoryLimiter_def limited_route_def)
  show "limiter_run map_redis limited_route sample_calls (NewRateLimiter (Some Map.empty)) =
     [(''a'', True), (''a'', True), (''a'', False)]"
    by code_simp
qed

end
