(* ===== verification/Circuit_Breaker.thy ===== *)
theory Circuit_Breaker
  imports Gateway_Config "HOL-Library.Mapping"
begin

text \<open>
  The circuit breaker of package \<open>middleware\<close> (\<open>internal/middleware/circuitbreaker.go\<close>) and
  the store of breakers.

  A breaker is a record; its three operations take the clock readings the code makes, in
  order (\<open>RecordFailure\<close> reads the clock for \<open>LastFailure\<close> and again for \<open>OpenTime\<close>). The
  failure counter is an \<open>int\<close> with its wrap-around. The store's map is a \<open>mapping\<close>; breakers
  are never removed or replaced in it, so a pointer to a breaker is its key, and an
  operation through the pointer is \<open>put_breaker\<close> of the new value.
\<close>

subsection \<open>The breaker\<close>

datatype CircuitState = StateClosed | StateOpen | StateHalfOpen

text \<open>The integer value of a state (\<open>iota\<close>), and its name.\<close>

fun state_int :: "CircuitState \<Rightarrow> int" where
  "state_int StateClosed = 0"
| "state_int StateOpen = 1"
| "state_int StateHalfOpen = 2"

fun CircuitState_String :: "CircuitState \<Rightarrow> string" where
  "CircuitState_String StateClosed = ''closed''"
| "CircuitState_String StateOpen = ''open''"
| "CircuitState_String StateHalfOpen = ''half-open''"

text \<open>Go compares states as the integers they are.\<close>

instantiation CircuitState :: linorder
begin

definition less_eq_CircuitState :: "CircuitState \<Rightarrow> CircuitState \<Rightarrow> bool" where
  "less_eq_CircuitState a b \<longleftrightarrow> state_int a \<le> state_int b"

definition less_CircuitState :: "CircuitState \<Rightarrow> CircuitState \<Rightarrow> bool" where
  "less_CircuitState a b \<longleftrightarrow> state_int a < state_int b"

instance
proof
  fix x y :: CircuitState
  show "x \<le> y \<Longrightarrow> y \<le> x \<Longrightarrow> x = y"
    by (cases x; cases y) (simp_all add: less_eq_CircuitState_def)
qed (auto simp: less_eq_CircuitState_def less_CircuitState_def)

end

record CircuitBreaker =
  cb_State :: CircuitState
  cb_FailureCount :: int
  cb_LastFailure :: instant
  cb_OpenTime :: instant
  cb_config :: CircuitBrkCfg

definition NewCircuitBreaker :: "CircuitBrkCfg \<Rightarrow> CircuitBreaker" where
  "NewCircuitBreaker cfg = \<lparr>cb_State = StateClosed, cb_FailureCount = 0,
     cb_LastFailure = zero_time, cb_OpenTime = zero_time, cb_config = cfg\<rparr>"

definition Breaker_Allow :: "instant \<Rightarrow> CircuitBreaker \<Rightarrow> bool \<times> CircuitBreaker" where
  "Breaker_Allow now cb =
     (case cb_State cb of
        StateClosed \<Rightarrow> (True, cb)
      | StateOpen \<Rightarrow>
          if cbc_Timeout (cb_config cb) \<le> time_sub now (cb_OpenTime cb)
          then (True, cb\<lparr>cb_State := StateHalfOpen, cb_FailureCount := 0,
                  cb_LastFailure := zero_time\<rparr>)
          else (False, cb)
      | StateHalfOpen \<Rightarrow> (True, cb))"

definition RecordFailure :: "instant \<Rightarrow> instant \<Rightarrow> CircuitBreaker \<Rightarrow> CircuitBreaker" where
  "RecordFailure now1 now2 cb =
     (let cb1 = cb\<lparr>cb_FailureCount := wrap64 (cb_FailureCount cb + 1), cb_LastFailure := now1\<rparr>
      in case cb_State cb1 of
           StateClosed \<Rightarrow>
             if cbc_Threshold (cb_config cb1) \<le> cb_FailureCount cb1
             then cb1\<lparr>cb_State := StateOpen, cb_OpenTime := now2\<rparr>
             else cb1
         | StateHalfOpen \<Rightarrow> cb1\<lparr>cb_State := StateOpen, cb_OpenTime := now2\<rparr>
         | StateOpen \<Rightarrow> cb1)"

definition RecordSuccess :: "CircuitBreaker \<Rightarrow> CircuitBreaker" where
  "RecordSuccess cb =
     (case cb_State cb of
        StateHalfOpen \<Rightarrow>
          cb\<lparr>cb_State := StateClosed, cb_FailureCount := 0, cb_OpenTime := zero_time,
             cb_LastFailure := zero_time\<rparr>
      | StateClosed \<Rightarrow> cb\<lparr>cb_FailureCount := 0\<rparr>
      | StateOpen \<Rightarrow> cb)"

definition StateSnapshot :: "CircuitBreaker \<Rightarrow> CircuitState \<times> int \<times> instant \<times> instant" where
  "StateSnapshot cb = (cb_State cb, cb_FailureCount cb, cb_LastFailure cb, cb_OpenTime cb)"

subsection \<open>Runs\<close>

datatype breaker_event = EvAllow instant | EvFailure instant instant | EvSuccess

fun breaker_step :: "breaker_event \<Rightarrow> CircuitBreaker \<Rightarrow> CircuitBreaker" where
  "breaker_step (EvAllow t) cb = snd (Breaker_Allow t cb)"
| "breaker_step (EvFailure t1 t2) cb = RecordFailure t1 t2 cb"
| "breaker_step EvSuccess cb = RecordSuccess cb"

text \<open>The answers of the \<open>Allow\<close> calls of a run, and the breaker it ends with.\<close>

fun breaker_run :: "breaker_event list \<Rightarrow> CircuitBreaker \<Rightarrow> bool list \<times> CircuitBreaker" where
  "breaker_run [] cb = ([], cb)"
| "breaker_run (ev # evs) cb =
     (let (answers, cb') = breaker_run evs (breaker_step ev cb)
      in (case ev of EvAllow t \<Rightarrow> fst (Breaker_Allow t cb) # answers | _ \<Rightarrow> answers, cb'))"

text \<open>
  Breakers a program can build: the clock only moves forward, and each operation reads it.
\<close>

inductive breaker_reach :: "CircuitBrkCfg \<Rightarrow> instant \<Rightarrow> CircuitBreaker \<Rightarrow> bool"
  for cfg :: CircuitBrkCfg where
  new: "zero_time \<le> t \<Longrightarrow> breaker_reach cfg t (NewCircuitBreaker cfg)"
| tick: "breaker_reach cfg t cb \<Longrightarrow> t \<le> t' \<Longrightarrow> breaker_reach cfg t' cb"
| allow: "breaker_reach cfg t cb \<Longrightarrow> breaker_reach cfg t (snd (Breaker_Allow t cb))"
| failure: "breaker_reach cfg t cb \<Longrightarrow> t \<le> t' \<Longrightarrow> breaker_reach cfg t' (RecordFailure t t' cb)"
| success: "breaker_reach cfg t cb \<Longrightarrow> breaker_reach cfg t (RecordSuccess cb)"

subsection \<open>The store\<close>

record BreakerStore =
  bs_breakers :: "(string, CircuitBreaker) mapping"

definition NewBreakerStore :: BreakerStore where
  "NewBreakerStore = \<lparr>bs_breakers = Mapping.empty\<rparr>"

definition breaker_key :: "string \<Rightarrow> string \<Rightarrow> string" where
  "breaker_key routeID upstreamURL = routeID @ '':'' @ upstreamURL"

definition put_breaker :: "string \<Rightarrow> CircuitBreaker \<Rightarrow> BreakerStore \<Rightarrow> BreakerStore" where
  "put_breaker key cb bs = bs\<lparr>bs_breakers := Mapping.update key cb (bs_breakers bs)\<rparr>"

text \<open>
  \<open>GetOrCreate\<close> first looks under the read lock; on a miss it takes the write lock, looks
  again, and only then creates. The second part is a definition of its own, because other
  goroutines may run between the two.
\<close>

definition GetOrCreate_locked ::
  "string \<Rightarrow> CircuitBrkCfg \<Rightarrow> BreakerStore \<Rightarrow> CircuitBreaker \<times> BreakerStore" where
  "GetOrCreate_locked key cfg bs =
     (case Mapping.lookup (bs_breakers bs) key of
        Some cb \<Rightarrow> (cb, bs)
      | None \<Rightarrow> let cb = NewCircuitBreaker cfg in (cb, put_breaker key cb bs))"

definition GetOrCreate ::
  "string \<Rightarrow> string \<Rightarrow> CircuitBrkCfg \<Rightarrow> BreakerStore \<Rightarrow> CircuitBreaker \<times> BreakerStore" where
  "GetOrCreate routeID upstreamURL cfg bs =
     (let key = breaker_key routeID upstreamURL
      in case Mapping.lookup (bs_breakers bs) key of
           Some cb \<Rightarrow> (cb, bs)
         | None \<Rightarrow> GetOrCreate_locked key cfg bs)"

definition Snapshot :: "BreakerStore \<Rightarrow> (string, CircuitState) mapping" where
  "Snapshot bs = Mapping.map_values (\<lambda>_ cb. fst (StateSnapshot cb)) (bs_breakers bs)"

subsection \<open>The invariant\<close>

definition trip_count :: "CircuitBrkCfg \<Rightarrow> int" where
  "trip_count cfg = max 1 (cbc_Threshold cfg)"

definition breaker_inv :: "CircuitBrkCfg \<Rightarrow> instant \<Rightarrow> CircuitBreaker \<Rightarrow> bool" where
  "breaker_inv cfg t cb \<longleftrightarrow>
     cb_config cb = cfg \<and> in_int64 (cb_FailureCount cb)
     \<and> zero_time \<le> cb_OpenTime cb \<and> cb_OpenTime cb \<le> t
     \<and> zero_time \<le> cb_LastFailure cb \<and> cb_LastFailure cb \<le> t
     \<and> (case cb_State cb of
          StateClosed \<Rightarrow> 0 \<le> cb_FailureCount cb \<and> cb_FailureCount cb < trip_count cfg
            \<and> cb_OpenTime cb = zero_time
        | StateOpen \<Rightarrow> True
        | StateHalfOpen \<Rightarrow> cb_FailureCount cb = 0 \<and> cb_LastFailure cb = zero_time)"

lemma breaker_inv_new: "zero_time \<le> t \<Longrightarrow> breaker_inv cfg t (NewCircuitBreaker cfg)"
  by (simp add: breaker_inv_def NewCircuitBreaker_def in_int64_def min_int64_def max_int64_def
      trip_count_def)

lemma breaker_inv_tick: "breaker_inv cfg t cb \<Longrightarrow> t \<le> t' \<Longrightarrow> breaker_inv cfg t' cb"
  by (auto simp: breaker_inv_def)

lemma breaker_inv_allow: "breaker_inv cfg t cb \<Longrightarrow> breaker_inv cfg t (snd (Breaker_Allow t' cb))"
  by (auto simp: breaker_inv_def Breaker_Allow_def in_int64_def min_int64_def max_int64_def
      split: CircuitState.splits)

lemma closed_count_Suc:
  "breaker_inv cfg t cb \<Longrightarrow> cb_State cb = StateClosed \<Longrightarrow> in_int64 (cbc_Threshold cfg) \<Longrightarrow>
     wrap64 (cb_FailureCount cb + 1) = cb_FailureCount cb + 1"
  by (rule wrap64_id)
    (auto simp: breaker_inv_def in_int64_def trip_count_def min_int64_def max_int64_def)

lemma breaker_inv_failure:
  assumes "breaker_inv cfg t cb" "in_int64 (cbc_Threshold cfg)" "t \<le> t1" "t1 \<le> t2"
  shows "breaker_inv cfg t2 (RecordFailure t1 t2 cb)"
proof (cases "cb_State cb")
  case StateClosed
  with assms closed_count_Suc [OF assms(1) StateClosed assms(2)]
  show ?thesis
    by (auto simp: breaker_inv_def RecordFailure_def Let_def trip_count_def
        in_int64_def min_int64_def max_int64_def zero_time_def)
qed (use assms in \<open>auto simp: breaker_inv_def RecordFailure_def Let_def wrap64_range zero_time_def\<close>)

lemma breaker_inv_success: "breaker_inv cfg t cb \<Longrightarrow> breaker_inv cfg t (RecordSuccess cb)"
  by (auto simp: breaker_inv_def RecordSuccess_def trip_count_def in_int64_def min_int64_def
      max_int64_def zero_time_def split: CircuitState.splits)

lemma breaker_reach_inv:
  assumes "in_int64 (cbc_Threshold cfg)"
  shows "breaker_reach cfg t cb \<Longrightarrow> breaker_inv cfg t cb"
proof (induction rule: breaker_reach.induct)
  case (failure t cb t')
  then show ?case using assms by (intro breaker_inv_failure) auto
qed (auto intro: breaker_inv_new breaker_inv_tick breaker_inv_allow breaker_inv_success)

subsection \<open>The abstract breaker\<close>

text \<open>
  The breaker without counters, clocks or machine integers: closed with a number of consecutive
  failures, open since an instant, or half-open. Like the code's, this half-open admits without
  limit; the machine the code's comments describe follows below.
\<close>

datatype abs_breaker = AClosed int | AOpen instant | AHalfOpen

fun abs_allow :: "CircuitBrkCfg \<Rightarrow> instant \<Rightarrow> abs_breaker \<Rightarrow> bool \<times> abs_breaker" where
  "abs_allow cfg t (AClosed n) = (True, AClosed n)"
| "abs_allow cfg t (AOpen since) =
     (if since + cbc_Timeout cfg \<le> t then (True, AHalfOpen) else (False, AOpen since))"
| "abs_allow cfg t AHalfOpen = (True, AHalfOpen)"

fun abs_failure :: "CircuitBrkCfg \<Rightarrow> instant \<Rightarrow> abs_breaker \<Rightarrow> abs_breaker" where
  "abs_failure cfg t (AClosed n) = (if n + 1 < trip_count cfg then AClosed (n + 1) else AOpen t)"
| "abs_failure cfg t (AOpen since) = AOpen since"
| "abs_failure cfg t AHalfOpen = AOpen t"

fun abs_success :: "abs_breaker \<Rightarrow> abs_breaker" where
  "abs_success (AClosed n) = AClosed 0"
| "abs_success (AOpen since) = AOpen since"
| "abs_success AHalfOpen = AClosed 0"

fun abs_run :: "CircuitBrkCfg \<Rightarrow> breaker_event list \<Rightarrow> abs_breaker \<Rightarrow> bool list \<times> abs_breaker" where
  "abs_run cfg [] a = ([], a)"
| "abs_run cfg (EvAllow t # evs) a =
     (let (ok, a') = abs_allow cfg t a; (oks, a'') = abs_run cfg evs a' in (ok # oks, a''))"
| "abs_run cfg (EvFailure t1 t2 # evs) a = abs_run cfg evs (abs_failure cfg t2 a)"
| "abs_run cfg (EvSuccess # evs) a = abs_run cfg evs (abs_success a)"

definition abs_of :: "CircuitBreaker \<Rightarrow> abs_breaker" where
  "abs_of cb =
     (case cb_State cb of
        StateClosed \<Rightarrow> AClosed (cb_FailureCount cb)
      | StateOpen \<Rightarrow> AOpen (cb_OpenTime cb)
      | StateHalfOpen \<Rightarrow> AHalfOpen)"

text \<open>The part of the invariant that does not speak of the clock.\<close>

definition count_inv :: "CircuitBrkCfg \<Rightarrow> CircuitBreaker \<Rightarrow> bool" where
  "count_inv cfg cb \<longleftrightarrow> cb_config cb = cfg
     \<and> (cb_State cb = StateClosed \<longrightarrow>
          0 \<le> cb_FailureCount cb \<and> cb_FailureCount cb < trip_count cfg)"

definition cfg_in_range :: "CircuitBrkCfg \<Rightarrow> bool" where
  "cfg_in_range cfg \<longleftrightarrow> in_int64 (cbc_Threshold cfg)
     \<and> min_int64 < cbc_Timeout cfg \<and> cbc_Timeout cfg \<le> max_int64"

lemma breaker_inv_count: "breaker_inv cfg t cb \<Longrightarrow> count_inv cfg cb"
  by (auto simp: breaker_inv_def count_inv_def)

lemma count_inv_new: "count_inv cfg (NewCircuitBreaker cfg)"
  by (simp add: count_inv_def NewCircuitBreaker_def trip_count_def)

lemma count_inv_wrap:
  "count_inv cfg cb \<Longrightarrow> cfg_in_range cfg \<Longrightarrow> cb_State cb = StateClosed \<Longrightarrow>
     wrap64 (cb_FailureCount cb + 1) = cb_FailureCount cb + 1"
  by (rule wrap64_id)
    (auto simp: count_inv_def cfg_in_range_def in_int64_def trip_count_def min_int64_def
      max_int64_def)

lemma allow_refines:
  assumes "count_inv cfg cb" "cfg_in_range cfg"
  shows "abs_allow cfg t (abs_of cb) = map_prod id abs_of (Breaker_Allow t cb)
    \<and> count_inv cfg (snd (Breaker_Allow t cb))"
  using assms
  by (cases "cb_State cb")
    (auto simp: abs_of_def Breaker_Allow_def count_inv_def cfg_in_range_def time_sub_def
      sat64_ge_iff)

lemma failure_refines:
  assumes "count_inv cfg cb" "cfg_in_range cfg"
  shows "abs_failure cfg t2 (abs_of cb) = abs_of (RecordFailure t1 t2 cb)
    \<and> count_inv cfg (RecordFailure t1 t2 cb)"
proof (cases "cb_State cb")
  case StateClosed
  with assms count_inv_wrap [OF assms StateClosed] show ?thesis
    by (auto simp: abs_of_def RecordFailure_def Let_def count_inv_def trip_count_def)
qed (use assms in \<open>auto simp: abs_of_def RecordFailure_def Let_def count_inv_def\<close>)

lemma success_refines:
  assumes "count_inv cfg cb"
  shows "abs_success (abs_of cb) = abs_of (RecordSuccess cb) \<and> count_inv cfg (RecordSuccess cb)"
  using assms
  by (cases "cb_State cb") (auto simp: abs_of_def RecordSuccess_def count_inv_def trip_count_def)

lemma run_refines:
  assumes "count_inv cfg cb" "cfg_in_range cfg"
  shows "abs_run cfg evs (abs_of cb) = map_prod id abs_of (breaker_run evs cb)
    \<and> count_inv cfg (snd (breaker_run evs cb))"
  using assms(1)
proof (induction evs arbitrary: cb)
  case (Cons ev evs)
  have "count_inv cfg (breaker_step ev cb)"
    using allow_refines failure_refines success_refines Cons.prems assms(2) by (cases ev) auto
  note IH = Cons.IH [OF this]
  show ?case
  proof (cases ev)
    case (EvAllow t)
    with IH allow_refines [OF Cons.prems assms(2), of t] show ?thesis
      by (simp add: split_beta prod_eq_iff)
  next
    case (EvFailure t1 t2)
    with IH failure_refines [OF Cons.prems assms(2), of t2 t1] show ?thesis
      by (simp add: split_beta prod_eq_iff)
  next
    case EvSuccess
    with IH success_refines [OF Cons.prems] show ?thesis
      by (simp add: split_beta prod_eq_iff)
  qed
qed simp

lemma abs_of_closed: "abs_of cb = AClosed n \<longleftrightarrow> cb_State cb = StateClosed \<and> cb_FailureCount cb = n"
  by (auto simp: abs_of_def split: CircuitState.splits)

lemma abs_of_open: "abs_of cb = AOpen t \<longleftrightarrow> cb_State cb = StateOpen \<and> cb_OpenTime cb = t"
  by (auto simp: abs_of_def split: CircuitState.splits)

lemma abs_of_half_open: "abs_of cb = AHalfOpen \<longleftrightarrow> cb_State cb = StateHalfOpen"
  by (auto simp: abs_of_def split: CircuitState.splits)

lemma abs_of_new [simp]: "abs_of (NewCircuitBreaker cfg) = AClosed 0"
  by (simp add: abs_of_def NewCircuitBreaker_def)








subsection \<open>Closed, open and half-open runs\<close>

definition failures :: "breaker_event list \<Rightarrow> int" where
  "failures evs = int (length (filter (\<lambda>ev. case ev of EvFailure _ _ \<Rightarrow> True | _ \<Rightarrow> False) evs))"

lemma failures_nonneg: "0 \<le> failures evs"
  by (simp add: failures_def)

lemma abs_run_closed:
  "EvSuccess \<notin> set evs \<Longrightarrow> n + failures evs < trip_count cfg \<Longrightarrow>
     snd (abs_run cfg evs (AClosed n)) = AClosed (n + failures evs)
     \<and> set (fst (abs_run cfg evs (AClosed n))) \<subseteq> {True}"
proof (induction evs arbitrary: n)
  case (Cons ev evs)
  then show ?case
    using failures_nonneg [of evs]
    by (cases ev) (auto simp: split_beta failures_def add.assoc)
qed (simp add: failures_def)

text \<open>An event before an instant: its clock readings are.\<close>

fun event_before :: "instant \<Rightarrow> breaker_event \<Rightarrow> bool" where
  "event_before t (EvAllow t1) \<longleftrightarrow> t1 < t"
| "event_before t (EvFailure t1 t2) \<longleftrightarrow> t2 < t"
| "event_before t EvSuccess \<longleftrightarrow> True"

lemma abs_run_open:
  "\<forall>ev \<in> set evs. event_before (since + cbc_Timeout cfg) ev \<Longrightarrow>
     snd (abs_run cfg evs (AOpen since)) = AOpen since
     \<and> set (fst (abs_run cfg evs (AOpen since))) \<subseteq> {False}"
proof (induction evs)
  case (Cons ev evs)
  then show ?case by (cases ev) (auto simp: split_beta)
qed simp

lemma half_open_allows:
  "cb_State cb = StateHalfOpen \<Longrightarrow>
     breaker_run (map EvAllow ts) cb = (replicate (length ts) True, cb)"
  by (induction ts) (simp_all add: Breaker_Allow_def)

lemma probe_success:
  "cb_State cb = StateHalfOpen \<Longrightarrow> RecordSuccess cb = NewCircuitBreaker (cb_config cb)"
  by (cases cb) (simp add: RecordSuccess_def NewCircuitBreaker_def)

subsection \<open>The store\<close>

lemma GetOrCreate_existing:
  "Mapping.lookup (bs_breakers bs) (breaker_key rid url) = Some cb \<Longrightarrow>
     GetOrCreate rid url cfg bs = (cb, bs)"
  by (simp add: GetOrCreate_def)

lemma GetOrCreate_missing:
  "Mapping.lookup (bs_breakers bs) (breaker_key rid url) = None \<Longrightarrow>
     GetOrCreate rid url cfg bs =
       (NewCircuitBreaker cfg, put_breaker (breaker_key rid url) (NewCircuitBreaker cfg) bs)"
  by (simp add: GetOrCreate_def GetOrCreate_locked_def Let_def)

lemma lookup_put_breaker [simp]:
  "Mapping.lookup (bs_breakers (put_breaker key cb bs)) k =
     (if k = key then Some cb else Mapping.lookup (bs_breakers bs) k)"
  by (simp add: put_breaker_def Mapping.lookup_update')

lemma breaker_key_inj:
  assumes "breaker_key r u = breaker_key r' u'" "CHR '':'' \<notin> set r" "CHR '':'' \<notin> set r'"
  shows "r = r' \<and> u = u'"
proof -
  have "Split (r @ CHR '':'' # u) CHR '':'' = Split (r' @ CHR '':'' # u') CHR '':''"
    using assms(1) by (simp add: breaker_key_def)
  with assms have "r = r'" by (simp add: Split_append_sep)
  with assms(1) show ?thesis by (simp add: breaker_key_def)
qed

text \<open>
  A use of the store: \<open>GetOrCreate\<close>, and one operation on the breaker it returns.
\<close>

record store_use =
  su_route :: string
  su_upstream :: string
  su_cfg :: CircuitBrkCfg
  su_event :: breaker_event

definition use_key :: "store_use \<Rightarrow> string" where
  "use_key su = breaker_key (su_route su) (su_upstream su)"

definition use_store :: "store_use \<Rightarrow> BreakerStore \<Rightarrow> BreakerStore" where
  "use_store su bs =
     (let (cb, bs1) = GetOrCreate (su_route su) (su_upstream su) (su_cfg su) bs
      in put_breaker (use_key su) (breaker_step (su_event su) cb) bs1)"

lemma use_store_other:
  "k \<noteq> use_key su \<Longrightarrow>
     Mapping.lookup (bs_breakers (use_store su bs)) k = Mapping.lookup (bs_breakers bs) k"
  by (auto simp: use_store_def use_key_def GetOrCreate_def GetOrCreate_locked_def Let_def
      split: option.splits)

lemma use_store_same:
  "Mapping.lookup (bs_breakers (use_store su bs)) (use_key su) =
     Some (breaker_step (su_event su)
       (case Mapping.lookup (bs_breakers bs) (use_key su) of
          Some cb \<Rightarrow> cb | None \<Rightarrow> NewCircuitBreaker (su_cfg su)))"
  by (auto simp: use_store_def use_key_def GetOrCreate_def GetOrCreate_locked_def Let_def
      split: option.splits)

lemma snd_breaker_run_Cons [simp]:
  "snd (breaker_run (ev # evs) cb) = snd (breaker_run evs (breaker_step ev cb))"
  by (simp add: split_beta)

lemma store_run_existing:
  "Mapping.lookup (bs_breakers bs) k = Some cb \<Longrightarrow>
     Mapping.lookup (bs_breakers (fold use_store sus bs)) k =
       Some (snd (breaker_run (map su_event (filter (\<lambda>su. use_key su = k) sus)) cb))"
proof (induction sus arbitrary: bs cb)
  case (Cons su sus)
  show ?case
  proof (cases "use_key su = k")
    case True
    with Cons.prems use_store_same [of su bs]
    have "Mapping.lookup (bs_breakers (use_store su bs)) k = Some (breaker_step (su_event su) cb)"
      by simp
    from Cons.IH [OF this] True show ?thesis by (simp del: breaker_run.simps)
  next
    case False
    with Cons.prems use_store_other [of k su bs] Cons.IH [of "use_store su bs" cb]
    show ?thesis by simp
  qed
qed simp

lemma store_run:
  "Mapping.lookup (bs_breakers bs) k = None \<Longrightarrow>
     Mapping.lookup (bs_breakers (fold use_store sus bs)) k =
       (case filter (\<lambda>su. use_key su = k) sus of
          [] \<Rightarrow> None
        | su # rest \<Rightarrow>
            Some (snd (breaker_run (map su_event (su # rest)) (NewCircuitBreaker (su_cfg su)))))"
proof (induction sus arbitrary: bs)
  case (Cons su sus)
  show ?case
  proof (cases "use_key su = k")
    case True
    with Cons.prems use_store_same [of su bs]
    have "Mapping.lookup (bs_breakers (use_store su bs)) k =
        Some (breaker_step (su_event su) (NewCircuitBreaker (su_cfg su)))"
      by simp
    from store_run_existing [OF this] True show ?thesis by (simp del: breaker_run.simps)
  next
    case False
    with Cons.prems use_store_other [of k su bs] Cons.IH [of "use_store su bs"]
    show ?thesis by simp
  qed
qed simp

lemma lookup_Snapshot:
  "Mapping.lookup (Snapshot bs) k = map_option cb_State (Mapping.lookup (bs_breakers bs) k)"
  by (simp add: Snapshot_def StateSnapshot_def lookup_map_values)

subsection \<open>Properties\<close>


definition sample_breaker_cfg :: CircuitBrkCfg where
  "sample_breaker_cfg = \<lparr>cbc_Enabled = True, cbc_Threshold = 2, cbc_Timeout = 100,
     cbc_HalfOpenMaxReqs = 1\<rparr>"

lemma sample_breaker_range: "cfg_in_range sample_breaker_cfg"
  by (simp add: cfg_in_range_def sample_breaker_cfg_def in_int64_def min_int64_def max_int64_def)


text \<open>
  In every breaker the program can reach, the opening and last-failure instants never lie
  in the future, a closed breaker has seen fewer consecutive failures than trip it and has no
  opening instant, and a half-open one starts from a clean count.
\<close>

theorem breaker_invariant:
  assumes "breaker_reach cfg t cb" "in_int64 (cbc_Threshold cfg)"
  shows "cb_config cb = cfg \<and> cb_OpenTime cb \<le> t \<and> cb_LastFailure cb \<le> t
    \<and> (cb_State cb = StateClosed \<longrightarrow> 0 \<le> cb_FailureCount cb
         \<and> cb_FailureCount cb < max 1 (cbc_Threshold cfg) \<and> cb_OpenTime cb = zero_time)
    \<and> (cb_State cb = StateHalfOpen \<longrightarrow> cb_FailureCount cb = 0 \<and> cb_LastFailure cb = zero_time)"
  using breaker_reach_inv [OF assms(2,1)] by (auto simp: breaker_inv_def trip_count_def)

theorem breaker_invariant_witness:
  "cb_OpenTime (RecordFailure 5 6 (RecordFailure 4 5 (NewCircuitBreaker sample_breaker_cfg))) \<le> 6"
proof -
  have "breaker_reach sample_breaker_cfg 4 (NewCircuitBreaker sample_breaker_cfg)"
    by (rule breaker_reach.new) (simp add: zero_time_def)
  then have "breaker_reach sample_breaker_cfg 6
      (RecordFailure 5 6 (RecordFailure 4 5 (NewCircuitBreaker sample_breaker_cfg)))"
    by (intro breaker_reach.failure) simp_all
  from breaker_invariant [OF this] show ?thesis
    by (simp add: sample_breaker_cfg_def in_int64_def min_int64_def max_int64_def)
qed

text \<open>
  Without a recorded success, a new breaker admits every request and stays closed as long
  as fewer failures than the threshold were recorded, and the failure that makes their number
  the threshold opens it at once, at the instant of that failure.
\<close>

theorem breaker_trips_exactly:
  assumes "cfg_in_range cfg" "EvSuccess \<notin> set evs" "failures evs < trip_count cfg"
  shows "set (fst (breaker_run evs (NewCircuitBreaker cfg))) \<subseteq> {True}
    \<and> cb_State (snd (breaker_run evs (NewCircuitBreaker cfg))) = StateClosed
    \<and> cb_FailureCount (snd (breaker_run evs (NewCircuitBreaker cfg))) = failures evs
    \<and> (let cb' = RecordFailure t1 t2 (snd (breaker_run evs (NewCircuitBreaker cfg)))
       in if failures evs + 1 = trip_count cfg
          then cb_State cb' = StateOpen \<and> cb_OpenTime cb' = t2
          else cb_State cb' = StateClosed)"
proof -
  let ?cb = "snd (breaker_run evs (NewCircuitBreaker cfg))"
  have run: "fst (breaker_run evs (NewCircuitBreaker cfg)) = fst (abs_run cfg evs (AClosed 0))"
      "abs_of ?cb = snd (abs_run cfg evs (AClosed 0))" "count_inv cfg ?cb"
    using run_refines [OF count_inv_new assms(1), of evs] by (simp_all add: prod_eq_iff)
  have abs: "snd (abs_run cfg evs (AClosed 0)) = AClosed (failures evs)"
      "set (fst (abs_run cfg evs (AClosed 0))) \<subseteq> {True}"
    using abs_run_closed [OF assms(2), of 0 cfg] assms(3) by simp_all
  have "abs_of (RecordFailure t1 t2 ?cb) = abs_failure cfg t2 (AClosed (failures evs))"
    using failure_refines [OF run(3) assms(1), of t2 t1] run(2) abs(1) by simp
  then show ?thesis
    using run abs assms(3)
    by (auto simp: Let_def abs_of_closed abs_of_open split: if_splits)
qed

theorem breaker_trips_exactly_witness:
  "cb_State (RecordFailure 7 8 (snd (breaker_run [EvAllow 1, EvFailure 2 3]
     (NewCircuitBreaker sample_breaker_cfg)))) = StateOpen"
  using breaker_trips_exactly [OF sample_breaker_range, of "[EvAllow 1, EvFailure 2 3]" 7 8]
  by (simp add: Let_def failures_def trip_count_def sample_breaker_cfg_def)

text \<open>
  C18: An open breaker rejects every request and stays open, whatever is recorded, until its
  timeout has passed since it opened; the first request after that is let through as a probe;
  a successful probe leaves the breaker exactly as new, a failed one opens it again from the
  instant of that failure.
\<close>

theorem breaker_open_until_timeout:
  assumes "cfg_in_range cfg" "cb_config cb = cfg" "cb_State cb = StateOpen"
    and "\<forall>ev \<in> set evs. event_before (cb_OpenTime cb + cbc_Timeout cfg) ev"
    and "cb_OpenTime cb + cbc_Timeout cfg \<le> t"
  shows "set (fst (breaker_run evs cb)) \<subseteq> {False}
    \<and> (let cb' = snd (breaker_run evs cb); (ok, probe) = Breaker_Allow t cb'
       in cb_State cb' = StateOpen \<and> cb_OpenTime cb' = cb_OpenTime cb
          \<and> ok \<and> cb_State probe = StateHalfOpen
          \<and> RecordSuccess probe = NewCircuitBreaker cfg
          \<and> cb_State (RecordFailure t1 t2 probe) = StateOpen
          \<and> cb_OpenTime (RecordFailure t1 t2 probe) = t2)"
proof -
  let ?cb = "snd (breaker_run evs cb)"
  have inv: "count_inv cfg cb" and abs: "abs_of cb = AOpen (cb_OpenTime cb)"
    using assms(2,3) by (simp_all add: count_inv_def abs_of_def)
  have run: "fst (breaker_run evs cb) = fst (abs_run cfg evs (AOpen (cb_OpenTime cb)))"
      "abs_of ?cb = snd (abs_run cfg evs (AOpen (cb_OpenTime cb)))" "count_inv cfg ?cb"
    using run_refines [OF inv assms(1), of evs] by (simp_all add: prod_eq_iff abs)
  then have open_cb: "cb_State ?cb = StateOpen" "cb_OpenTime ?cb = cb_OpenTime cb"
    using abs_run_open [OF assms(4)] by (simp_all add: abs_of_open)
  obtain ok probe where allow: "Breaker_Allow t ?cb = (ok, probe)" by force
  have "abs_allow cfg t (abs_of ?cb) = (ok, abs_of probe)" "count_inv cfg probe"
    using allow_refines [OF run(3) assms(1), of t] by (simp_all add: allow)
  then have probe: "ok" "cb_State probe = StateHalfOpen" "cb_config probe = cfg"
    using open_cb assms(5) by (simp_all add: abs_of_def count_inv_def split: CircuitState.splits)
  then show ?thesis
    using run(1) abs_run_open [OF assms(4)] open_cb allow probe_success [of probe]
    by (simp add: RecordFailure_def Let_def)
qed

theorem breaker_open_until_timeout_witness:
  "set (fst (breaker_run [EvAllow 50, EvSuccess, EvAllow 101]
     ((NewCircuitBreaker sample_breaker_cfg)\<lparr>cb_State := StateOpen, cb_OpenTime := 2\<rparr>)))
     \<subseteq> {False}"
  using breaker_open_until_timeout [OF sample_breaker_range,
      of "(NewCircuitBreaker sample_breaker_cfg)\<lparr>cb_State := StateOpen, cb_OpenTime := 2\<rparr>"
        "[EvAllow 50, EvSuccess, EvAllow 101]" 102]
  by (auto simp: NewCircuitBreaker_def sample_breaker_cfg_def)

text \<open>
  A half-open breaker lets every request through until one of them reports back: the
  configured \<open>half_open_max_requests\<close> is never consulted.
\<close>

theorem half_open_unlimited:
  "fst (breaker_run (map EvAllow ts)
      ((NewCircuitBreaker cfg)\<lparr>cb_State := StateHalfOpen,
         cb_config := cfg\<lparr>cbc_HalfOpenMaxReqs := m\<rparr>\<rparr>))
    = replicate (length ts) True"
  by (simp add: half_open_allows)

text \<open>
  Reports are not tied to the request that asked: a request let through while the breaker was
  closed, whose success comes in when a probe is already out, closes the breaker before the
  probe reports.
\<close>

lemma late_success_closes:
  "let evs = [EvAllow 1, EvFailure 2 2, EvFailure 3 3, EvAllow 103, EvSuccess];
       (answers, cb) = breaker_run evs (NewCircuitBreaker sample_breaker_cfg)
   in answers = [True, True] \<and> cb_State cb = StateClosed"
  by (simp add: sample_breaker_cfg_def NewCircuitBreaker_def RecordFailure_def RecordSuccess_def
      Breaker_Allow_def wrap64_def time_sub_def sat64_def max_int64_def min_int64_def)

text \<open>
  C19: In the store each breaker behaves as if it were alone: after any interleaving of uses
  of the store, the breaker under a key is a new breaker with the configuration of the key's
  first use, run on exactly the events addressed to that key; and a goroutine that missed the
  key under the read lock gets, under the write lock, the breaker another one put there
  meanwhile. Keys of different routes differ when no route ID contains a colon.
\<close>

theorem breaker_store_isolated:
  "Mapping.lookup (bs_breakers (fold use_store sus NewBreakerStore)) k =
     (case filter (\<lambda>su. use_key su = k) sus of
        [] \<Rightarrow> None
      | su # rest \<Rightarrow>
          Some (snd (breaker_run (map su_event (su # rest)) (NewCircuitBreaker (su_cfg su)))))
   \<and> (Mapping.lookup (bs_breakers bs) key = Some cb \<longrightarrow> GetOrCreate_locked key cfg bs = (cb, bs))
   \<and> (breaker_key r u = breaker_key r' u' \<and> CHR '':'' \<notin> set r \<and> CHR '':'' \<notin> set r' \<longrightarrow>
        r = r' \<and> u = u')
   \<and> breaker_key ''a'' ''b:c'' = breaker_key ''a:b'' ''c''"
proof -
  have "breaker_key ''a'' ''b:c'' = breaker_key ''a:b'' ''c''"
    by (simp add: breaker_key_def)
  then show ?thesis
    using store_run [of NewBreakerStore k sus] breaker_key_inj [of r u r' u']
    by (simp add: NewBreakerStore_def GetOrCreate_locked_def del: breaker_run.simps)
qed

theorem breaker_store_isolated_witness:
  "Mapping.lookup (bs_breakers (fold use_store
     [\<lparr>su_route = ''r'', su_upstream = ''u'', su_cfg = sample_breaker_cfg, su_event = EvSuccess\<rparr>]
     NewBreakerStore)) ''r:u'' = Some (NewCircuitBreaker sample_breaker_cfg)"
  using breaker_store_isolated [of
      "[\<lparr>su_route = ''r'', su_upstream = ''u'', su_cfg = sample_breaker_cfg, su_event = EvSuccess\<rparr>]"
      "''r:u''", THEN conjunct1]
  by (simp add: use_key_def breaker_key_def RecordSuccess_def NewCircuitBreaker_def)

end
