(* ===== verification/Load_Balance.thy ===== *)
theory Load_Balance
  imports Gateway_Prelude
begin

text \<open>
  Package \<open>balancer\<close> (\<open>internal/balancer/\<close>): the interface \<open>Balancer\<close> and its two
  implementations.

  \<open>Balancer\<close> is the locale \<open>load_balancer\<close>: from a state that has served \<open>b\<close> calls,
  \<open>Next\<close> on a non-empty list returns an element of the list. Round robin keeps the
  \<open>uint64\<close> counter as a 64-bit word; least connections keeps the map of counts with Go's
  default 0 and \<open>int64\<close> arithmetic. The mutexes make each call atomic. A division by zero
  and a nil dereference are panic values. The endpoint type is a parameter, with the
  printing of an endpoint (\<open>URL.String\<close>) an argument of least connections.
\<close>

subsection \<open>The interface\<close>

text \<open>A sequence of calls of \<open>Next\<close>, each with its own list of endpoints.\<close>

fun picks :: "('s \<Rightarrow> 'e list \<Rightarrow> (go_panic + 'e) \<times> 's) \<Rightarrow> 's \<Rightarrow> 'e list list
    \<Rightarrow> (go_panic + 'e) list \<times> 's" where
  "picks nx s [] = ([], s)"
| "picks nx s (eps # epss) =
     (let (r, s') = nx s eps; (rs, s'') = picks nx s' epss in (r # rs, s''))"

locale load_balancer =
  fixes next_ep :: "'s \<Rightarrow> 'e list \<Rightarrow> (go_panic + 'e) \<times> 's"
    and inv :: "nat \<Rightarrow> 's \<Rightarrow> bool"
  assumes next_ok: "inv b s \<Longrightarrow> b < nat max_int64 \<Longrightarrow> eps \<noteq> [] \<Longrightarrow>
    \<exists>e s'. next_ep s eps = (Inr e, s') \<and> e \<in> set eps \<and> inv (Suc b) s'"
begin

lemma next_member:
  assumes "inv b s" "b < nat max_int64" "eps \<noteq> []"
  shows "\<exists>e \<in> set eps. fst (next_ep s eps) = Inr e"
  using next_ok [OF assms] by auto

lemma picks_ok:
  assumes "inv b s" "b + length epss \<le> nat max_int64" "[] \<notin> set epss"
  shows "list_all2 (\<lambda>eps r. \<exists>e \<in> set eps. r = Inr e) epss (fst (picks next_ep s epss))
    \<and> inv (b + length epss) (snd (picks next_ep s epss))"
  using assms
proof (induction epss arbitrary: b s)
  case (Cons eps epss)
  then obtain e s' where step: "next_ep s eps = (Inr e, s')" "e \<in> set eps" "inv (Suc b) s'"
    using next_ok [of b s eps] by auto
  with Cons.IH [of "Suc b" s'] Cons.prems show ?case
    by (auto simp: split_beta)
qed simp

end

subsection \<open>RoundRobin\<close>

record RoundRobin =
  rr_counter :: "64 word"

definition NewRoundRobin :: RoundRobin where
  "NewRoundRobin = \<lparr>rr_counter = 0\<rparr>"

text \<open>\<open>rr.counter % n\<close> panics for an empty list, before the counter changes.\<close>

definition RR_Next :: "RoundRobin \<Rightarrow> 'e list \<Rightarrow> (go_panic + 'e) \<times> RoundRobin" where
  "RR_Next rr endpoints =
     (if length endpoints = 0 then (Inl DivideByZero, rr)
      else let i = unat (rr_counter rr) mod length endpoints
           in (Inr (endpoints ! i), rr\<lparr>rr_counter := rr_counter rr + 1\<rparr>))"

interpretation rr: load_balancer RR_Next "\<lambda>_ _. True"
  by unfold_locales (auto simp: RR_Next_def Let_def)

lemma RR_Next_simp:
  "eps \<noteq> [] \<Longrightarrow> RR_Next rr eps =
     (Inr (eps ! (unat (rr_counter rr) mod length eps)), \<lparr>rr_counter = rr_counter rr + 1\<rparr>)"
  by (simp add: RR_Next_def Let_def)

lemma unat_counter_Suc:
  "unat (w :: 64 word) + 1 < 2 ^ 64 \<Longrightarrow> unat (w + 1) = Suc (unat w)"
  by (simp add: unat_word_ariths)

lemma RR_picks:
  assumes "eps \<noteq> []" "unat (rr_counter rr) + m \<le> 2 ^ 64"
  shows "fst (picks RR_Next rr (replicate m eps))
    = map (\<lambda>k. Inr (eps ! ((unat (rr_counter rr) + k) mod length eps))) [0..<m]"
  using assms
proof (induction m arbitrary: rr)
  case (Suc m)
  show ?case
  proof (cases m)
    case 0
    with Suc.prems show ?thesis by (simp add: RR_Next_simp)
  next
    case (Suc m')
    then have "unat (rr_counter rr + 1) = Suc (unat (rr_counter rr))"
      using Suc.prems by (intro unat_counter_Suc) simp
    then show ?thesis
      using Suc.IH [of "\<lparr>rr_counter = rr_counter rr + 1\<rparr>"] Suc.prems
      by (simp add: RR_Next_simp split_beta upt_conv_Cons map_Suc_upt [symmetric] comp_def
          del: upt_Suc map_Suc_upt)
  qed
qed simp

lemma nth_rotation:
  "eps \<noteq> [] \<Longrightarrow> map (\<lambda>k. eps ! ((c + k) mod length eps)) [0..<length eps] = rotate c eps"
  by (intro nth_equalityI) (simp_all add: nth_rotate)

lemma picks_snoc:
  "picks nx st (epss @ [eps]) =
     (fst (picks nx st epss) @ [fst (nx (snd (picks nx st epss)) eps)], snd (nx (snd (picks nx st epss)) eps))"
  by (induction epss arbitrary: st) (simp_all add: split_beta)

lemma count_distinct: "distinct xs \<Longrightarrow> count_list xs x = (if x \<in> set xs then 1 else 0)"
  by (induction xs) auto

text \<open>The first \<open>m\<close> places of a cycle hold every element as often, up to one time.\<close>

lemma cycle_counts:
  assumes "distinct eps" "e \<in> set eps"
  shows "count_list (map (\<lambda>k. eps ! ((c + k) mod length eps)) [0..<m]) e \<in>
    {m div length eps..m div length eps + 1}"
proof (induction m rule: less_induct)
  case (less m)
  let ?n = "length eps" and ?f = "\<lambda>k. eps ! ((c + k) mod length eps)"
  have n: "eps \<noteq> []" "0 < ?n" using assms(2) by auto
  show ?case
  proof (cases "m < ?n")
    case True
    have "map ?f [0..<m] = take m (map ?f [0..<?n])" using True by (simp add: take_map take_upt)
    then have "distinct (map ?f [0..<m])" using assms(1) by (simp add: nth_rotation [OF n(1)])
    with True show ?thesis by (simp add: count_distinct)
  next
    case False
    then obtain m' where m: "m = ?n + m'" using le_Suc_ex linorder_not_less by blast
    have "[0..<m] = [0..<?n] @ map (\<lambda>k. k + ?n) [0..<m']"
      unfolding m using upt_add_eq_append [of 0 ?n m'] map_add_upt [of ?n m'] by (simp add: add.commute)
    then have "map ?f [0..<m] = rotate c eps @ map ?f [0..<m']"
      using nth_rotation [OF n(1), of c] by (simp add: comp_def add.assoc [symmetric])
    moreover have "count_list (rotate c eps) e = 1" using assms by (simp add: count_distinct)
    ultimately show ?thesis using less.IH [of m'] n(2) by (simp add: m)
  qed
qed

subsection \<open>LeastConnections\<close>

record LeastConnections =
  lc_conns :: "string \<rightharpoonup> int"


fun lc_loop :: "(string \<rightharpoonup> int) \<Rightarrow> ('e \<Rightarrow> string) \<Rightarrow> 'e option \<Rightarrow> int \<Rightarrow> 'e list \<Rightarrow> 'e option" where
  "lc_loop conns str best bestCount [] = best"
| "lc_loop conns str best bestCount (ep # eps) =
     (let count = get0 conns (str ep)
      in if count < bestCount then lc_loop conns str (Some ep) count eps
         else lc_loop conns str best bestCount eps)"

definition LC_Next :: "('e \<Rightarrow> string) \<Rightarrow> LeastConnections \<Rightarrow> 'e list
    \<Rightarrow> (go_panic + 'e) \<times> LeastConnections" where
  "LC_Next str lc endpoints =
     (case lc_loop (lc_conns lc) str None max_int64 endpoints of
        None \<Rightarrow> (Inl NilDereference, lc)
      | Some best \<Rightarrow>
          (Inr best,
           lc\<lparr>lc_conns := (lc_conns lc)(str best \<mapsto> wrap64 (get0 (lc_conns lc) (str best) + 1))\<rparr>))"

definition LC_Done :: "('e \<Rightarrow> string) \<Rightarrow> LeastConnections \<Rightarrow> 'e \<Rightarrow> LeastConnections" where
  "LC_Done str lc endpoint =
     (let key = str endpoint;
          lc1 = lc\<lparr>lc_conns := (lc_conns lc)(key \<mapsto> wrap64 (get0 (lc_conns lc) key - 1))\<rparr>
      in if get0 (lc_conns lc1) key < 0 then lc1\<lparr>lc_conns := (lc_conns lc1)(key \<mapsto> 0)\<rparr> else lc1)"

text \<open>The counts after at most \<open>b\<close> calls of \<open>Next\<close>.\<close>

definition lc_inv :: "nat \<Rightarrow> LeastConnections \<Rightarrow> bool" where
  "lc_inv b lc \<longleftrightarrow> (\<forall>k. 0 \<le> get0 (lc_conns lc) k \<and> get0 (lc_conns lc) k \<le> int b)"

lemma lc_loop_none:
  "\<forall>x \<in> set eps. c \<le> get0 conns (str x) \<Longrightarrow> lc_loop conns str best c eps = best"
  by (induction eps) (auto simp: Let_def)

lemma lc_loop_least:
  assumes "get0 conns (str e) < c"
    and "\<forall>x \<in> set before. get0 conns (str e) < get0 conns (str x)"
    and "\<forall>x \<in> set after. get0 conns (str e) \<le> get0 conns (str x)"
  shows "lc_loop conns str best c (before @ e # after) = Some e"
  using assms
proof (induction before arbitrary: best c)
  case Nil
  then show ?case by (simp add: Let_def lc_loop_none)
next
  case (Cons x before)
  then show ?case by (simp add: Let_def)
qed

text \<open>The first element of least count splits the list.\<close>

lemma first_least:
  fixes f :: "'e \<Rightarrow> int"
  assumes "eps \<noteq> []"
  obtains before e after where "eps = before @ e # after"
    "\<forall>x \<in> set before. f e < f x" "\<forall>x \<in> set after. f e \<le> f x"
proof -
  define m where "m = Min (f ` set eps)"
  from assms have "m \<in> f ` set eps" unfolding m_def by (intro Min_in) simp_all
  then have "\<exists>x \<in> set eps. f x = m" by auto
  from split_list_first_prop [OF this]
  obtain before e after where split: "eps = before @ e # after" "f e = m"
    "\<forall>x \<in> set before. f x \<noteq> m"
    by blast
  have le: "m \<le> f x" if "x \<in> set eps" for x using that by (simp add: m_def)
  have "\<forall>x \<in> set before. f e < f x" "\<forall>x \<in> set after. f e \<le> f x"
    using le split by (auto intro!: order.not_eq_order_implies_strict)
  with split show thesis using that by blast
qed

lemma lc_inv_count: "lc_inv b lc \<Longrightarrow> b < nat max_int64 \<Longrightarrow> get0 (lc_conns lc) k < max_int64"
  by (auto simp: lc_inv_def dest!: spec [of _ k])

lemma LC_Next_spec:
  assumes "lc_inv b lc" "b < nat max_int64" "eps \<noteq> []"
  obtains before e after where "eps = before @ e # after"
    "\<forall>x \<in> set before. get0 (lc_conns lc) (str e) < get0 (lc_conns lc) (str x)"
    "\<forall>x \<in> set after. get0 (lc_conns lc) (str e) \<le> get0 (lc_conns lc) (str x)"
    "LC_Next str lc eps = (Inr e, \<lparr>lc_conns = (lc_conns lc)(str e \<mapsto> get0 (lc_conns lc) (str e) + 1)\<rparr>)"
proof -
  obtain before e after where split: "eps = before @ e # after"
    "\<forall>x \<in> set before. get0 (lc_conns lc) (str e) < get0 (lc_conns lc) (str x)"
    "\<forall>x \<in> set after. get0 (lc_conns lc) (str e) \<le> get0 (lc_conns lc) (str x)"
    using first_least [OF assms(3), of "\<lambda>x. get0 (lc_conns lc) (str x)"] by blast
  have lt: "get0 (lc_conns lc) (str e) < max_int64" and ge: "0 \<le> get0 (lc_conns lc) (str e)"
    using assms lc_inv_count by (auto simp: lc_inv_def)
  then have "in_int64 (get0 (lc_conns lc) (str e) + 1)"
    by (simp add: in_int64_def min_int64_def)
  then have "LC_Next str lc eps =
      (Inr e, \<lparr>lc_conns = (lc_conns lc)(str e \<mapsto> get0 (lc_conns lc) (str e) + 1)\<rparr>)"
    using lc_loop_least [OF lt split(2,3)] split(1) by (simp add: LC_Next_def wrap64_id)
  with split show thesis using that by blast
qed

interpretation lc: load_balancer "LC_Next str" lc_inv for str :: "'e \<Rightarrow> string"
proof
  fix b s and eps :: "'e list"
  assume pre: "lc_inv b s" "b < nat max_int64" "eps \<noteq> []"
  obtain before e after where spec: "eps = before @ e # after"
    "LC_Next str s eps = (Inr e, \<lparr>lc_conns = (lc_conns s)(str e \<mapsto> get0 (lc_conns s) (str e) + 1)\<rparr>)"
    using LC_Next_spec [OF pre, of str] by blast
  moreover have "lc_inv (Suc b) \<lparr>lc_conns = (lc_conns s)(str e \<mapsto> get0 (lc_conns s) (str e) + 1)\<rparr>"
    using pre(1) by (simp add: lc_inv_def add.commute add_increasing)
  ultimately show "\<exists>e s'. LC_Next str s eps = (Inr e, s') \<and> e \<in> set eps \<and> lc_inv (Suc b) s'"
    by auto
qed

lemma LC_Done_count:
  assumes "lc_inv b lc" "b < nat max_int64"
  shows "get0 (lc_conns (LC_Done str lc e)) k =
    (if k = str e then max 0 (get0 (lc_conns lc) k - 1) else get0 (lc_conns lc) k)"
proof -
  have "in_int64 (get0 (lc_conns lc) (str e) - 1)"
    using assms lc_inv_count [OF assms, of "str e"]
    by (auto simp: in_int64_def lc_inv_def min_int64_def dest!: spec [of _ "str e"])
  then show ?thesis by (auto simp: LC_Done_def Let_def wrap64_id)
qed

lemma LC_Done_inv:
  assumes "lc_inv b lc" "b < nat max_int64"
  shows "lc_inv b (LC_Done str lc e)"
  unfolding lc_inv_def
proof
  fix k
  have "0 \<le> get0 (lc_conns lc) k" "get0 (lc_conns lc) k \<le> int b"
    using assms(1) by (simp_all add: lc_inv_def)
  then show "0 \<le> get0 (lc_conns (LC_Done str lc e)) k \<and> get0 (lc_conns (LC_Done str lc e)) k \<le> int b"
    by (auto simp: LC_Done_count [OF assms])
qed




subsection \<open>Properties\<close>

text \<open>
  Until its counter wraps, round robin walks the endpoints in cyclic order: \<open>k\<close> rounds
  over a list pick exactly \<open>k\<close> copies of its rotation by the counter, so every endpoint is
  picked equally often. At the wrap of the \<open>uint64\<close> counter the cycle breaks when the number
  of endpoints does not divide \<open>2^64\<close>: with three of them the first is picked twice in a
  row.
\<close>

theorem RR_rotation:
  assumes "eps \<noteq> []" "unat (rr_counter rr) + k * length eps \<le> 2 ^ 64"
  shows "fst (picks RR_Next rr (replicate (k * length eps) eps))
      = concat (replicate k (map Inr (rotate (unat (rr_counter rr)) eps)))
    \<and> fst (picks RR_Next \<lparr>rr_counter = 0xFFFFFFFFFFFFFFFF\<rparr> [[a, b, c], [a, b, c]])
      = [Inr a, Inr a]"
proof
  let ?n = "length eps" and ?c = "unat (rr_counter rr)"
  have rounds: "map (\<lambda>i. Inr (eps ! ((?c + i) mod ?n))) [0..<k * ?n]
      = concat (replicate k (map Inr (rotate ?c eps)))" for k
  proof (induction k)
    case (Suc k)
    have "[0..<Suc k * ?n] = [0..<?n] @ map (\<lambda>i. i + ?n) [0..<k * ?n]"
      using upt_add_eq_append [of 0 ?n "k * ?n"] map_add_upt [of ?n "k * ?n"]
      by (simp add: add.commute)
    then show ?case
      using Suc.IH nth_rotation [OF assms(1), of ?c, symmetric]
      by (simp add: comp_def add.assoc [symmetric])
  qed simp
  show "fst (picks RR_Next rr (replicate (k * ?n) eps))
      = concat (replicate k (map Inr (rotate ?c eps)))"
    using RR_picks [OF assms] rounds by simp
  show "fst (picks RR_Next \<lparr>rr_counter = 0xFFFFFFFFFFFFFFFF\<rparr> [[a, b, c], [a, b, c]])
      = [Inr a, Inr a]"
    by (simp add: RR_Next_simp)
qed

theorem RR_rotation_witness:
  "fst (picks RR_Next \<lparr>rr_counter = 1\<rparr> [[10 :: nat, 20], [10, 20]]) = [Inr 20, Inr 10]"
  using RR_rotation [of "[10 :: nat, 20]" "\<lparr>rr_counter = 1\<rparr>" 1, THEN conjunct1] by simp



end
