(* ===== verification/Discovery_Registry.thy ===== *)
theory Discovery_Registry
  imports Gateway_Config Http_Model
begin

text \<open>
  Package \<open>discovery\<close> (\<open>internal/discovery/discovery.go\<close>): the static registry built from
  the route table. \<open>url.Parse\<close> is the argument \<open>parse\<close>. The registry's map is keyed by
  route ID and filled in route order, so a later route with the same ID overwrites the
  entry of an earlier one.
\<close>

record StaticRegistry =
  reg_entries :: "string \<rightharpoonup> URL list"

text \<open>\<open>ParseUpstream url id err\<close>: upstream \<open>url\<close> of route \<open>id\<close> is malformed.\<close>

datatype 'e registry_error = ParseUpstream string string 'e

datatype discovery_error = NoEndpointsFound string

fun parse_upstreams ::
  "(string \<Rightarrow> 'e + URL) \<Rightarrow> string \<Rightarrow> URL list \<Rightarrow> Upstream list \<Rightarrow> 'e registry_error + URL list" where
  "parse_upstreams parse rid eps [] = Inr eps"
| "parse_upstreams parse rid eps (u # us) =
     (case parse (u_URL u) of
        Inl err \<Rightarrow> Inl (ParseUpstream (u_URL u) rid err)
      | Inr parsed \<Rightarrow> parse_upstreams parse rid (eps @ [parsed]) us)"

fun registry_loop ::
  "(string \<Rightarrow> 'e + URL) \<Rightarrow> (string \<rightharpoonup> URL list) \<Rightarrow> Route list
     \<Rightarrow> 'e registry_error + (string \<rightharpoonup> URL list)" where
  "registry_loop parse entries [] = Inr entries"
| "registry_loop parse entries (route # routes) =
     (case parse_upstreams parse (rt_ID route) [] (rt_Upstreams route) of
        Inl err \<Rightarrow> Inl err
      | Inr eps \<Rightarrow> registry_loop parse (entries(rt_ID route \<mapsto> eps)) routes)"

definition NewStaticRegistry ::
  "(string \<Rightarrow> 'e + URL) \<Rightarrow> Route list \<Rightarrow> 'e registry_error + StaticRegistry" where
  "NewStaticRegistry parse routes =
     (case registry_loop parse Map.empty routes of
        Inl err \<Rightarrow> Inl err
      | Inr entries \<Rightarrow> Inr \<lparr>reg_entries = entries\<rparr>)"

definition GetEndpoints :: "StaticRegistry \<Rightarrow> string \<Rightarrow> discovery_error + URL list" where
  "GetEndpoints s routeID =
     (case reg_entries s routeID of
        None \<Rightarrow> Inl (NoEndpointsFound routeID)
      | Some eps \<Rightarrow> Inr eps)"

subsection \<open>Lemmas\<close>

text \<open>The endpoints of a route whose upstreams all parse, in order.\<close>

definition endpoints_of :: "(string \<Rightarrow> 'e + URL) \<Rightarrow> Route \<Rightarrow> URL list" where
  "endpoints_of parse r = map (\<lambda>u. projr (parse (u_URL u))) (rt_Upstreams r)"

definition url_ok :: "(string \<Rightarrow> 'e + URL) \<Rightarrow> Upstream \<Rightarrow> bool" where
  "url_ok parse u \<longleftrightarrow> \<not> isl (parse (u_URL u))"

lemma url_ok_simps:
  "parse (u_URL u) = Inl e \<Longrightarrow> \<not> url_ok parse u"
  "parse (u_URL u) = Inr p \<Longrightarrow> url_ok parse u"
  by (simp_all add: url_ok_def)

lemma parse_upstreams_ok:
  "\<forall>u \<in> set us. url_ok parse u \<Longrightarrow>
     parse_upstreams parse rid eps us = Inr (eps @ map (\<lambda>u. projr (parse (u_URL u))) us)"
  by (induction us arbitrary: eps) (auto simp: url_ok_def split: sum.splits)

lemma parse_upstreams_err:
  "parse_upstreams parse rid eps us = Inl e \<longleftrightarrow>
     (\<exists>before u after. us = before @ u # after
        \<and> ((\<forall>v \<in> set before. url_ok parse v)
           \<and> (\<exists>err. parse (u_URL u) = Inl err \<and> e = ParseUpstream (u_URL u) rid err)))"
proof (induction us arbitrary: eps)
  case (Cons u us)
  then show ?case
    unfolding ex_split_Cons
    by (cases "parse (u_URL u)") (auto simp: url_ok_simps)
qed simp

definition route_urls_ok :: "(string \<Rightarrow> 'e + URL) \<Rightarrow> Route \<Rightarrow> bool" where
  "route_urls_ok parse r \<longleftrightarrow> (\<forall>u \<in> set (rt_Upstreams r). url_ok parse u)"

lemma parse_upstreams_route:
  "route_urls_ok parse r \<Longrightarrow>
     parse_upstreams parse (rt_ID r) [] (rt_Upstreams r) = Inr (endpoints_of parse r)"
  by (simp add: route_urls_ok_def endpoints_of_def parse_upstreams_ok)

lemma parse_upstreams_bad:
  assumes "\<not> route_urls_ok parse r"
  shows "\<exists>e. parse_upstreams parse rid eps (rt_Upstreams r) = Inl e"
proof -
  from assms have "\<exists>u \<in> set (rt_Upstreams r). \<not> url_ok parse u" by (auto simp: route_urls_ok_def)
  from split_list_first_prop [OF this]
  obtain before u after where "rt_Upstreams r = before @ u # after" "\<not> url_ok parse u"
    "\<forall>v \<in> set before. url_ok parse v"
    by blast
  then show ?thesis
    unfolding parse_upstreams_err by (auto simp: url_ok_def isl_def)
qed

lemma registry_loop_ok:
  "\<forall>r \<in> set routes. route_urls_ok parse r \<Longrightarrow>
     registry_loop parse entries routes =
       Inr (entries ++ map_of (rev (map (\<lambda>r. (rt_ID r, endpoints_of parse r)) routes)))"
  by (induction routes arbitrary: entries)
    (simp_all add: parse_upstreams_route map_add_def fun_eq_iff split: option.split)

lemma registry_loop_err:
  "registry_loop parse entries routes = Inl e \<longleftrightarrow>
     (\<exists>before r after. routes = before @ r # after
        \<and> ((\<forall>r' \<in> set before. route_urls_ok parse r')
           \<and> parse_upstreams parse (rt_ID r) [] (rt_Upstreams r) = Inl e))"
proof (induction routes arbitrary: entries)
  case (Cons r routes)
  show ?case
    unfolding ex_split_Cons
    using Cons.IH parse_upstreams_route [of parse r] parse_upstreams_bad [of parse r "rt_ID r" "[]"]
    by (cases "route_urls_ok parse r") auto
qed simp

lemma registry_ok_iff:
  "(\<exists>reg. NewStaticRegistry parse routes = Inr reg) \<longleftrightarrow> (\<forall>r \<in> set routes. route_urls_ok parse r)"
proof
  assume "\<exists>reg. NewStaticRegistry parse routes = Inr reg"
  then have no_err: "registry_loop parse Map.empty routes \<noteq> Inl e" for e
    by (auto simp: NewStaticRegistry_def)
  show "\<forall>r \<in> set routes. route_urls_ok parse r"
  proof (rule ccontr)
    assume "\<not> (\<forall>r \<in> set routes. route_urls_ok parse r)"
    then have "\<exists>r \<in> set routes. \<not> route_urls_ok parse r" by simp
    from split_list_first_prop [OF this]
    obtain before r after where "routes = before @ r # after" "\<not> route_urls_ok parse r"
      "\<forall>r' \<in> set before. route_urls_ok parse r'"
      by blast
    then show False
      using no_err parse_upstreams_bad [of parse r "rt_ID r" "[]"]
      unfolding registry_loop_err by blast
  qed
qed (simp add: NewStaticRegistry_def registry_loop_ok)

lemma registry_entries:
  "NewStaticRegistry parse routes = Inr reg \<Longrightarrow>
     reg_entries reg = map_of (rev (map (\<lambda>r. (rt_ID r, endpoints_of parse r)) routes))"
  using registry_ok_iff [of parse routes] registry_loop_ok [of routes parse Map.empty]
  by (auto simp: NewStaticRegistry_def)

lemma GetEndpoints_Inr: "GetEndpoints reg rid = Inr eps \<longleftrightarrow> reg_entries reg rid = Some eps"
  by (auto simp: GetEndpoints_def split: option.splits)

text \<open>The entry of an ID is that of the last route with it.\<close>

lemma GetEndpoints_last:
  assumes "NewStaticRegistry parse routes = Inr reg"
  shows "GetEndpoints reg rid = Inr eps \<longleftrightarrow>
    (\<exists>before r after. routes = before @ r # after
       \<and> (rt_ID r = rid \<and> endpoints_of parse r = eps \<and> rid \<notin> rt_ID ` set after))"
  by (simp add: GetEndpoints_Inr registry_entries [OF assms] map_of_rev_last)

lemma last_with_id:
  assumes "r \<in> set routes"
  obtains before r' after where "routes = before @ r' # after" "rt_ID r' = rt_ID r"
    "rt_ID r \<notin> rt_ID ` set after"
proof -
  from assms have "\<exists>x \<in> set routes. rt_ID x = rt_ID r" by blast
  from split_list_last_prop [OF this]
  obtain before r' after where "routes = before @ r' # after" "rt_ID r' = rt_ID r"
    "\<forall>x \<in> set after. rt_ID x \<noteq> rt_ID r"
    by blast
  then show thesis using that [of before r' after] by (metis imageE)
qed

text \<open>Every route of a validated table has endpoints.\<close>

lemma GetEndpoints_nonempty:
  assumes "NewStaticRegistry parse routes = Inr reg" "\<forall>r \<in> set routes. route_ok r"
    "r \<in> set routes"
  shows "\<exists>eps. GetEndpoints reg (rt_ID r) = Inr eps \<and> eps \<noteq> []"
proof -
  from last_with_id [OF assms(3)]
  obtain before r' after where split: "routes = before @ r' # after" "rt_ID r' = rt_ID r"
    "rt_ID r \<notin> rt_ID ` set after" .
  then have "route_ok r'" using assms(2) by simp
  then have "endpoints_of parse r' \<noteq> []" by (simp add: route_ok_def endpoints_of_def)
  with split show ?thesis unfolding GetEndpoints_last [OF assms(1)] by blast
qed

subsection \<open>Properties\<close>

text \<open>
  C31: Building the registry fails exactly when some upstream URL does not parse, and names
  the first one, in route and upstream order; otherwise an ID resolves to the parsed URLs,
  in order, of the last route that has it, and an unknown ID is an error.
\<close>

theorem registry_spec:
  "(NewStaticRegistry parse routes = Inl e \<longleftrightarrow>
      (\<exists>before r after ubefore u uafter err.
         routes = before @ r # after \<and> (\<forall>r' \<in> set before. \<forall>v \<in> set (rt_Upstreams r'). url_ok parse v)
         \<and> rt_Upstreams r = ubefore @ u # uafter \<and> (\<forall>v \<in> set ubefore. url_ok parse v)
         \<and> parse (u_URL u) = Inl err \<and> e = ParseUpstream (u_URL u) (rt_ID r) err))
   \<and> (NewStaticRegistry parse routes = Inr reg \<longrightarrow>
        (GetEndpoints reg rid = Inr eps \<longleftrightarrow>
           (\<exists>before r after. routes = before @ r # after \<and> rt_ID r = rid
              \<and> (\<forall>r' \<in> set after. rt_ID r' \<noteq> rid)
              \<and> eps = map (\<lambda>u. projr (parse (u_URL u))) (rt_Upstreams r)))
        \<and> (GetEndpoints reg rid = Inl (NoEndpointsFound rid) \<longleftrightarrow> rid \<notin> rt_ID ` set routes))"
proof -
  have "NewStaticRegistry parse routes = Inl e \<longleftrightarrow> registry_loop parse Map.empty routes = Inl e"
    by (simp add: NewStaticRegistry_def split: sum.splits)
  then have err: "NewStaticRegistry parse routes = Inl e \<longleftrightarrow>
      (\<exists>before r after ubefore u uafter err.
         routes = before @ r # after \<and> (\<forall>r' \<in> set before. \<forall>v \<in> set (rt_Upstreams r'). url_ok parse v)
         \<and> rt_Upstreams r = ubefore @ u # uafter \<and> (\<forall>v \<in> set ubefore. url_ok parse v)
         \<and> parse (u_URL u) = Inl err \<and> e = ParseUpstream (u_URL u) (rt_ID r) err)"
    unfolding registry_loop_err parse_upstreams_err route_urls_ok_def by blast
  have "GetEndpoints reg rid = Inl (NoEndpointsFound rid) \<longleftrightarrow> rid \<notin> rt_ID ` set routes"
    if "NewStaticRegistry parse routes = Inr reg"
  proof -
    have "GetEndpoints reg rid = Inl (NoEndpointsFound rid) \<longleftrightarrow> reg_entries reg rid = None"
      by (simp add: GetEndpoints_def split: option.splits)
    also have "\<dots> \<longleftrightarrow> rid \<notin> rt_ID ` set routes"
      by (simp add: registry_entries [OF that] map_of_eq_None_iff image_image)
    finally show ?thesis .
  qed
  moreover have "GetEndpoints reg rid = Inr eps \<longleftrightarrow>
           (\<exists>before r after. routes = before @ r # after \<and> rt_ID r = rid
              \<and> (\<forall>r' \<in> set after. rt_ID r' \<noteq> rid)
              \<and> eps = map (\<lambda>u. projr (parse (u_URL u))) (rt_Upstreams r))"
    if "NewStaticRegistry parse routes = Inr reg"
    unfolding GetEndpoints_last [OF that] endpoints_of_def
    by (intro ex_cong1) (auto intro: rev_image_eqI)
  ultimately show ?thesis using err by simp
qed

text \<open>Two routes with one ID: the endpoints of both are those of the second.\<close>

definition sample_url :: "string \<Rightarrow> URL" where
  "sample_url host = \<lparr>url_Scheme = ''http'', url_Opaque = '''', url_User = None, url_Host = host,
     url_Path = '''', url_RawPath = '''', url_RawQuery = '''', url_Fragment = ''''\<rparr>"

definition sample_parse :: "string \<Rightarrow> nat + URL" where
  "sample_parse s = (if HasPrefix s ''http://'' then Inr (sample_url (TrimPrefix s ''http://''))
     else Inl 0)"

theorem registry_spec_witness:
  "\<exists>reg. NewStaticRegistry sample_parse
       [sample_route, sample_route\<lparr>rt_Upstreams := [\<lparr>u_URL = ''http://b'', u_Weight = 0\<rparr>]\<rparr>]
       = Inr reg
     \<and> GetEndpoints reg ''default'' = Inr [sample_url ''b'']"
proof -
  let ?r = "sample_route\<lparr>rt_Upstreams := [\<lparr>u_URL = ''http://b'', u_Weight = 0\<rparr>]\<rparr>"
  obtain reg where reg: "NewStaticRegistry sample_parse [sample_route, ?r] = Inr reg"
    using registry_ok_iff [of sample_parse "[sample_route, ?r]"]
    by (auto simp: route_urls_ok_def url_ok_def sample_parse_def sample_route_def HasPrefix_def)
  have "GetEndpoints reg ''default'' = Inr [sample_url ''b'']"
    by (rule registry_spec [THEN conjunct2, THEN mp, OF reg, THEN conjunct1, THEN iffD2],
        rule exI [of _ "[sample_route]"])
      (simp add: sample_parse_def sample_route_def HasPrefix_def TrimPrefix_def)
  with reg show ?thesis by blast
qed

end
