(* ===== verification/Request_Id.thy ===== *)
theory Request_Id
  imports Route_Match
begin

text \<open>
  The request ID middleware, \<open>internal/middleware/requestid.go\<close>. The random source
  (\<open>crypto/rand.Read\<close>) is an argument: \<open>rand n\<close> are the \<open>n\<close> bytes it fills a buffer with. The
  next handler is an argument too, a function of the response writer and the request.
\<close>

definition generateID :: "(nat \<Rightarrow> 8 word list) \<Rightarrow> string" where
  "generateID rand = hex_encode (rand 16)"

definition RequestID ::
  "(nat \<Rightarrow> 8 word list) \<Rightarrow> (ResponseWriter \<Rightarrow> Request \<Rightarrow> 'b) \<Rightarrow> ResponseWriter \<Rightarrow> Request \<Rightarrow> 'b" where
  "RequestID rand next w r =
     (let id = Header_Get (rq_Header r) ''X-Request-Id'';
          (id, r) =
            (if id = '''' then
               let id = generateID rand
               in (id, r\<lparr>rq_Header := Header_Set (rq_Header r) ''X-Request-Id'' id\<rparr>)
             else (id, r));
          w = raw_SetHeader w ''X-Request-Id'' id
      in next w r)"

text \<open>The ID a request is given, and the request with it.\<close>

definition request_id :: "(nat \<Rightarrow> 8 word list) \<Rightarrow> Request \<Rightarrow> string" where
  "request_id rand r =
     (if Header_Get (rq_Header r) ''X-Request-Id'' = '''' then generateID rand
      else Header_Get (rq_Header r) ''X-Request-Id'')"

definition with_request_id :: "(nat \<Rightarrow> 8 word list) \<Rightarrow> Request \<Rightarrow> Request" where
  "with_request_id rand r =
     (if Header_Get (rq_Header r) ''X-Request-Id'' = ''''
      then r\<lparr>rq_Header := Header_Set (rq_Header r) ''X-Request-Id'' (generateID rand)\<rparr> else r)"

lemma RequestID_eq:
  "RequestID rand next w r =
     next (raw_SetHeader w ''X-Request-Id'' (request_id rand r)) (with_request_id rand r)"
  by (simp add: RequestID_def request_id_def with_request_id_def Let_def)

lemma with_request_id_get [simp]:
  "Header_Get (rq_Header (with_request_id rand r)) ''X-Request-Id'' = request_id rand r"
  by (simp add: with_request_id_def request_id_def Header_Get_Set)

lemma with_request_id_frame [simp]:
  "rq_Method (with_request_id rand r) = rq_Method r"
  "rq_Host (with_request_id rand r) = rq_Host r"
  "rq_URL (with_request_id rand r) = rq_URL r"
  "rq_RemoteAddr (with_request_id rand r) = rq_RemoteAddr r"
  "rq_target (with_request_id rand r) = rq_target r"
  by (simp_all add: with_request_id_def)

lemma with_request_id_other:
  "CanonicalHeaderKey k \<noteq> ''X-Request-Id'' \<Longrightarrow>
     Header_Get (rq_Header (with_request_id rand r)) k = Header_Get (rq_Header r) k"
  by (simp add: with_request_id_def Header_Get_Set)

text \<open>
  C27: The handler behind the middleware sees one non-empty ID, on the request and on the
  response: the client's own if it sent one, else 32 hexadecimal digits. Nothing else of the
  request changes.
\<close>

theorem RequestID_spec:
  assumes "length (rand 16) = 16"
  shows "\<exists>id r'. RequestID rand next w r = next (raw_SetHeader w ''X-Request-Id'' id) r' \<and>
    id \<noteq> '''' \<and> Header_Get (rq_Header r') ''X-Request-Id'' = id \<and>
    r' = r\<lparr>rq_Header := rq_Header r'\<rparr> \<and>
    (if Header_Get (rq_Header r) ''X-Request-Id'' = ''''
     then length id = 32 \<and> set id \<subseteq> hex_digit ` {..<16} \<and>
          rq_Header r' = Header_Set (rq_Header r) ''X-Request-Id'' id
     else id = Header_Get (rq_Header r) ''X-Request-Id'' \<and> rq_Header r' = rq_Header r)"
proof (intro exI conjI)
  show "RequestID rand next w r =
      next (raw_SetHeader w ''X-Request-Id'' (request_id rand r)) (with_request_id rand r)"
    by (rule RequestID_eq)
  have "length (hex_encode (rand 16)) = 32" "hex_encode (rand 16) \<noteq> []"
    using assms length_hex_encode [of "rand 16"] by (simp, metis list.size(3) mult_is_0 zero_neq_numeral)
  then show "request_id rand r \<noteq> ''''" "if Header_Get (rq_Header r) ''X-Request-Id'' = ''''
     then length (request_id rand r) = 32 \<and> set (request_id rand r) \<subseteq> hex_digit ` {..<16} \<and>
          rq_Header (with_request_id rand r) =
            Header_Set (rq_Header r) ''X-Request-Id'' (request_id rand r)
     else request_id rand r = Header_Get (rq_Header r) ''X-Request-Id'' \<and>
          rq_Header (with_request_id rand r) = rq_Header r"
    by (auto simp: request_id_def with_request_id_def generateID_def
        dest: hex_encode_digits [THEN subsetD])
qed (simp_all add: with_request_id_def request_id_def Header_Get_Set)

lemma RequestID_spec_witness:
  "\<exists>id. RequestID (\<lambda>n. replicate n 255)
     (\<lambda>w r. (Header_Get (w_Header w) ''X-Request-Id'', Header_Get (rq_Header r) ''X-Request-Id''))
     new_writer (sample_request ''GET'' ''/x'') = (id, id) \<and> length id = 32"
  using RequestID_spec [of "\<lambda>n. replicate n 255"
      "\<lambda>w r. (Header_Get (w_Header w) ''X-Request-Id'', Header_Get (rq_Header r) ''X-Request-Id'')"
      new_writer "sample_request ''GET'' ''/x''"]
  by (auto simp: Header_Get_Set sample_request_def)

text \<open>Different random bytes give different IDs.\<close>

lemma generateID_inj: "generateID rand = generateID rand' \<Longrightarrow> rand 16 = rand' 16"
  unfolding generateID_def by (rule hex_encode_inj)

end
