(* ===== verification/Prom_Metrics.thy ===== *)
theory Prom_Metrics
  imports Http_Model "HOL-Library.AList_Mapping"
begin

text \<open>
  Package \<open>metrics\<close> (\<open>internal/metrics/prometheus.go\<close>): the collectors, the registry, the
  Prometheus text rendering and the health handler.

  \<^item> Counters and gauges are \<open>float64\<close> values that only ever change by 1 or are set to a small
    integer, so they are integers here; adding 1 is exact up to \<open>2 ^ 53\<close> and has no effect
    there (\<open>float_inc\<close>). Histogram sums and observations are rationals; \<open>rnd\<close>, the rounding of
    \<open>float64\<close> arithmetic, is an argument, and so is \<open>fmt_g\<close>, the \<open>%g\<close> formatting of a number
    that is no integer.
  \<^item> A vector's map is a \<open>mapping\<close> from the label values, joined with a NUL byte.
  \<^item> Each method holds the collector's mutex and is one step.
\<close>

subsection \<open>Collectors\<close>

definition NUL :: char where
  "NUL = CHR 0x00"

definition float_inc :: "int \<Rightarrow> int" where
  "float_inc x = (if x < 9007199254740992 then x + 1 else x)"

definition float_dec :: "int \<Rightarrow> int" where
  "float_dec x = (if -9007199254740992 < x then x - 1 else x)"

record CounterVec =
  cv_values :: "(string, int) mapping"
  cv_names :: "string list"

definition NewCounterVec :: "string list \<Rightarrow> CounterVec" where
  "NewCounterVec names = \<lparr>cv_values = Mapping.empty, cv_names = names\<rparr>"

definition Counter_Inc :: "string list \<Rightarrow> CounterVec \<Rightarrow> CounterVec" where
  "Counter_Inc lvs v =
     (let key = Join lvs [NUL]
      in v\<lparr>cv_values :=
             Mapping.update key (float_inc (Mapping.lookup_default 0 (cv_values v) key)) (cv_values v)\<rparr>)"

record Gauge =
  g_value :: int

definition Gauge_Inc :: "Gauge \<Rightarrow> Gauge" where
  "Gauge_Inc g = g\<lparr>g_value := float_inc (g_value g)\<rparr>"

definition Gauge_Dec :: "Gauge \<Rightarrow> Gauge" where
  "Gauge_Dec g = g\<lparr>g_value := float_dec (g_value g)\<rparr>"

record GaugeVec =
  gv_values :: "(string, int) mapping"
  gv_names :: "string list"

definition NewGaugeVec :: "string list \<Rightarrow> GaugeVec" where
  "NewGaugeVec names = \<lparr>gv_values = Mapping.empty, gv_names = names\<rparr>"

definition GaugeVec_Set :: "int \<Rightarrow> string list \<Rightarrow> GaugeVec \<Rightarrow> GaugeVec" where
  "GaugeVec_Set val lvs v = v\<lparr>gv_values := Mapping.update (Join lvs [NUL]) val (gv_values v)\<rparr>"

definition GaugeVec_Reset :: "GaugeVec \<Rightarrow> GaugeVec" where
  "GaugeVec_Reset v = v\<lparr>gv_values := Mapping.empty\<rparr>"

record histogram =
  h_count :: "64 word"
  h_sum :: rat
  h_buckets :: "rat \<rightharpoonup> 64 word"

record HistogramVec =
  hv_buckets :: "rat list"
  hv_values :: "(string, histogram) mapping"
  hv_names :: "string list"

definition defaultBuckets :: "(rat \<Rightarrow> rat) \<Rightarrow> rat list" where
  "defaultBuckets rnd =
     map rnd [5/1000, 1/100, 25/1000, 5/100, 1/10, 25/100, 5/10, 1, 25/10, 5, 10]"

definition NewHistogramVec :: "(rat \<Rightarrow> rat) \<Rightarrow> rat list option \<Rightarrow> string list \<Rightarrow> HistogramVec" where
  "NewHistogramVec rnd buckets names =
     \<lparr>hv_buckets = (case buckets of None \<Rightarrow> defaultBuckets rnd | Some bs \<Rightarrow> bs),
      hv_values = Mapping.empty, hv_names = names\<rparr>"

fun observe_buckets :: "rat \<Rightarrow> rat list \<Rightarrow> (rat \<rightharpoonup> 64 word) \<Rightarrow> (rat \<rightharpoonup> 64 word)" where
  "observe_buckets val [] m = m"
| "observe_buckets val (b # bs) m =
     observe_buckets val bs
       (if val \<le> b then m(b \<mapsto> (case m b of None \<Rightarrow> 0 | Some n \<Rightarrow> n) + 1) else m)"

definition new_histogram :: histogram where
  "new_histogram = \<lparr>h_count = 0, h_sum = 0, h_buckets = Map.empty\<rparr>"

definition histogram_add :: "(rat \<Rightarrow> rat) \<Rightarrow> rat list \<Rightarrow> rat \<Rightarrow> histogram \<Rightarrow> histogram" where
  "histogram_add rnd bs val h =
     \<lparr>h_count = h_count h + 1, h_sum = rnd (h_sum h + val),
      h_buckets = observe_buckets val bs (h_buckets h)\<rparr>"

definition Observe :: "(rat \<Rightarrow> rat) \<Rightarrow> rat \<Rightarrow> string list \<Rightarrow> HistogramVec \<Rightarrow> HistogramVec" where
  "Observe rnd val lvs v =
     (let key = Join lvs [NUL];
          h = Mapping.lookup_default new_histogram (hv_values v) key
      in v\<lparr>hv_values := Mapping.update key (histogram_add rnd (hv_buckets v) val h) (hv_values v)\<rparr>)"

subsection \<open>The registry\<close>

record Metrics =
  m_RequestsTotal :: CounterVec
  m_RequestDuration :: HistogramVec
  m_ActiveConnections :: Gauge
  m_CircuitBreakerState :: GaugeVec
  m_RateLimitRejections :: CounterVec

definition NewMetrics :: "(rat \<Rightarrow> rat) \<Rightarrow> Metrics" where
  "NewMetrics rnd =
     \<lparr>m_RequestsTotal = NewCounterVec [''route'', ''method'', ''status_code''],
      m_RequestDuration = NewHistogramVec rnd None [''route'', ''method''],
      m_ActiveConnections = \<lparr>g_value = 0\<rparr>,
      m_CircuitBreakerState = NewGaugeVec [''route'', ''upstream''],
      m_RateLimitRejections = NewCounterVec [''route'']\<rparr>"

text \<open>\<open>Duration.Seconds\<close>: the whole seconds plus the remaining nanoseconds divided by 1e9.\<close>

definition Seconds :: "(rat \<Rightarrow> rat) \<Rightarrow> duration \<Rightarrow> rat" where
  "Seconds rnd d =
     rnd (of_int (tdiv d 1000000000) +
          rnd (of_int (d - tdiv d 1000000000 * 1000000000) / 1000000000))"

definition RecordRequest ::
  "(rat \<Rightarrow> rat) \<Rightarrow> string \<Rightarrow> string \<Rightarrow> string \<Rightarrow> duration \<Rightarrow> Metrics \<Rightarrow> Metrics" where
  "RecordRequest rnd route method statusCode d m =
     m\<lparr>m_RequestsTotal := Counter_Inc [route, method, statusCode] (m_RequestsTotal m),
       m_RequestDuration := Observe rnd (Seconds rnd d) [route, method] (m_RequestDuration m)\<rparr>"

definition RecordRateLimitRejection :: "string \<Rightarrow> Metrics \<Rightarrow> Metrics" where
  "RecordRateLimitRejection route m =
     m\<lparr>m_RateLimitRejections := Counter_Inc [route] (m_RateLimitRejections m)\<rparr>"

text \<open>The loop visits the snapshot in an order of its own; here it is the order of the keys.\<close>

definition SetBreakerStates :: "(string, int) mapping \<Rightarrow> Metrics \<Rightarrow> Metrics" where
  "SetBreakerStates snapshot m =
     m\<lparr>m_CircuitBreakerState :=
         fold (\<lambda>key. GaugeVec_Set (Mapping.lookup_default 0 snapshot key) [key, ''''])
           (Mapping.ordered_keys snapshot) (GaugeVec_Reset (m_CircuitBreakerState m))\<rparr>"

text \<open>
  \<open>RunBreakerStateLoop\<close> as the sequence of what its \<open>select\<close> receives: ticks, each with the
  states the provider returns, until \<open>done\<close> is closed. The flag tells whether it returned.
\<close>

datatype loop_event = Tick "(string, int) mapping" | DoneClosed

fun RunBreakerStateLoop :: "loop_event list \<Rightarrow> Metrics \<Rightarrow> Metrics \<times> bool" where
  "RunBreakerStateLoop [] m = (m, False)"
| "RunBreakerStateLoop (Tick states # evs) m = RunBreakerStateLoop evs (SetBreakerStates states m)"
| "RunBreakerStateLoop (DoneClosed # evs) m = (m, True)"

subsection \<open>Rendering\<close>

text \<open>
  The keys of a map, sorted: a map is ranged over in no fixed order, which the sort hides
  (\<open>sortedKeys_any_order\<close>). The code has the function twice, once for each type of values.
\<close>

definition sortedKeys :: "(string, int) mapping \<Rightarrow> string list" where
  "sortedKeys m = Mapping.ordered_keys m"

definition sortedKeysString :: "(string, histogram) mapping \<Rightarrow> string list" where
  "sortedKeysString m = Mapping.ordered_keys m"

lemma sortedKeys_any_order:
  "set ks = Mapping.keys m \<Longrightarrow> distinct ks \<Longrightarrow> sort ks = sortedKeys m"
  "set ks = Mapping.keys h \<Longrightarrow> distinct ks \<Longrightarrow> sort ks = sortedKeysString h"
proof -
  have "sort ks = Mapping.ordered_keys m" if "set ks = Mapping.keys m" "distinct ks"
    for ks and m :: "(string, 'v) mapping"
  proof -
    have "finite (Mapping.keys m)" using that(1) by (metis List.finite_set)
    moreover have "sorted_list_of_set (set ks) = sort ks"
      using that(2) by (simp add: sorted_list_of_set_sort_remdups distinct_remdups_id)
    ultimately show ?thesis unfolding that(1) by (simp add: Mapping.ordered_keys_def)
  qed
  then show "set ks = Mapping.keys m \<Longrightarrow> distinct ks \<Longrightarrow> sort ks = sortedKeys m"
    "set ks = Mapping.keys h \<Longrightarrow> distinct ks \<Longrightarrow> sort ks = sortedKeysString h"
    by (simp_all add: sortedKeys_def sortedKeysString_def)
qed

text \<open>
  \<open>%g\<close> of an integer-valued \<open>float64\<close> of at most 16 digits: plain up to six digits, then
  with an exponent of at least two digits and no trailing zeros.
\<close>

definition fmt_exponent :: "nat \<Rightarrow> string" where
  "fmt_exponent x = (if x < 10 then ''0'' @ nat_digits x else nat_digits x)"

definition fmt_g_nat :: "nat \<Rightarrow> string" where
  "fmt_g_nat n =
     (let ds = nat_digits n
      in if length ds \<le> 6 then ds
         else let m = TrimRight ds ''0''
              in hd m # (if tl m = [] then [] else ''.'' @ tl m)
                 @ ''e+'' @ fmt_exponent (length ds - 1))"

definition fmt_g_int :: "int \<Rightarrow> string" where
  "fmt_g_int i = (if i < 0 then ''-'' @ fmt_g_nat (nat (- i)) else fmt_g_nat (nat i))"

definition quote :: string where
  "quote = [CHR 0x22]"

definition newline :: string where
  "newline = [CHR 0x0A]"

text \<open>The loop of \<open>formatLabels\<close> and \<open>mergeLabels\<close>: \<open>vals[i]\<close> panics when out of range.\<close>

fun label_loop :: "bool \<Rightarrow> string list \<Rightarrow> string list \<Rightarrow> go_panic + string" where
  "label_loop first [] vals = Inr ''''"
| "label_loop first (n # ns) [] = Inl IndexOutOfRange"
| "label_loop first (n # ns) (v # vs) =
     (case label_loop False ns vs of
        Inl p \<Rightarrow> Inl p
      | Inr s \<Rightarrow> Inr ((if first then '''' else '','') @ n @ ''='' @ quote @ v @ quote @ s))"

definition formatLabels :: "string list \<Rightarrow> string list \<Rightarrow> go_panic + string" where
  "formatLabels names vals =
     (if length names = 0 then Inr ''''
      else case label_loop True names vals of
             Inl p \<Rightarrow> Inl p
           | Inr s \<Rightarrow> Inr (''{'' @ s @ ''}''))"

definition mergeLabels :: "string list \<Rightarrow> string list \<Rightarrow> string \<Rightarrow> string \<Rightarrow> go_panic + string" where
  "mergeLabels names vals extraKey extraVal =
     (case label_loop True names vals of
        Inl p \<Rightarrow> Inl p
      | Inr s \<Rightarrow> Inr (''{'' @ s @ (if 0 < length names then '','' else '''')
                 @ extraKey @ ''='' @ quote @ extraVal @ quote @ ''}''))"

text \<open>Text built piece by piece; a panic ends it.\<close>

fun render_all :: "('a \<Rightarrow> go_panic + string) \<Rightarrow> 'a list \<Rightarrow> go_panic + string" where
  "render_all f [] = Inr ''''"
| "render_all f (x # xs) =
     (case f x of
        Inl p \<Rightarrow> Inl p
      | Inr s \<Rightarrow> (case render_all f xs of Inl p \<Rightarrow> Inl p | Inr t \<Rightarrow> Inr (s @ t)))"

definition render_append :: "go_panic + string \<Rightarrow> go_panic + string \<Rightarrow> go_panic + string" where
  "render_append a b =
     (case a of Inl p \<Rightarrow> Inl p | Inr s \<Rightarrow> (case b of Inl p \<Rightarrow> Inl p | Inr t \<Rightarrow> Inr (s @ t)))"

definition sample_line :: "string \<Rightarrow> go_panic + string \<Rightarrow> string \<Rightarrow> go_panic + string" where
  "sample_line name ls value =
     (case ls of Inl p \<Rightarrow> Inl p | Inr l \<Rightarrow> Inr (name @ l @ '' '' @ value @ newline))"

definition renderCounterMap :: "CounterVec \<Rightarrow> string \<Rightarrow> go_panic + string" where
  "renderCounterMap cv name =
     render_all
       (\<lambda>key. let vals = Split key NUL
              in sample_line name (formatLabels (cv_names cv) vals)
                   (fmt_g_int (Mapping.lookup_default 0 (cv_values cv) key)))
       (sortedKeys (cv_values cv))"

definition renderCounters :: "Metrics \<Rightarrow> go_panic + string" where
  "renderCounters m =
     render_append
       (render_append
         (Inr (''# HELP gogateway_requests_total Total requests processed'' @ newline @
               ''# TYPE gogateway_requests_total counter'' @ newline))
         (renderCounterMap (m_RequestsTotal m) ''gogateway_requests_total''))
       (render_append
         (Inr (''# HELP gogateway_rate_limit_rejections_total Total rate-limited requests'' @ newline @
               ''# TYPE gogateway_rate_limit_rejections_total counter'' @ newline))
         (renderCounterMap (m_RateLimitRejections m) ''gogateway_rate_limit_rejections_total''))"

definition renderGauges :: "Metrics \<Rightarrow> go_panic + string" where
  "renderGauges m =
     render_append
       (Inr (''# HELP gogateway_active_connections Number of currently active connections'' @ newline @
             ''# TYPE gogateway_active_connections gauge'' @ newline @
             ''gogateway_active_connections '' @ fmt_g_int (g_value (m_ActiveConnections m)) @ newline @
             ''# HELP gogateway_circuit_breaker_state Circuit breaker state per upstream (0=closed, 1=open, 2=half-open)'' @ newline @
             ''# TYPE gogateway_circuit_breaker_state gauge'' @ newline))
       (render_all
         (\<lambda>key. let vals = Split key NUL
                in sample_line ''gogateway_circuit_breaker_state''
                     (formatLabels (gv_names (m_CircuitBreakerState m)) vals)
                     (fmt_g_int (Mapping.lookup_default 0 (gv_values (m_CircuitBreakerState m)) key)))
         (sortedKeys (gv_values (m_CircuitBreakerState m))))"

definition bucket_count :: "histogram \<Rightarrow> rat \<Rightarrow> 64 word" where
  "bucket_count h b = (case h_buckets h b of None \<Rightarrow> 0 | Some n \<Rightarrow> n)"

definition render_histogram ::
  "(rat \<Rightarrow> string) \<Rightarrow> string list \<Rightarrow> rat list \<Rightarrow> string \<Rightarrow> histogram \<Rightarrow> go_panic + string" where
  "render_histogram fmt_g names bs key h =
     (let vals = Split key NUL;
          base = ''gogateway_request_duration_seconds'';
          count = nat_digits (unat (h_count h))
      in render_append
           (render_all
             (\<lambda>b. sample_line (base @ ''_bucket'') (mergeLabels names vals ''le'' (fmt_g b))
                    (nat_digits (unat (bucket_count h b)))) bs)
           (render_append
             (sample_line (base @ ''_bucket'') (mergeLabels names vals ''le'' ''+Inf'') count)
             (render_append
               (sample_line (base @ ''_sum'') (formatLabels names vals) (fmt_g (h_sum h)))
               (sample_line (base @ ''_count'') (formatLabels names vals) count))))"

definition renderHistograms :: "(rat \<Rightarrow> string) \<Rightarrow> Metrics \<Rightarrow> go_panic + string" where
  "renderHistograms fmt_g m =
     (let hv = m_RequestDuration m
      in render_append
           (Inr (''# HELP gogateway_request_duration_seconds Request latency in seconds'' @ newline @
                 ''# TYPE gogateway_request_duration_seconds histogram'' @ newline))
           (render_all
             (\<lambda>key. render_histogram fmt_g (hv_names hv) (hv_buckets hv) key
                      (Mapping.lookup_default new_histogram (hv_values hv) key))
             (sortedKeysString (hv_values hv))))"

text \<open>\<open>Metrics.ServeHTTP\<close>: a panic while rendering leaves the response unwritten.\<close>

definition Metrics_ServeHTTP ::
  "(rat \<Rightarrow> string) \<Rightarrow> Metrics \<Rightarrow> ResponseWriter \<Rightarrow> ResponseWriter \<times> go_panic option" where
  "Metrics_ServeHTTP fmt_g m w =
     (let w = raw_SetHeader w ''Content-Type'' ''text/plain; version=0.0.4; charset=utf-8''
      in case render_append (renderCounters m) (render_append (renderGauges m) (renderHistograms fmt_g m)) of
           Inl p \<Rightarrow> (w, Some p)
         | Inr buf \<Rightarrow> (raw_Write (raw_WriteHeader w 200) buf, None))"

subsection \<open>Health\<close>

definition json_field :: "string \<Rightarrow> string \<Rightarrow> string" where
  "json_field name value = quote @ name @ quote @ '':'' @ quote @ value @ quote"

text \<open>
  \<open>rfc3339\<close> formats an instant; what it writes needs no JSON escapes. The encoder ends the
  value with a newline.
\<close>

definition HealthHandler :: "(instant \<Rightarrow> string) \<Rightarrow> instant \<Rightarrow> ResponseWriter \<Rightarrow> Request \<Rightarrow> ResponseWriter" where
  "HealthHandler rfc3339 now w r =
     (if rq_Method r \<noteq> ''GET'' then raw_WriteHeader w 405
      else let w = raw_SetHeader w ''Content-Type'' ''application/json; charset=utf-8'';
               w = raw_WriteHeader w 200
           in raw_Write w (''{'' @ json_field ''status'' ''ok'' @ '','' @
                json_field ''timestamp'' (rfc3339 now) @ ''}'' @ newline))"

subsection \<open>The metrics server\<close>

text \<open>
  The server is its address and its handler; listening and shutting down are \<open>net/http\<close>'s.
  \<open>srv_shutdown\<close> stands for \<open>http.Server.Shutdown\<close> under the given timeout.
\<close>

datatype metrics_route = MetricsPage | HealthPage

fun metrics_mux :: "string \<Rightarrow> metrics_route option" where
  "metrics_mux path =
     (if path = ''/metrics'' then Some MetricsPage
      else if path = ''/health'' then Some HealthPage else None)"

definition StartMetricsServer :: "string \<Rightarrow> (string \<times> (string \<Rightarrow> metrics_route option)) option" where
  "StartMetricsServer addr = (if addr = '''' then None else Some (addr, metrics_mux))"

definition ShutdownMetricsServer ::
  "('s \<Rightarrow> duration \<Rightarrow> 'e option) \<Rightarrow> 's option \<Rightarrow> duration \<Rightarrow> 'e option" where
  "ShutdownMetricsServer srv_shutdown srv timeout =
     (case srv of None \<Rightarrow> None | Some s \<Rightarrow> srv_shutdown s timeout)"

subsection \<open>Runs of the registry\<close>

datatype metric_op =
    OpRequest string string string duration
  | OpRejection string
  | OpBreakers "(string, int) mapping"
  | OpConnInc
  | OpConnDec

fun metrics_step :: "(rat \<Rightarrow> rat) \<Rightarrow> metric_op \<Rightarrow> Metrics \<Rightarrow> Metrics" where
  "metrics_step rnd (OpRequest route method code d) m = RecordRequest rnd route method code d m"
| "metrics_step rnd (OpRejection route) m = RecordRateLimitRejection route m"
| "metrics_step rnd (OpBreakers states) m = SetBreakerStates states m"
| "metrics_step rnd OpConnInc m = m\<lparr>m_ActiveConnections := Gauge_Inc (m_ActiveConnections m)\<rparr>"
| "metrics_step rnd OpConnDec m = m\<lparr>m_ActiveConnections := Gauge_Dec (m_ActiveConnections m)\<rparr>"

definition metrics_run :: "(rat \<Rightarrow> rat) \<Rightarrow> metric_op list \<Rightarrow> Metrics" where
  "metrics_run rnd ops = fold (metrics_step rnd) ops (NewMetrics rnd)"

lemma metrics_run_Nil [simp]: "metrics_run rnd [] = NewMetrics rnd"
  by (simp add: metrics_run_def)

lemma metrics_run_snoc [simp]: "metrics_run rnd (ops @ [op]) = metrics_step rnd op (metrics_run rnd ops)"
  by (simp add: metrics_run_def)

text \<open>The requests recorded under three labels, and the durations recorded under two.\<close>

definition request_count :: "string \<Rightarrow> string \<Rightarrow> string \<Rightarrow> metric_op list \<Rightarrow> nat" where
  "request_count route method code ops =
     length (filter (\<lambda>op. case op of
       OpRequest r m c d \<Rightarrow> r = route \<and> m = method \<and> c = code | _ \<Rightarrow> False) ops)"

definition request_durations :: "string \<Rightarrow> string \<Rightarrow> metric_op list \<Rightarrow> duration list" where
  "request_durations route method ops =
     concat (map (\<lambda>op. case op of
       OpRequest r m c d \<Rightarrow> if r = route \<and> m = method then [d] else [] | _ \<Rightarrow> []) ops)"

text \<open>No label of a request holds a NUL byte.\<close>

definition no_nul :: "string \<Rightarrow> bool" where
  "no_nul s \<longleftrightarrow> NUL \<notin> set s"

fun labels_ok :: "metric_op \<Rightarrow> bool" where
  "labels_ok (OpRequest route method code d) \<longleftrightarrow> no_nul route \<and> no_nul method \<and> no_nul code"
| "labels_ok (OpRejection route) \<longleftrightarrow> no_nul route"
| "labels_ok op \<longleftrightarrow> True"

lemma Join_NUL_inj:
  assumes "Join as [NUL] = Join bs [NUL]" "as \<noteq> []" "bs \<noteq> []"
    and "list_all no_nul as" "list_all no_nul bs"
  shows "as = bs"
proof -
  have "Split (Join as [NUL]) NUL = as" "Split (Join bs [NUL]) NUL = bs"
    using assms(2-5) by (simp_all add: Split_Join list_all_iff no_nul_def)
  with assms(1) show ?thesis by metis
qed

lemma length_Split_Join: "length ss \<le> length (Split (Join ss [sep]) sep)"
proof (induction ss "[sep]" rule: Join.induct)
  case (2 s)
  then show ?case by (cases "Split s sep") auto
next
  case (3 s t ss)
  have split: "Suc (length (Split u sep)) \<le> length (Split (s @ sep # u) sep)" for u
    by (induction s) (auto split: list.splits)
  have "Suc (length (t # ss)) \<le> Suc (length (Split (Join (t # ss) [sep]) sep))"
    using 3 by (simp only: Suc_le_mono)
  also note split [of "Join (t # ss) [sep]"]
  finally show ?case by simp
qed simp

lemma Counter_Inc_lookup [simp]:
  "Mapping.lookup (cv_values (Counter_Inc lvs v)) k =
     (if k = Join lvs [NUL] then Some (float_inc (Mapping.lookup_default 0 (cv_values v) k))
      else Mapping.lookup (cv_values v) k)"
  "Mapping.keys (cv_values (Counter_Inc lvs v)) = insert (Join lvs [NUL]) (Mapping.keys (cv_values v))"
  "cv_names (Counter_Inc lvs v) = cv_names v"
  by (simp_all add: Counter_Inc_def Let_def lookup_update')

lemma Observe_simps [simp]:
  "Mapping.lookup (hv_values (Observe rnd val lvs v)) k =
     (if k = Join lvs [NUL]
      then Some (histogram_add rnd (hv_buckets v) val (Mapping.lookup_default new_histogram (hv_values v) k))
      else Mapping.lookup (hv_values v) k)"
  "Mapping.keys (hv_values (Observe rnd val lvs v)) = insert (Join lvs [NUL]) (Mapping.keys (hv_values v))"
  "hv_names (Observe rnd val lvs v) = hv_names v"
  "hv_buckets (Observe rnd val lvs v) = hv_buckets v"
  by (simp_all add: Observe_def Let_def lookup_update')

lemma GaugeVec_Set_simps [simp]:
  "Mapping.lookup (gv_values (GaugeVec_Set val lvs v)) k =
     (if k = Join lvs [NUL] then Some val else Mapping.lookup (gv_values v) k)"
  "Mapping.keys (gv_values (GaugeVec_Set val lvs v)) = insert (Join lvs [NUL]) (Mapping.keys (gv_values v))"
  "gv_names (GaugeVec_Set val lvs v) = gv_names v"
  by (simp_all add: GaugeVec_Set_def lookup_update')

lemma metrics_step_simps [simp]:
  "m_RequestsTotal (metrics_step rnd op m) =
     (case op of OpRequest r me c d \<Rightarrow> Counter_Inc [r, me, c] (m_RequestsTotal m) | _ \<Rightarrow> m_RequestsTotal m)"
  "m_RequestDuration (metrics_step rnd op m) =
     (case op of OpRequest r me c d \<Rightarrow> Observe rnd (Seconds rnd d) [r, me] (m_RequestDuration m)
               | _ \<Rightarrow> m_RequestDuration m)"
  "m_RateLimitRejections (metrics_step rnd op m) =
     (case op of OpRejection r \<Rightarrow> Counter_Inc [r] (m_RateLimitRejections m) | _ \<Rightarrow> m_RateLimitRejections m)"
  by (cases op; simp add: RecordRequest_def RecordRateLimitRejection_def SetBreakerStates_def)+

declare metrics_step.simps [simp del]

lemma request_count_simps [simp]:
  "request_count r me c [] = 0"
  "request_count r me c (ops @ [op]) = request_count r me c ops +
     (case op of OpRequest r' me' c' d \<Rightarrow> if r' = r \<and> me' = me \<and> c' = c then 1 else 0 | _ \<Rightarrow> 0)"
  by (simp_all add: request_count_def split: metric_op.splits)

lemma request_durations_simps [simp]:
  "request_durations r me [] = []"
  "request_durations r me (ops @ [op]) = request_durations r me ops @
     (case op of OpRequest r' me' c' d \<Rightarrow> if r' = r \<and> me' = me then [d] else [] | _ \<Rightarrow> [])"
  by (simp_all add: request_durations_def split: metric_op.splits)

lemma NewMetrics_simps [simp]:
  "m_RequestsTotal (NewMetrics rnd) = NewCounterVec [''route'', ''method'', ''status_code'']"
  "m_RequestDuration (NewMetrics rnd) = NewHistogramVec rnd None [''route'', ''method'']"
  "m_ActiveConnections (NewMetrics rnd) = \<lparr>g_value = 0\<rparr>"
  "m_CircuitBreakerState (NewMetrics rnd) = NewGaugeVec [''route'', ''upstream'']"
  "m_RateLimitRejections (NewMetrics rnd) = NewCounterVec [''route'']"
  by (simp_all add: NewMetrics_def)

lemma New_vec_simps [simp]:
  "cv_values (NewCounterVec ns) = Mapping.empty" "cv_names (NewCounterVec ns) = ns"
  "gv_values (NewGaugeVec ns) = Mapping.empty" "gv_names (NewGaugeVec ns) = ns"
  "hv_values (NewHistogramVec rnd bs ns) = Mapping.empty" "hv_names (NewHistogramVec rnd bs ns) = ns"
  by (simp_all add: NewCounterVec_def NewGaugeVec_def NewHistogramVec_def)

lemma Join_labels:
  "no_nul r \<Longrightarrow> no_nul r' \<Longrightarrow> no_nul me \<Longrightarrow> no_nul me' \<Longrightarrow> no_nul c \<Longrightarrow> no_nul c' \<Longrightarrow>
     Join [r, me, c] [NUL] = Join [r', me', c'] [NUL] \<longleftrightarrow> r' = r \<and> me' = me \<and> c' = c"
  "no_nul r \<Longrightarrow> no_nul r' \<Longrightarrow> no_nul me \<Longrightarrow> no_nul me' \<Longrightarrow>
     Join [r, me] [NUL] = Join [r', me'] [NUL] \<longleftrightarrow> r' = r \<and> me' = me"
  using Join_NUL_inj [of "[r, me, c]" "[r', me', c']"] Join_NUL_inj [of "[r, me]" "[r', me']"]
  by (auto simp del: Join.simps)

lemma requests_total:
  assumes "list_all labels_ok ops" "list_all no_nul [r, me, c]"
    and "request_count r me c ops \<le> 9007199254740992"
  shows "Mapping.lookup (cv_values (m_RequestsTotal (metrics_run rnd ops))) (Join [r, me, c] [NUL]) =
    (if request_count r me c ops = 0 then None else Some (int (request_count r me c ops)))"
  using assms
proof (induction ops rule: rev_induct)
  case (snoc op ops)
  show ?case
  proof (cases op)
    case (OpRequest r' me' c' d)
    with snoc show ?thesis
      by (cases "r' = r \<and> me' = me \<and> c' = c")
        (auto simp add: lookup_default_def float_inc_def Join_labels simp del: Join.simps)
  qed (use snoc in simp_all)
qed simp

text \<open>The histogram of two labels: every observation is counted once, and in every bucket it fits.\<close>

lemma observe_buckets_other: "b \<notin> set bs \<Longrightarrow> observe_buckets val bs m b = m b"
  by (induction bs arbitrary: m) simp_all

lemma observe_buckets_count:
  "distinct bs \<Longrightarrow> b \<in> set bs \<Longrightarrow> observe_buckets val bs m b =
     (if val \<le> b then Some ((case m b of None \<Rightarrow> 0 | Some n \<Rightarrow> n) + 1) else m b)"
  by (induction bs arbitrary: m) (auto simp: observe_buckets_other)

lemma histogram_add_simps:
  "h_count (histogram_add rnd bs val h) = h_count h + 1"
  "distinct bs \<Longrightarrow> b \<in> set bs \<Longrightarrow>
     bucket_count (histogram_add rnd bs val h) b = bucket_count h b + (if val \<le> b then 1 else 0)"
  by (simp_all add: histogram_add_def bucket_count_def observe_buckets_count split: option.splits)

lemma new_histogram_simps [simp]: "h_count new_histogram = 0" "bucket_count new_histogram b = 0"
  by (simp_all add: new_histogram_def bucket_count_def)

lemma run_buckets [simp]: "hv_buckets (m_RequestDuration (metrics_run rnd ops)) = defaultBuckets rnd"
  by (induction ops rule: rev_induct) (simp_all add: NewHistogramVec_def split: metric_op.splits)

definition fits :: "(rat \<Rightarrow> rat) \<Rightarrow> rat \<Rightarrow> duration list \<Rightarrow> nat" where
  "fits rnd b ds = length (filter (\<lambda>d. Seconds rnd d \<le> b) ds)"

lemma fits_simps [simp]:
  "fits rnd b [] = 0"
  "fits rnd b (ds @ [d]) = fits rnd b ds + (if Seconds rnd d \<le> b then 1 else 0)"
  by (simp_all add: fits_def)

lemma request_histogram:
  assumes "list_all labels_ok ops" "list_all no_nul [r, me]" "distinct (defaultBuckets rnd)"
  shows "let h = Mapping.lookup_default new_histogram
             (hv_values (m_RequestDuration (metrics_run rnd ops))) (Join [r, me] [NUL]);
           ds = request_durations r me ops
         in h_count h = of_nat (length ds) \<and>
            list_all (\<lambda>b. bucket_count h b = of_nat (fits rnd b ds)) (defaultBuckets rnd)"
  using assms
proof (induction ops rule: rev_induct)
  case Nil
  then show ?case by (simp add: Let_def list_all_iff lookup_default_def)
next
  case (snoc op ops)
  show ?case
  proof (cases op)
    case (OpRequest r' me' c' d)
    with snoc show ?thesis
      by (cases "r' = r \<and> me' = me")
        (simp_all add: Let_def lookup_default_def list_all_iff histogram_add_simps Join_labels
          del: Join.simps)
  qed (use snoc in \<open>simp_all add: lookup_default_def\<close>)
qed

subsection \<open>The page is always rendered\<close>

text \<open>Every key of a vector splits into at least as many values as the vector has names.\<close>

definition keys_ok :: "nat \<Rightarrow> (string, 'v) mapping \<Rightarrow> bool" where
  "keys_ok n mp \<longleftrightarrow> finite (Mapping.keys mp) \<and> (\<forall>k \<in> Mapping.keys mp. n \<le> length (Split k NUL))"

definition metrics_ok :: "Metrics \<Rightarrow> bool" where
  "metrics_ok m \<longleftrightarrow>
     cv_names (m_RequestsTotal m) = [''route'', ''method'', ''status_code''] \<and>
     hv_names (m_RequestDuration m) = [''route'', ''method''] \<and>
     gv_names (m_CircuitBreakerState m) = [''route'', ''upstream''] \<and>
     cv_names (m_RateLimitRejections m) = [''route''] \<and>
     keys_ok 3 (cv_values (m_RequestsTotal m)) \<and> keys_ok 2 (hv_values (m_RequestDuration m)) \<and>
     keys_ok 2 (gv_values (m_CircuitBreakerState m)) \<and> keys_ok 1 (cv_values (m_RateLimitRejections m))"

lemma keys_ok_empty [simp]: "keys_ok n Mapping.empty"
  by (simp add: keys_ok_def)

lemma keys_ok_insert:
  "keys_ok n mp \<Longrightarrow> Mapping.keys mp' = insert (Join lvs [NUL]) (Mapping.keys mp) \<Longrightarrow>
     n \<le> length lvs \<Longrightarrow> keys_ok n mp'"
  using length_Split_Join [of lvs NUL] by (auto simp: keys_ok_def)

lemma SetBreakerStates_vec:
  "keys_ok 2 (gv_values gv) \<Longrightarrow>
     keys_ok 2 (gv_values (fold (\<lambda>key. GaugeVec_Set (f key) [key, '''']) ks gv)) \<and>
     gv_names (fold (\<lambda>key. GaugeVec_Set (f key) [key, '''']) ks gv) = gv_names gv"
proof (induction ks arbitrary: gv)
  case (Cons k ks)
  have "keys_ok 2 (gv_values (GaugeVec_Set (f k) [k, ''''] gv))"
    by (rule keys_ok_insert [OF Cons.prems, where lvs = "[k, '''']"]) (simp_all del: Join.simps)
  from Cons.IH [OF this] show ?case by simp
qed simp

lemma GaugeVec_Reset_simps [simp]:
  "gv_values (GaugeVec_Reset v) = Mapping.empty" "gv_names (GaugeVec_Reset v) = gv_names v"
  by (simp_all add: GaugeVec_Reset_def)

lemma metrics_ok_step: "metrics_ok m \<Longrightarrow> metrics_ok (metrics_step rnd op m)"
proof (cases op)
  case (OpRequest r me c d)
  moreover have "keys_ok 3 (cv_values (Counter_Inc [r, me, c] (m_RequestsTotal m)))"
    "keys_ok 2 (hv_values (Observe rnd (Seconds rnd d) [r, me] (m_RequestDuration m)))"
    if "metrics_ok m"
    using that
    by (auto intro: keys_ok_insert [where lvs = "[r, me, c]"] keys_ok_insert [where lvs = "[r, me]"]
        simp: metrics_ok_def simp del: Join.simps)
  moreover have "m_CircuitBreakerState (metrics_step rnd op m) = m_CircuitBreakerState m"
    using OpRequest by (simp add: metrics_step.simps RecordRequest_def)
  ultimately show "metrics_ok m \<Longrightarrow> metrics_ok (metrics_step rnd op m)"
    by (simp add: metrics_ok_def)
next
  case (OpRejection r)
  moreover have "keys_ok 1 (cv_values (Counter_Inc [r] (m_RateLimitRejections m)))" if "metrics_ok m"
    using that
    by (auto intro: keys_ok_insert [where lvs = "[r]"] simp: metrics_ok_def simp del: Join.simps)
  moreover have "m_CircuitBreakerState (metrics_step rnd op m) = m_CircuitBreakerState m"
    using OpRejection by (simp add: metrics_step.simps RecordRateLimitRejection_def)
  ultimately show "metrics_ok m \<Longrightarrow> metrics_ok (metrics_step rnd op m)"
    by (simp add: metrics_ok_def)
next
  case (OpBreakers states)
  then show "metrics_ok m \<Longrightarrow> metrics_ok (metrics_step rnd op m)"
    using SetBreakerStates_vec [of "GaugeVec_Reset (m_CircuitBreakerState m)"
        "Mapping.lookup_default 0 states" "Mapping.ordered_keys states"]
    by (simp add: metrics_ok_def metrics_step.simps SetBreakerStates_def)
qed (simp_all add: metrics_ok_def metrics_step.simps)

lemma metrics_ok_run: "metrics_ok (metrics_run rnd ops)"
  by (induction ops rule: rev_induct) (simp_all add: metrics_ok_step, simp add: metrics_ok_def)

lemma keys_ok_ordered: "keys_ok n mp \<Longrightarrow> k \<in> set (sortedKeys mp) \<longleftrightarrow> k \<in> Mapping.keys mp"
  "keys_ok n hv \<Longrightarrow> k \<in> set (sortedKeysString hv) \<longleftrightarrow> k \<in> Mapping.keys hv"
  by (simp_all add: keys_ok_def sortedKeys_def sortedKeysString_def Mapping.ordered_keys_def)

lemma label_loop_Inr:
  "length names \<le> length vals \<Longrightarrow> \<exists>s. label_loop first names vals = Inr s"
proof (induction first names vals rule: label_loop.induct)
  case (3 first n ns v vs)
  then obtain s where "label_loop False ns vs = Inr s" by auto
  then show ?case by simp
qed simp_all

lemma formatLabels_Inr: "length names \<le> length vals \<Longrightarrow> \<exists>s. formatLabels names vals = Inr s"
  using label_loop_Inr [of names vals True] by (auto simp: formatLabels_def)

lemma mergeLabels_Inr: "length names \<le> length vals \<Longrightarrow> \<exists>s. mergeLabels names vals k v = Inr s"
  using label_loop_Inr [of names vals True] by (auto simp: mergeLabels_def)

lemma render_all_Inr: "(\<And>x. x \<in> set xs \<Longrightarrow> \<exists>s. f x = Inr s) \<Longrightarrow> \<exists>t. render_all f xs = Inr t"
proof (induction xs)
  case (Cons x xs)
  obtain s t where "f x = Inr s" "render_all f xs = Inr t" using Cons by force
  then show ?case by simp
qed simp

lemma render_append_Inr [simp]:
  "render_append a b = Inr u \<longleftrightarrow> (\<exists>s t. a = Inr s \<and> b = Inr t \<and> u = s @ t)"
  by (auto simp: render_append_def split: sum.splits)

lemma sample_line_Inr [simp]:
  "sample_line name ls value = Inr u \<longleftrightarrow> (\<exists>l. ls = Inr l \<and> u = name @ l @ '' '' @ value @ newline)"
  by (auto simp: sample_line_def split: sum.splits)

lemma renderCounterMap_Inr:
  "keys_ok (length (cv_names cv)) (cv_values cv) \<Longrightarrow> \<exists>s. renderCounterMap cv name = Inr s"
  unfolding renderCounterMap_def Let_def
  by (rule render_all_Inr) (auto simp: keys_ok_ordered, auto simp: keys_ok_def formatLabels_Inr)

lemma renderCounters_Inr: "metrics_ok m \<Longrightarrow> \<exists>s. renderCounters m = Inr s"
  using renderCounterMap_Inr [of "m_RequestsTotal m" "''gogateway_requests_total''"]
    renderCounterMap_Inr [of "m_RateLimitRejections m" "''gogateway_rate_limit_rejections_total''"]
  by (auto simp: renderCounters_def metrics_ok_def numeral_3_eq_3)

lemma renderGauges_Inr: "metrics_ok m \<Longrightarrow> \<exists>s. renderGauges m = Inr s"
proof -
  assume ok: "metrics_ok m"
  have "\<exists>t. render_all
         (\<lambda>key. let vals = Split key NUL
                in sample_line ''gogateway_circuit_breaker_state''
                     (formatLabels (gv_names (m_CircuitBreakerState m)) vals)
                     (fmt_g_int (Mapping.lookup_default 0 (gv_values (m_CircuitBreakerState m)) key)))
         (sortedKeys (gv_values (m_CircuitBreakerState m))) = Inr t"
    using ok unfolding Let_def
    by (intro render_all_Inr)
      (auto simp: metrics_ok_def keys_ok_ordered, auto simp: keys_ok_def formatLabels_Inr)
  then show ?thesis by (auto simp: renderGauges_def)
qed

lemma render_histogram_Inr:
  assumes "length names \<le> length (Split key NUL)"
  shows "\<exists>s. render_histogram fmt_g names bs key h = Inr s"
proof -
  have "\<exists>t. render_all (\<lambda>b. sample_line (''gogateway_request_duration_seconds'' @ ''_bucket'')
      (mergeLabels names (Split key NUL) ''le'' (fmt_g b)) (nat_digits (unat (bucket_count h b)))) bs
      = Inr t"
    using mergeLabels_Inr [OF assms] by (intro render_all_Inr) auto
  then show ?thesis
    using mergeLabels_Inr [OF assms, of "''le''" "''+Inf''"] formatLabels_Inr [OF assms]
    by (auto simp: render_histogram_def Let_def)
qed

lemma renderHistograms_Inr: "metrics_ok m \<Longrightarrow> \<exists>s. renderHistograms fmt_g m = Inr s"
proof -
  assume ok: "metrics_ok m"
  have "\<exists>t. render_all
             (\<lambda>key. render_histogram fmt_g (hv_names (m_RequestDuration m))
                      (hv_buckets (m_RequestDuration m)) key
                      (Mapping.lookup_default new_histogram (hv_values (m_RequestDuration m)) key))
             (sortedKeysString (hv_values (m_RequestDuration m))) = Inr t"
    using ok
    by (intro render_all_Inr render_histogram_Inr)
      (auto simp: metrics_ok_def keys_ok_ordered, auto simp: keys_ok_def)
  then show ?thesis by (auto simp: renderHistograms_def Let_def)
qed

text \<open>
  C36: Rendering the metrics page never panics on an index: after any sequence of recorded
  requests, rejections, breaker snapshots and connection changes, whatever bytes their labels
  hold, a scrape gets status 200 and the three sections.
\<close>

theorem metrics_page_total:
  "\<exists>body. renderCounters (metrics_run rnd ops) = Inr (fst body) \<and>
     renderGauges (metrics_run rnd ops) = Inr (fst (snd body)) \<and>
     renderHistograms fmt_g (metrics_run rnd ops) = Inr (snd (snd body)) \<and>
     snd (Metrics_ServeHTTP fmt_g (metrics_run rnd ops) new_writer) = None \<and>
     written_status (w_ops (fst (Metrics_ServeHTTP fmt_g (metrics_run rnd ops) new_writer))) = 200 \<and>
     written_body (w_ops (fst (Metrics_ServeHTTP fmt_g (metrics_run rnd ops) new_writer))) =
       fst body @ fst (snd body) @ snd (snd body)"
proof -
  obtain a b c where "renderCounters (metrics_run rnd ops) = Inr a"
    "renderGauges (metrics_run rnd ops) = Inr b" "renderHistograms fmt_g (metrics_run rnd ops) = Inr c"
    using renderCounters_Inr renderGauges_Inr renderHistograms_Inr metrics_ok_run by metis
  then show ?thesis
    by (intro exI [of _ "(a, b, c)"])
      (simp add: Metrics_ServeHTTP_def Let_def new_writer_def informational_def render_append_def)
qed

subsection \<open>What the page says\<close>

definition requests_line :: "string \<Rightarrow> string \<Rightarrow> string \<Rightarrow> nat \<Rightarrow> string" where
  "requests_line route method code n =
     ''gogateway_requests_total{route='' @ quote @ route @ quote @ '',method='' @ quote @ method @ quote @
     '',status_code='' @ quote @ code @ quote @ ''} '' @ fmt_g_int (int n) @ newline"

lemma render_all_part:
  "render_all f xs = Inr t \<Longrightarrow> x \<in> set xs \<Longrightarrow> f x = Inr s \<Longrightarrow> \<exists>a b. t = a @ s @ b"
proof (induction xs arbitrary: t)
  case (Cons y ys)
  from Cons.prems(1) obtain u v where u: "f y = Inr u" "render_all f ys = Inr v" "t = u @ v"
    by (auto split: sum.splits)
  show ?case
  proof (cases "x = y")
    case True
    then have "t = [] @ s @ v" using u Cons.prems by simp
    then show ?thesis by blast
  next
    case False
    with Cons u obtain a b where "v = a @ s @ b" by auto
    with u have "t = (u @ a) @ s @ b" by simp
    then show ?thesis by blast
  qed
qed simp

lemma render_append_middle:
  "render_append (render_append (Inr h) x) y = Inr body \<Longrightarrow> \<exists>t u. x = Inr t \<and> body = h @ t @ u"
  by auto

lemma requests_line_rendered:
  assumes "list_all labels_ok ops" "list_all no_nul [r, me, c]"
    and "0 < request_count r me c ops" "request_count r me c ops \<le> 9007199254740992"
    and "renderCounters (metrics_run rnd ops) = Inr body"
  shows "\<exists>a b. body = a @ requests_line r me c (request_count r me c ops) @ b"
proof -
  let ?cv = "m_RequestsTotal (metrics_run rnd ops)"
  define f where "f = (\<lambda>key. sample_line ''gogateway_requests_total''
    (formatLabels (cv_names ?cv) (Split key NUL))
    (fmt_g_int (Mapping.lookup_default 0 (cv_values ?cv) key)))"
  let ?key = "Join [r, me, c] [NUL]"
  have ok: "cv_names ?cv = [''route'', ''method'', ''status_code'']" "keys_ok 3 (cv_values ?cv)"
    using metrics_ok_run [of rnd ops] by (simp_all add: metrics_ok_def)
  have lookup: "Mapping.lookup (cv_values ?cv) ?key = Some (int (request_count r me c ops))"
    using requests_total [OF assms(1,2,4), of rnd] assms(3) by simp
  then have key: "?key \<in> set (sortedKeys (cv_values ?cv))"
    using ok(2) by (simp add: keys_ok_ordered keys_is_none_rep del: Join.simps)
  have "Split ?key NUL = [r, me, c]"
    using assms(2) by (intro Split_Join) (simp_all add: no_nul_def)
  then have line: "f ?key = Inr (requests_line r me c (request_count r me c ops))"
    using lookup
    by (simp add: f_def ok sample_line_def formatLabels_def requests_line_def lookup_default_def
        del: Join.simps)
  from assms(5) obtain h t u where
      t: "renderCounterMap ?cv ''gogateway_requests_total'' = Inr t" "body = h @ t @ u"
    unfolding renderCounters_def using render_append_middle by blast
  from t(1) have rendered: "render_all f (sortedKeys (cv_values ?cv)) = Inr t"
    by (simp add: f_def renderCounterMap_def Let_def)
  obtain a b where "t = a @ requests_line r me c (request_count r me c ops) @ b"
    using render_all_part [OF rendered key line] by blast
  with t(2) have "body = (h @ a) @ requests_line r me c (request_count r me c ops) @ b @ u" by simp
  then show ?thesis by blast
qed

text \<open>
  C37: The metrics page counts requests exactly: when a (route, method, status) triple was
  recorded \<open>n\<close> times, \<open>0 < n \<le> 2 ^ 53\<close>, the page has the line of that triple with the value
  \<open>n\<close>, whatever else was recorded. (Labels hold no NUL byte, the code's separator.)
\<close>

theorem requests_total_on_page:
  assumes "list_all labels_ok ops" "list_all no_nul [route, method, code]"
    and "0 < request_count route method code ops"
    and "request_count route method code ops \<le> 9007199254740992"
  shows "\<exists>before after. written_body (w_ops (fst (Metrics_ServeHTTP fmt_g (metrics_run rnd ops) new_writer)))
    = before @ requests_line route method code (request_count route method code ops) @ after"
proof -
  obtain a b c where r: "renderCounters (metrics_run rnd ops) = Inr a"
    "renderGauges (metrics_run rnd ops) = Inr b" "renderHistograms fmt_g (metrics_run rnd ops) = Inr c"
    using renderCounters_Inr renderGauges_Inr renderHistograms_Inr metrics_ok_run by metis
  have "written_body (w_ops (fst (Metrics_ServeHTTP fmt_g (metrics_run rnd ops) new_writer))) = a @ b @ c"
    by (simp add: r Metrics_ServeHTTP_def Let_def new_writer_def render_append_def)
  moreover obtain x y where "a = x @ requests_line route method code (request_count route method code ops) @ y"
    using requests_line_rendered [OF assms r(1)] by blast
  ultimately show ?thesis by (metis append.assoc)
qed

definition sample_ops :: "metric_op list" where
  "sample_ops = [OpConnInc, OpRequest ''a'' ''GET'' ''200'' 1500000000, OpRejection ''a'',
     OpRequest ''a'' ''GET'' ''200'' 3000000, OpRequest ''b'' ''GET'' ''404'' 1, OpConnDec]"

lemma requests_total_on_page_witness:
  "\<exists>before after. written_body (w_ops (fst (Metrics_ServeHTTP (\<lambda>_. ''0'') (metrics_run id sample_ops) new_writer)))
    = before @ requests_line ''a'' ''GET'' ''200'' 2 @ after"
proof -
  have "request_count ''a'' ''GET'' ''200'' sample_ops = 2"
    by (simp add: request_count_def sample_ops_def)
  then show ?thesis
    using requests_total_on_page [of sample_ops "''a''" "''GET''" "''200''" "\<lambda>_. ''0''" id]
    by (simp add: sample_ops_def no_nul_def NUL_def)
qed

text \<open>
  C39: The latency histogram is a Prometheus histogram: after any requests, the bucket of each
  default bound counts the requests of the route and method that took no longer, the counts
  grow with the bounds, and none exceeds the total, which is the number of requests.
\<close>

theorem histogram_cumulative:
  assumes "list_all labels_ok ops" "list_all no_nul [route, method]" "distinct (defaultBuckets rnd)"
    and "length (request_durations route method ops) < 2 ^ 64"
    and "b \<in> set (defaultBuckets rnd)" "b' \<in> set (defaultBuckets rnd)" "b \<le> b'"
  shows "let h = Mapping.lookup_default new_histogram
             (hv_values (m_RequestDuration (metrics_run rnd ops))) (Join [route, method] [NUL])
    in unat (h_count h) = length (request_durations route method ops) \<and>
       unat (bucket_count h b) =
         length (filter (\<lambda>d. Seconds rnd d \<le> b) (request_durations route method ops)) \<and>
       unat (bucket_count h b) \<le> unat (bucket_count h b') \<and>
       unat (bucket_count h b') \<le> unat (h_count h)"
proof -
  let ?ds = "request_durations route method ops"
  have unat: "unat (of_nat (fits rnd x ?ds) :: 64 word) = fits rnd x ?ds" for x
    using le_less_trans [OF length_filter_le assms(4)]
    by (simp add: unat_of_nat fits_def)
  have count: "unat (of_nat (length ?ds) :: 64 word) = length ?ds"
    using assms(4) by (simp add: unat_of_nat)
  have "fits rnd b ?ds \<le> fits rnd b' ?ds"
    unfolding fits_def length_filter_conv_card using assms(7)
    by (intro card_mono) auto
  then show ?thesis
    using request_histogram [OF assms(1-3)] assms(5,6)
    by (simp add: Let_def list_all_iff unat count) (simp add: fits_def)
qed

lemma histogram_cumulative_witness:
  "let h = Mapping.lookup_default new_histogram
         (hv_values (m_RequestDuration (metrics_run id sample_ops))) (Join [''a'', ''GET''] [NUL])
   in unat (h_count h) = 2 \<and> unat (bucket_count h 1) = 1 \<and> unat (bucket_count h (5/2)) \<le> 2"
proof -
  have ds: "request_durations ''a'' ''GET'' sample_ops = [1500000000, 3000000]"
    by (simp add: request_durations_def sample_ops_def)
  have "Seconds id 1500000000 = 3/2" "Seconds id 3000000 = 3/1000"
    by (simp_all add: Seconds_def tdiv_def)
  then show ?thesis
    using histogram_cumulative [of sample_ops "''a''" "''GET''" id 1 "5/2"] ds
    by (simp add: sample_ops_def no_nul_def NUL_def defaultBuckets_def Let_def)
qed

text \<open>The breaker gauges after a snapshot: one for each of its keys, and no other.\<close>

lemma breaker_gauges_fold:
  "distinct ks \<Longrightarrow> Mapping.lookup (gv_values (fold (\<lambda>key. GaugeVec_Set (f key) [key, '''']) ks gv)) k =
     (if \<exists>x \<in> set ks. k = x @ [NUL] then Some (f (butlast k)) else Mapping.lookup (gv_values gv) k)"
  by (induction ks arbitrary: gv) auto

lemma ordered_keys_finite:
  "finite (Mapping.keys mp) \<Longrightarrow> set (Mapping.ordered_keys mp) = Mapping.keys mp"
  "distinct (Mapping.ordered_keys mp)"
  by (simp_all add: Mapping.ordered_keys_def)

lemma SetBreakerStates_lookup:
  assumes "finite (Mapping.keys snap)"
  shows "Mapping.lookup (gv_values (m_CircuitBreakerState (SetBreakerStates snap m))) key =
    (if \<exists>k. key = k @ [NUL] then Mapping.lookup snap (butlast key) else None)"
proof (cases "\<exists>k \<in> Mapping.keys snap. key = k @ [NUL]")
  case True
  then obtain k where "Mapping.lookup snap k \<noteq> None" "key = k @ [NUL]"
    by (auto simp: keys_is_none_rep Option.is_none_def)
  then show ?thesis
    using True assms
    by (auto simp: SetBreakerStates_def breaker_gauges_fold ordered_keys_finite lookup_default_def)
next
  case False
  then have "Mapping.lookup snap (butlast key) = None" if "key = k @ [NUL]" for k
    using that by (auto simp: keys_is_none_rep Option.is_none_def)
  then show ?thesis
    using False assms by (auto simp: SetBreakerStates_def breaker_gauges_fold ordered_keys_finite)
qed

end
