(* ===== verification/Gateway_Response.thy ===== *)
theory Gateway_Response
  imports Prom_Metrics
begin

text \<open>
  The response side of \<open>internal/server/server.go\<close>: the \<open>statusRecorder\<close> every request is
  served through, and \<open>writeJSON\<close>.

  The recorder embeds the writer it wraps, so it is the writer with two fields more.
  \<open>WriteHeader\<close> keeps the first code it is called with; the lemmas compare it with the status
  the client gets, which is the first code that is not informational.
\<close>

subsection \<open>statusRecorder\<close>

record statusRecorder = ResponseWriter +
  sr_statusCode :: int
  sr_wroteHeader :: bool

definition new_recorder :: "ResponseWriter \<Rightarrow> statusRecorder" where
  "new_recorder w = \<lparr>w_Header = w_Header w, w_ops = w_ops w, sr_statusCode = 0, sr_wroteHeader = False\<rparr>"

definition Rec_SetHeader :: "statusRecorder \<Rightarrow> string \<Rightarrow> string \<Rightarrow> statusRecorder" where
  "Rec_SetHeader r k v = r\<lparr>w_Header := Header_Set (w_Header r) k v\<rparr>"

definition Rec_AddHeader :: "statusRecorder \<Rightarrow> string \<Rightarrow> string \<Rightarrow> statusRecorder" where
  "Rec_AddHeader r k v = r\<lparr>w_Header := Header_Add (w_Header r) k v\<rparr>"

definition Rec_ClearHeaders :: "statusRecorder \<Rightarrow> statusRecorder" where
  "Rec_ClearHeaders r = r\<lparr>w_Header := Map.empty\<rparr>"

definition Rec_WriteHeader :: "statusRecorder \<Rightarrow> int \<Rightarrow> statusRecorder" where
  "Rec_WriteHeader r code =
     (let r = (if \<not> sr_wroteHeader r then r\<lparr>sr_statusCode := code, sr_wroteHeader := True\<rparr> else r)
      in r\<lparr>w_ops := w_ops r @ [OpWriteHeader code (w_Header r)]\<rparr>)"

definition Rec_Write :: "statusRecorder \<Rightarrow> string \<Rightarrow> statusRecorder" where
  "Rec_Write r data =
     (let r = (if \<not> sr_wroteHeader r then Rec_WriteHeader r 200 else r)
      in r\<lparr>w_ops := w_ops r @ [OpWrite data]\<rparr>)"

definition Rec_Status :: "statusRecorder \<Rightarrow> int" where
  "Rec_Status r = sr_statusCode r"

text \<open>What a handler can do with the writer it is given.\<close>

datatype rec_call =
    CallSetHeader string string
  | CallAddHeader string string
  | CallClearHeaders
  | CallWriteHeader int
  | CallWrite string

fun rec_step :: "rec_call \<Rightarrow> statusRecorder \<Rightarrow> statusRecorder" where
  "rec_step (CallSetHeader k v) r = Rec_SetHeader r k v"
| "rec_step (CallAddHeader k v) r = Rec_AddHeader r k v"
| "rec_step CallClearHeaders r = Rec_ClearHeaders r"
| "rec_step (CallWriteHeader code) r = Rec_WriteHeader r code"
| "rec_step (CallWrite data) r = Rec_Write r data"

definition rec_run :: "rec_call list \<Rightarrow> statusRecorder \<Rightarrow> statusRecorder" where
  "rec_run calls r = fold rec_step calls r"

fun writes :: "rec_call \<Rightarrow> bool" where
  "writes (CallSetHeader k v) = False"
| "writes (CallAddHeader k v) = False"
| "writes CallClearHeaders = False"
| "writes c = True"

fun call_final :: "rec_call \<Rightarrow> bool" where
  "call_final (CallWriteHeader code) \<longleftrightarrow> \<not> informational code"
| "call_final c \<longleftrightarrow> True"

lemma Rec_simps [simp]:
  "w_ops (Rec_WriteHeader r code) = w_ops r @ [OpWriteHeader code (w_Header r)]"
  "w_Header (Rec_WriteHeader r code) = w_Header r"
  "sr_wroteHeader (Rec_WriteHeader r code)"
  "sr_statusCode (Rec_WriteHeader r code) = (if sr_wroteHeader r then sr_statusCode r else code)"
  "w_Header (Rec_Write r data) = w_Header r"
  "sr_wroteHeader (Rec_Write r data)"
  "sr_statusCode (Rec_Write r data) = (if sr_wroteHeader r then sr_statusCode r else 200)"
  "w_ops (Rec_Write r data) =
     w_ops r @ (if sr_wroteHeader r then [] else [OpWriteHeader 200 (w_Header r)]) @ [OpWrite data]"
  "w_ops (Rec_SetHeader r k v) = w_ops r"
  "w_Header (Rec_SetHeader r k v) = Header_Set (w_Header r) k v"
  "sr_wroteHeader (Rec_SetHeader r k v) = sr_wroteHeader r"
  "sr_statusCode (Rec_SetHeader r k v) = sr_statusCode r"
  "w_ops (Rec_AddHeader r k v) = w_ops r"
  "w_Header (Rec_AddHeader r k v) = Header_Add (w_Header r) k v"
  "sr_wroteHeader (Rec_AddHeader r k v) = sr_wroteHeader r"
  "sr_statusCode (Rec_AddHeader r k v) = sr_statusCode r"
  "w_ops (Rec_ClearHeaders r) = w_ops r"
  "w_Header (Rec_ClearHeaders r) = Map.empty"
  "sr_wroteHeader (Rec_ClearHeaders r) = sr_wroteHeader r"
  "sr_statusCode (Rec_ClearHeaders r) = sr_statusCode r"
  by (simp_all add: Rec_WriteHeader_def Rec_Write_def Rec_SetHeader_def Rec_AddHeader_def
      Rec_ClearHeaders_def Let_def)

lemma new_recorder_simps [simp]:
  "w_ops (new_recorder w) = w_ops w" "w_Header (new_recorder w) = w_Header w"
  "sr_statusCode (new_recorder w) = 0" "\<not> sr_wroteHeader (new_recorder w)"
  by (simp_all add: new_recorder_def)

text \<open>
  The recorder invariant while no informational code is written: nothing is written yet and the
  status reads 0, or the status is the client's.
\<close>

definition rec_inv :: "statusRecorder \<Rightarrow> bool" where
  "rec_inv r \<longleftrightarrow>
     (if sr_wroteHeader r
      then \<not> informational (sr_statusCode r) \<and>
        (\<exists>h ops. w_ops r = OpWriteHeader (sr_statusCode r) h # ops)
      else w_ops r = [] \<and> sr_statusCode r = 0)"

lemma rec_inv_new: "w_ops w = [] \<Longrightarrow> rec_inv (new_recorder w)"
  by (simp add: rec_inv_def)

lemma rec_inv_step: "rec_inv r \<Longrightarrow> call_final c \<Longrightarrow> rec_inv (rec_step c r)"
  by (cases c) (auto simp: rec_inv_def informational_def split: if_splits)

lemma rec_inv_run: "rec_inv r \<Longrightarrow> list_all call_final cs \<Longrightarrow> rec_inv (rec_run cs r)"
  unfolding rec_run_def by (induction cs arbitrary: r) (simp_all add: rec_inv_step)

lemma rec_run_wrote:
  "sr_wroteHeader (rec_run cs r) \<longleftrightarrow> sr_wroteHeader r \<or> list_ex writes cs"
  unfolding rec_run_def
proof (induction cs arbitrary: r)
  case (Cons c cs)
  then show ?case by (cases c) simp_all
qed simp

lemma rec_inv_status: "rec_inv r \<Longrightarrow> sr_wroteHeader r \<Longrightarrow> written_status (w_ops r) = sr_statusCode r"
  by (auto simp: rec_inv_def)

text \<open>
  Whatever a handler writes, as long as it sends no informational code, the status the
  recorder reports is the status the client gets; it is 0 while nothing is written, where the
  client will get 200.
\<close>

theorem recorder_status:
  assumes "list_all call_final calls" "w_ops w = []"
  shows "Rec_Status (rec_run calls (new_recorder w)) =
    (if list_ex writes calls then written_status (w_ops (rec_run calls (new_recorder w))) else 0)"
proof -
  have inv: "rec_inv (rec_run calls (new_recorder w))"
    using assms by (intro rec_inv_run rec_inv_new)
  show ?thesis
  proof (cases "list_ex writes calls")
    case True
    with inv show ?thesis by (simp add: Rec_Status_def rec_inv_status rec_run_wrote)
  next
    case False
    then have "\<not> sr_wroteHeader (rec_run calls (new_recorder w))" by (simp add: rec_run_wrote)
    with inv False show ?thesis by (simp add: Rec_Status_def rec_inv_def)
  qed
qed

lemma recorder_status_witness:
  "Rec_Status (rec_run [CallSetHeader ''Content-Type'' ''text/plain'', CallWriteHeader 502,
     CallWriteHeader 200, CallWrite ''x''] (new_recorder new_writer)) = 502"
  using recorder_status [of "[CallSetHeader ''Content-Type'' ''text/plain'', CallWriteHeader 502,
     CallWriteHeader 200, CallWrite ''x'']" new_writer]
  by (simp add: informational_def new_writer_def rec_run_def)

text \<open>
  An informational code hides the final one: after a handler that first writes a 1xx code
  other than 101, as the reverse proxy does with the 1xx responses of an upstream, the recorder
  reports that code whatever is written later, while the client gets the final status.
\<close>

theorem recorder_informational:
  assumes "informational code" "\<not> informational status" "w_ops w = []"
  shows "let r = rec_run (CallWriteHeader code # CallWriteHeader status # calls) (new_recorder w)
    in Rec_Status r = code \<and> written_status (w_ops r) = status"
proof -
  have "sr_statusCode (rec_run calls r) = sr_statusCode r \<and> (\<exists>ops. w_ops (rec_run calls r) = w_ops r @ ops)"
    if "sr_wroteHeader r" for r
    unfolding rec_run_def using that
  proof (induction calls arbitrary: r)
    case (Cons c cs)
    from Cons.prems have "sr_wroteHeader (rec_step c r)" "sr_statusCode (rec_step c r) = sr_statusCode r"
      "\<exists>ops. w_ops (rec_step c r) = w_ops r @ ops"
      by (cases c; simp)+
    with Cons.IH [of "rec_step c r"] show ?case by auto
  qed simp
  from this [of "Rec_WriteHeader (Rec_WriteHeader (new_recorder w) code) status"] assms
  show ?thesis by (auto simp: Let_def Rec_Status_def rec_run_def)
qed

lemma recorder_informational_witness:
  "let r = rec_run [CallWriteHeader 103, CallWriteHeader 502, CallWrite ''x''] (new_recorder new_writer)
   in Rec_Status r = 103 \<and> written_status (w_ops r) = 502"
  using recorder_informational [of 103 502 new_writer "[CallWrite ''x'']"]
  by (simp add: informational_def new_writer_def)

subsection \<open>writeJSON\<close>

record errorBody =
  eb_Error :: string
  eb_Code :: string

text \<open>
  \<open>json.Encoder.Encode\<close> of an \<open>errorBody\<close>. The bodies the gateway sends are the constants
  below; none has a character that JSON escapes (\<open>error_bodies_plain\<close>).
\<close>

definition json_plain :: "string \<Rightarrow> bool" where
  "json_plain s \<longleftrightarrow> list_all (\<lambda>c. CHR '' '' \<le> c \<and> c \<le> CHR ''~'' \<and>
     c \<notin> {CHR 0x22, CHR 0x5C, CHR ''<'', CHR ''>'', CHR ''&''}) s"

definition encode_error :: "errorBody \<Rightarrow> string" where
  "encode_error b =
     ''{'' @ json_field ''error'' (eb_Error b) @ '','' @ json_field ''code'' (eb_Code b) @ ''}'' @ newline"

definition writeJSON :: "statusRecorder \<Rightarrow> int \<Rightarrow> errorBody \<Rightarrow> statusRecorder" where
  "writeJSON w status v =
     (let w = Rec_SetHeader w ''Content-Type'' ''application/json; charset=utf-8'';
          w = Rec_WriteHeader w status
      in Rec_Write w (encode_error v))"

definition body_not_found :: errorBody where
  "body_not_found = \<lparr>eb_Error = ''no route matched'', eb_Code = ''ROUTE_NOT_FOUND''\<rparr>"

definition body_no_upstream :: errorBody where
  "body_no_upstream = \<lparr>eb_Error = ''no upstream available'', eb_Code = ''NO_UPSTREAM''\<rparr>"

definition body_circuit_open :: errorBody where
  "body_circuit_open = \<lparr>eb_Error = ''upstream circuit breaker open'', eb_Code = ''CIRCUIT_OPEN''\<rparr>"

definition body_jwt_invalid :: errorBody where
  "body_jwt_invalid = \<lparr>eb_Error = ''invalid or missing JWT token'', eb_Code = ''JWT_INVALID''\<rparr>"

definition body_auth_required :: errorBody where
  "body_auth_required = \<lparr>eb_Error = ''authentication required'', eb_Code = ''AUTH_REQUIRED''\<rparr>"

definition body_rate_limited :: errorBody where
  "body_rate_limited = \<lparr>eb_Error = ''rate limit exceeded'', eb_Code = ''RATE_LIMITED''\<rparr>"

lemma error_bodies_plain:
  "list_all (\<lambda>b. json_plain (eb_Error b) \<and> json_plain (eb_Code b))
     [body_not_found, body_no_upstream, body_circuit_open, body_jwt_invalid, body_auth_required,
      body_rate_limited]"
  by code_simp

lemma writeJSON_fresh [simp]:
  assumes "\<not> sr_wroteHeader w" "w_ops w = []" "\<not> informational status"
  shows "Rec_Status (writeJSON w status v) = status"
    and "written_status (w_ops (writeJSON w status v)) = status"
    and "written_body (w_ops (writeJSON w status v)) = encode_error v"
    and "w_Header (writeJSON w status v) =
      Header_Set (w_Header w) ''Content-Type'' ''application/json; charset=utf-8''"
  using assms by (simp_all add: writeJSON_def Let_def Rec_Status_def)

end
