(* ===== verification/Upstream_Director.thy ===== *)
theory Upstream_Director
  imports Route_Match
begin

text \<open>
  The director of the reverse proxy in \<open>internal/server/server.go\<close>: \<open>dynamicDirector\<close>, which
  points an outgoing request at the upstream held in its context, and \<open>singleJoiningSlash\<close>.
\<close>

definition singleJoiningSlash :: "string \<Rightarrow> string \<Rightarrow> string" where
  "singleJoiningSlash a b =
     (let a = TrimRight a ''/'';
          b = TrimLeft b ''/''
      in if a = '''' then ''/'' @ b else a @ ''/'' @ b)"

definition join_query :: "string \<Rightarrow> string \<Rightarrow> string" where
  "join_query target_query query =
     (if target_query = '''' \<or> query = '''' then target_query @ query
      else target_query @ ''&'' @ query)"

definition dynamicDirector :: "Request \<Rightarrow> Request" where
  "dynamicDirector r =
     (case rq_target r of
        None \<Rightarrow> r
      | Some target \<Rightarrow>
          let u = rq_URL r;
              u = u\<lparr>url_Scheme := url_Scheme target, url_Host := url_Host target,
                    url_Path := singleJoiningSlash (url_Path target) (url_Path u)\<rparr>;
              u = u\<lparr>url_RawQuery := join_query (url_RawQuery target) (url_RawQuery u)\<rparr>;
              r = r\<lparr>rq_URL := u\<rparr>
          in if rq_Header r ''User-Agent'' = None
             then r\<lparr>rq_Header := Header_Set (rq_Header r) ''User-Agent'' ''GoGateway/1.0''\<rparr>
             else r)"

subsection \<open>Joining paths\<close>

text \<open>The unexported helper of \<open>net/http/httputil\<close> the code's comment refers to.\<close>

definition httputil_join :: "string \<Rightarrow> string \<Rightarrow> string" where
  "httputil_join a b =
     (let aslash = HasSuffix a ''/''; bslash = HasPrefix b ''/''
      in if aslash \<and> bslash then a @ drop 1 b
         else if \<not> aslash \<and> \<not> bslash then a @ ''/'' @ b
         else a @ b)"

lemma singleJoiningSlash_eq: "singleJoiningSlash a b = TrimRight a ''/'' @ ''/'' @ TrimLeft b ''/''"
  by (simp add: singleJoiningSlash_def Let_def)

lemma TrimLeft_slash: "TrimLeft b ''/'' \<noteq> CHR ''/'' # t"
proof
  assume eq: "TrimLeft b ''/'' = CHR ''/'' # t"
  then have "hd (dropWhile (\<lambda>c. c = CHR ''/'') b) = CHR ''/''" "dropWhile (\<lambda>c. c = CHR ''/'') b \<noteq> []"
    by (simp_all add: TrimLeft_def)
  then show False using hd_dropWhile [of "\<lambda>c. c = CHR ''/''" b] by simp
qed

lemma TrimRight_rev: "TrimRight a cs = rev (TrimLeft (rev a) cs)"
  by (simp add: TrimRight_def TrimLeft_def)

lemma TrimLeft_once:
  "\<not> HasPrefix b ''//'' \<Longrightarrow> TrimLeft b ''/'' = (if HasPrefix b ''/'' then drop 1 b else b)"
  by (cases b; cases "tl b") (auto simp: TrimLeft_def HasPrefix_def)

lemma HasSuffix_rev: "HasSuffix a p \<longleftrightarrow> HasPrefix (rev a) (rev p)"
  by (auto simp: HasSuffix_iff HasPrefix_iff) (metis rev_append rev_rev_ident)

lemma TrimRight_once:
  assumes "\<not> HasSuffix a ''//''"
  shows "TrimRight a ''/'' @ ''/'' = (if HasSuffix a ''/'' then a else a @ ''/'')"
proof (cases "HasSuffix a ''/''")
  case True
  then obtain t where a: "a = t @ ''/''" by (auto simp: HasSuffix_iff)
  have "\<not> HasPrefix (rev a) ''//''" using assms by (simp add: HasSuffix_rev)
  then have "TrimRight a ''/'' = t" using a TrimLeft_once [of "rev a"] by (simp add: TrimRight_rev HasPrefix_def)
  then show ?thesis using True a by simp
next
  case False
  then have "\<not> HasPrefix (rev a) ''/''" "\<not> HasPrefix (rev a) ''//''"
    using assms by (simp_all add: HasSuffix_rev)
  then show ?thesis using False TrimLeft_once [of "rev a"] by (simp add: TrimRight_rev)
qed

text \<open>
  The joined path has exactly one slash at the joint, whatever slashes the parts have
  there. It is the path the helper of \<open>httputil\<close> builds when neither part has two slashes at
  the joint; with two the results differ.
\<close>

theorem singleJoiningSlash_spec:
  "(\<exists>p q. singleJoiningSlash a b = p @ ''/'' @ q \<and> \<not> HasSuffix p ''/'' \<and> \<not> HasPrefix q ''/'' \<and>
      (\<exists>x. a = p @ x \<and> set x \<subseteq> {CHR ''/''}) \<and> (\<exists>y. b = y @ q \<and> set y \<subseteq> {CHR ''/''})) \<and>
   (HasSuffix a ''//'' \<or> HasPrefix b ''//'' \<or> singleJoiningSlash a b = httputil_join a b) \<and>
   singleJoiningSlash ''/api'' ''//v1'' \<noteq> httputil_join ''/api'' ''//v1''"
proof (intro conjI)
  obtain y where y: "b = y @ TrimLeft b ''/''" "set y \<subseteq> {CHR ''/''}"
    using TrimLeft_eq [of b "''/''"] by auto
  obtain z where z: "rev a = z @ TrimLeft (rev a) ''/''" "set z \<subseteq> {CHR ''/''}"
    using TrimLeft_eq [of "rev a" "''/''"] by auto
  from z have a: "a = TrimRight a ''/'' @ rev z" "set (rev z) \<subseteq> {CHR ''/''}"
    by (metis TrimRight_rev rev_append rev_rev_ident, simp)
  show "\<exists>p q. singleJoiningSlash a b = p @ ''/'' @ q \<and> \<not> HasSuffix p ''/'' \<and> \<not> HasPrefix q ''/'' \<and>
      (\<exists>x. a = p @ x \<and> set x \<subseteq> {CHR ''/''}) \<and> (\<exists>y. b = y @ q \<and> set y \<subseteq> {CHR ''/''})"
  proof (intro exI conjI)
    show "singleJoiningSlash a b = TrimRight a ''/'' @ ''/'' @ TrimLeft b ''/''"
      by (rule singleJoiningSlash_eq)
    show "\<not> HasSuffix (TrimRight a ''/'') ''/''" "\<not> HasPrefix (TrimLeft b ''/'') ''/''"
      using TrimLeft_slash by (auto simp: HasSuffix_rev TrimRight_rev HasPrefix_iff)
    show "a = TrimRight a ''/'' @ rev z" "set (rev z) \<subseteq> {CHR ''/''}"
      "b = y @ TrimLeft b ''/''" "set y \<subseteq> {CHR ''/''}"
      by (fact a y)+
  qed
  show "HasSuffix a ''//'' \<or> HasPrefix b ''//'' \<or> singleJoiningSlash a b = httputil_join a b"
  proof (cases "HasSuffix a ''//'' \<or> HasPrefix b ''//''")
    case False
    then have l: "TrimLeft b ''/'' = (if HasPrefix b ''/'' then drop 1 b else b)"
      and r: "TrimRight a ''/'' @ ''/'' = (if HasSuffix a ''/'' then a else a @ ''/'')"
      by (simp_all add: TrimLeft_once TrimRight_once)
    have "singleJoiningSlash a b = (TrimRight a ''/'' @ ''/'') @ TrimLeft b ''/''"
      by (simp add: singleJoiningSlash_eq)
    also have "\<dots> = httputil_join a b"
      unfolding l r by (auto simp: httputil_join_def Let_def HasPrefix_iff)
    finally show ?thesis by blast
  qed blast
  show "singleJoiningSlash ''/api'' ''//v1'' \<noteq> httputil_join ''/api'' ''//v1''" by code_simp
qed

subsection \<open>The outgoing request\<close>

text \<open>
  The director sends the request to its target and nowhere else: scheme and host are the
  target's, the path is the joined path, the query both queries, and of the rest only a missing
  \<open>User-Agent\<close> is filled in. A request without a target is left alone. The encoded path
  (\<open>RawPath\<close>) is the client's in every case.
\<close>

theorem dynamicDirector_spec:
  "let out = dynamicDirector r in
   (case rq_target r of
      None \<Rightarrow> out = r
    | Some target \<Rightarrow>
        url_Scheme (rq_URL out) = url_Scheme target \<and> url_Host (rq_URL out) = url_Host target \<and>
        url_Path (rq_URL out) = singleJoiningSlash (url_Path target) (url_Path (rq_URL r)) \<and>
        url_RawQuery (rq_URL out) = join_query (url_RawQuery target) (url_RawQuery (rq_URL r)) \<and>
        rq_Header out = (if rq_Header r ''User-Agent'' = None
          then (rq_Header r)(''User-Agent'' \<mapsto> [''GoGateway/1.0'']) else rq_Header r)) \<and>
   url_RawPath (rq_URL out) = url_RawPath (rq_URL r) \<and> rq_Method out = rq_Method r \<and>
   rq_Host out = rq_Host r \<and> rq_RemoteAddr out = rq_RemoteAddr r \<and> rq_target out = rq_target r"
  by (simp add: dynamicDirector_def Let_def Header_Set_def split: option.splits)

end
