(* ===== verification/Proxy_Request.thy ===== *)
theory Proxy_Request
  imports Upstream_Director
begin

text \<open>
  The request \<open>httputil.ReverseProxy\<close> of the Go 1.22 standard library sends upstream when it is
  set up the way \<open>New\<close> in \<open>internal/server/server.go\<close> does, with a director and no more: a copy
  of the incoming request, changed by the director, without its hop-by-hop headers, and with
  the client's address added to \<open>X-Forwarded-For\<close>.

  The headers a client lists in \<open>Connection\<close> are hop-by-hop too, and they are removed after the
  gateway's own headers were set.
\<close>

subsection \<open>Header values\<close>

definition http_space :: string where
  "http_space = [CHR '' '', CHR 0x09, CHR 0x0A, CHR 0x0D]"

definition http_ows :: string where
  "http_ows = [CHR '' '', CHR 0x09]"

definition trim :: "string \<Rightarrow> string \<Rightarrow> string" where
  "trim cs s = TrimRight (TrimLeft s cs) cs"

text \<open>\<open>httpguts.HeaderValuesContainsToken\<close>: comma-separated tokens, compared without case.\<close>

definition tokenEqual :: "string \<Rightarrow> string \<Rightarrow> bool" where
  "tokenEqual a b \<longleftrightarrow> list_all (\<lambda>c. (of_char c :: nat) < 128) a \<and> map downcase a = map downcase b"

definition contains_token :: "string list \<Rightarrow> string \<Rightarrow> bool" where
  "contains_token vs token \<longleftrightarrow>
     list_ex (\<lambda>v. list_ex (\<lambda>p. tokenEqual (trim http_ows p) token) (Split v CHR '','')) vs"

definition upgradeType :: "header \<Rightarrow> string" where
  "upgradeType h =
     (if contains_token (header_values h ''Connection'') ''Upgrade'' then Header_Get h ''Upgrade'' else '''')"

definition is_print :: "string \<Rightarrow> bool" where
  "is_print s \<longleftrightarrow> list_all (\<lambda>c. CHR '' '' \<le> c \<and> c \<le> CHR ''~'') s"

subsection \<open>Hop-by-hop headers\<close>

text \<open>The names in the \<open>Connection\<close> header.\<close>

definition connection_options :: "header \<Rightarrow> string list" where
  "connection_options h =
     filter (\<lambda>s. s \<noteq> '''') (map (trim http_space)
       (concat (map (\<lambda>f. Split f CHR '','') (header_values h ''Connection''))))"

definition hopHeaders :: "string list" where
  "hopHeaders = [''Connection'', ''Proxy-Connection'', ''Keep-Alive'', ''Proxy-Authenticate'',
     ''Proxy-Authorization'', ''Te'', ''Trailer'', ''Transfer-Encoding'', ''Upgrade'']"

definition removeHopByHopHeaders :: "header \<Rightarrow> header" where
  "removeHopByHopHeaders h =
     fold (\<lambda>k h. Header_Del h k) hopHeaders (fold (\<lambda>k h. Header_Del h k) (connection_options h) h)"

subsection \<open>The client's address\<close>

text \<open>\<open>net.SplitHostPort\<close>, of which only the host is used.\<close>

definition split_host :: "string \<Rightarrow> string option" where
  "split_host s =
     (if CHR '':'' \<notin> set s then None
      else
        let port = rev (takeWhile (\<lambda>c. c \<noteq> CHR '':'') (rev s));
            host = take (length s - length port - 1) s
        in if hd s = CHR ''['' then
             (let ip = takeWhile (\<lambda>c. c \<noteq> CHR '']'') (tl s)
              in if CHR '']'' \<notin> set s \<or> length ip + 2 \<noteq> length host
                    \<or> CHR ''['' \<in> set (tl s) \<or> CHR '']'' \<in> set port
                 then None else Some ip)
           else if CHR '':'' \<in> set host \<or> CHR ''['' \<in> set s \<or> CHR '']'' \<in> set s then None
           else Some host)"

definition add_forwarded_for :: "string \<Rightarrow> header \<Rightarrow> header" where
  "add_forwarded_for addr h =
     (case split_host addr of
        None \<Rightarrow> h
      | Some ip \<Rightarrow>
          let prior = header_values h ''X-Forwarded-For''
          in Header_Set h ''X-Forwarded-For''
               (if prior = [] then ip else Join prior '', '' @ '', '' @ ip))"

subsection \<open>The outgoing request\<close>

text \<open>
  A request that asks to switch to a protocol whose name is not printable is not sent
  (\<open>None\<close>): the proxy answers it 502 by itself.
\<close>

definition proxy_request :: "Request \<Rightarrow> Request option" where
  "proxy_request r =
     (let outreq = dynamicDirector r;
          reqUpType = upgradeType (rq_Header outreq)
      in if \<not> is_print reqUpType then None
         else
           let h = removeHopByHopHeaders (rq_Header outreq);
               h = (if contains_token (header_values (rq_Header r) ''Te'') ''trailers''
                    then Header_Set h ''Te'' ''trailers'' else h);
               h = (if reqUpType \<noteq> ''''
                    then Header_Set (Header_Set h ''Connection'' ''Upgrade'') ''Upgrade'' reqUpType else h);
               h = add_forwarded_for (rq_RemoteAddr r) h;
               h = (if h ''User-Agent'' = None then Header_Set h ''User-Agent'' '''' else h)
           in Some (outreq\<lparr>rq_Header := h\<rparr>))"

subsection \<open>Lemmas\<close>

lemma hop_keys [simp]:
  "CanonicalHeaderKey ''Connection'' = ''Connection''" "CanonicalHeaderKey ''Te'' = ''Te''"
  "CanonicalHeaderKey ''Upgrade'' = ''Upgrade''"
  by code_simp+

lemma hopHeaders_canonical: "map CanonicalHeaderKey hopHeaders = hopHeaders"
  by code_simp

lemma fold_Header_Del:
  "fold (\<lambda>k h. Header_Del h k) ks h = (\<lambda>k. if k \<in> CanonicalHeaderKey ` set ks then None else h k)"
  by (induction ks arbitrary: h) (auto simp: Header_Del_def)

text \<open>What is removed: the headers the connection names, and the fixed ones.\<close>

definition hop_by_hop :: "header \<Rightarrow> string \<Rightarrow> bool" where
  "hop_by_hop h k \<longleftrightarrow> k \<in> CanonicalHeaderKey ` set (connection_options h) \<or> k \<in> set hopHeaders"

lemma removeHopByHopHeaders_eq:
  "removeHopByHopHeaders h = (\<lambda>k. if hop_by_hop h k then None else h k)"
proof -
  have "CanonicalHeaderKey ` set hopHeaders = set hopHeaders"
    by (metis hopHeaders_canonical set_map)
  then show ?thesis
    unfolding removeHopByHopHeaders_def fold_Header_Del by (auto simp: hop_by_hop_def)
qed

lemma hop_by_hop_cong:
  "h ''Connection'' = h' ''Connection'' \<Longrightarrow> hop_by_hop h k = hop_by_hop h' k"
  by (simp add: hop_by_hop_def connection_options_def header_values_def)

text \<open>The director, field by field.\<close>

lemma director_fields:
  "rq_Method (dynamicDirector r) = rq_Method r" "rq_Host (dynamicDirector r) = rq_Host r"
  "rq_RemoteAddr (dynamicDirector r) = rq_RemoteAddr r" "rq_target (dynamicDirector r) = rq_target r"
  by (simp_all add: dynamicDirector_def Let_def split: option.split)

lemma director_header:
  "k \<noteq> ''User-Agent'' \<Longrightarrow> rq_Header (dynamicDirector r) k = rq_Header r k"
  by (simp add: dynamicDirector_def Let_def Header_Set_def split: option.splits)

lemma director_User_Agent:
  "rq_Header (dynamicDirector r) ''User-Agent'' =
     (if rq_target r \<noteq> None \<and> rq_Header r ''User-Agent'' = None then Some [''GoGateway/1.0'']
      else rq_Header r ''User-Agent'')"
  by (simp add: dynamicDirector_def Header_Set_def Let_def split: option.split)

lemma upgradeType_director: "upgradeType (rq_Header (dynamicDirector r)) = upgradeType (rq_Header r)"
  using director_header [of "''Connection''" r] director_header [of "''Upgrade''" r]
  by (simp add: upgradeType_def header_values_def Header_Get_def)

lemma hop_by_hop_director: "hop_by_hop (rq_Header (dynamicDirector r)) k = hop_by_hop (rq_Header r) k"
  by (rule hop_by_hop_cong) (simp add: director_header)

lemma hop_by_hop_fixed: "hop_by_hop h ''Connection''" "hop_by_hop h ''Upgrade''" "hop_by_hop h ''Te''"
  by (simp_all add: hop_by_hop_def hopHeaders_def)

text \<open>The header before the client's address is added, and the last change to it.\<close>

definition relayed_header :: "Request \<Rightarrow> header" where
  "relayed_header r =
     (let h = removeHopByHopHeaders (rq_Header (dynamicDirector r));
          h = (if contains_token (header_values (rq_Header r) ''Te'') ''trailers''
               then Header_Set h ''Te'' ''trailers'' else h);
          up = upgradeType (rq_Header (dynamicDirector r))
      in if up \<noteq> '''' then Header_Set (Header_Set h ''Connection'' ''Upgrade'') ''Upgrade'' up else h)"

definition no_default_agent :: "header \<Rightarrow> header" where
  "no_default_agent h = (if h ''User-Agent'' = None then Header_Set h ''User-Agent'' '''' else h)"

lemma proxy_request_relayed:
  "proxy_request r =
     (if \<not> is_print (upgradeType (rq_Header r)) then None
      else Some ((dynamicDirector r)
        \<lparr>rq_Header := no_default_agent (add_forwarded_for (rq_RemoteAddr r) (relayed_header r))\<rparr>))"
  unfolding proxy_request_def relayed_header_def no_default_agent_def Let_def upgradeType_director ..

lemma proxy_request_None: "proxy_request r = None \<longleftrightarrow> \<not> is_print (upgradeType (rq_Header r))"
  by (simp add: proxy_request_relayed)

lemma proxy_request_frame:
  assumes "proxy_request r = Some out"
  shows "rq_URL out = rq_URL (dynamicDirector r)" "rq_Method out = rq_Method r"
    "rq_Host out = rq_Host r" "rq_target out = rq_target r" "rq_RemoteAddr out = rq_RemoteAddr r"
    "rq_Header out = no_default_agent (add_forwarded_for (rq_RemoteAddr r) (relayed_header r))"
  using assms by (auto simp: proxy_request_relayed director_fields split: if_splits)

lemma proxy_request_target:
  assumes "proxy_request r = Some out" "rq_target r = Some target"
  shows "url_Host (rq_URL out) = url_Host target" "url_Scheme (rq_URL out) = url_Scheme target"
  using assms(2) by (simp_all add: proxy_request_frame(1) [OF assms(1)] dynamicDirector_def Let_def)

lemma Join_snoc: "vs \<noteq> [] \<Longrightarrow> Join (vs @ [v]) sep = Join vs sep @ sep @ v"
  by (induction vs rule: induct_list012) simp_all

lemma add_forwarded_for_at:
  "k \<noteq> ''X-Forwarded-For'' \<Longrightarrow> add_forwarded_for addr h k = h k"
  "add_forwarded_for addr h ''X-Forwarded-For'' =
     (case split_host addr of
        None \<Rightarrow> h ''X-Forwarded-For''
      | Some ip \<Rightarrow> Some [Join (header_values h ''X-Forwarded-For'' @ [ip]) '', ''])"
  by (simp_all add: add_forwarded_for_def Header_Set_def Join_snoc Let_def split: option.split)

lemma no_default_agent_at:
  "no_default_agent h k = (if k = ''User-Agent'' \<and> h ''User-Agent'' = None then Some [''''] else h k)"
  by (simp add: no_default_agent_def Header_Set_def)

subsection \<open>The outgoing request, header by header\<close>

text \<open>
  The URL by what it should be: the two paths meet at one slash, every slash they have there
  gone; of the two queries the nonempty ones are joined by an ampersand, the target's first.
\<close>

definition one_slash :: "string \<Rightarrow> string \<Rightarrow> string" where
  "one_slash base rest =
     rev (dropWhile (\<lambda>c. c = CHR ''/'') (rev base)) @ CHR ''/'' # dropWhile (\<lambda>c. c = CHR ''/'') rest"

definition both_queries :: "string \<Rightarrow> string \<Rightarrow> string" where
  "both_queries q q' = Join (filter (\<lambda>q. q \<noteq> []) [q, q']) ''&''"

definition directed_URL :: "Request \<Rightarrow> URL" where
  "directed_URL r =
     (case rq_target r of
        None \<Rightarrow> rq_URL r
      | Some target \<Rightarrow> (rq_URL r)
          \<lparr>url_Scheme := url_Scheme target, url_Host := url_Host target,
           url_Path := one_slash (url_Path target) (url_Path (rq_URL r)),
           url_RawQuery := both_queries (url_RawQuery target) (url_RawQuery (rq_URL r))\<rparr>)"

lemma one_slash: "singleJoiningSlash a b = one_slash a b"
  by (simp add: singleJoiningSlash_eq one_slash_def TrimRight_rev TrimLeft_def)

lemma both_queries: "join_query q q' = both_queries q q'"
  by (simp add: join_query_def both_queries_def)

text \<open>What is left of the header \<open>key\<close> of the request after the hop-by-hop headers are gone.\<close>

definition kept_header :: "header \<Rightarrow> string \<Rightarrow> string list option" where
  "kept_header h key = (if hop_by_hop h key then None else h key)"

definition forwarded_for :: "Request \<Rightarrow> string list option" where
  "forwarded_for r =
     (let kept = kept_header (rq_Header r) ''X-Forwarded-For''
      in case split_host (rq_RemoteAddr r) of
           None \<Rightarrow> kept
         | Some ip \<Rightarrow> Some [Join ((case kept of None \<Rightarrow> [] | Some vs \<Rightarrow> vs) @ [ip]) '', ''])"

definition outgoing_header :: "Request \<Rightarrow> header" where
  "outgoing_header r = (\<lambda>key.
     let h = rq_Header r; upgrade = upgradeType h
     in if key = ''Connection'' then (if upgrade = '''' then None else Some [''Upgrade''])
        else if key = ''Upgrade'' then (if upgrade = '''' then None else Some [upgrade])
        else if key = ''Te'' then
          (if contains_token (header_values h ''Te'') ''trailers'' then Some [''trailers''] else None)
        else if key = ''X-Forwarded-For'' then forwarded_for r
        else if key = ''User-Agent'' then
          (if hop_by_hop h ''User-Agent'' then Some ['''']
           else case h ''User-Agent'' of
             Some vs \<Rightarrow> Some vs
           | None \<Rightarrow> Some [if rq_target r = None then '''' else ''GoGateway/1.0''])
        else kept_header h key)"

lemma directed_URL: "rq_URL (dynamicDirector r) = directed_URL r"
  by (simp add: dynamicDirector_def directed_URL_def one_slash both_queries Let_def split: option.split)

lemma relayed_header_at:
  "relayed_header r ''Te'' =
     (if contains_token (header_values (rq_Header r) ''Te'') ''trailers'' then Some [''trailers''] else None)"
  "relayed_header r ''Connection'' = (if upgradeType (rq_Header r) = '''' then None else Some [''Upgrade''])"
  "relayed_header r ''Upgrade'' =
     (if upgradeType (rq_Header r) = '''' then None else Some [upgradeType (rq_Header r)])"
  "k \<notin> {''Te'', ''Connection'', ''Upgrade'', ''User-Agent''} \<Longrightarrow>
     relayed_header r k = kept_header (rq_Header r) k"
  "relayed_header r ''User-Agent'' =
     (if hop_by_hop (rq_Header r) ''User-Agent'' then None else rq_Header (dynamicDirector r) ''User-Agent'')"
  by (simp_all add: relayed_header_def Header_Set_def removeHopByHopHeaders_eq hop_by_hop_director
      hop_by_hop_fixed upgradeType_director kept_header_def director_header Let_def)

lemma proxy_request_header:
  assumes "proxy_request r = Some out" "k \<notin> {''Te'', ''Connection'', ''Upgrade'', ''X-Forwarded-For'', ''User-Agent''}"
  shows "rq_Header out k = (if hop_by_hop (rq_Header r) k then None else rq_Header r k)"
  using assms(2) unfolding proxy_request_frame(6) [OF assms(1)]
  by (simp add: no_default_agent_at add_forwarded_for_at(1) relayed_header_at(4) kept_header_def)

lemma proxy_request_headers:
  assumes "proxy_request r = Some out"
  shows "rq_Header out = outgoing_header r"
proof (rule ext)
  fix k
  note out = proxy_request_frame(6) [OF assms]
  show "rq_Header out k = outgoing_header r k"
  proof (cases "k \<in> {''Te'', ''Connection'', ''Upgrade'', ''X-Forwarded-For'', ''User-Agent''}")
    case False
    then have "outgoing_header r k = kept_header (rq_Header r) k" by (simp add: outgoing_header_def Let_def)
    with proxy_request_header [OF assms False] show ?thesis by (simp add: kept_header_def)
  next
    case True
    have "relayed_header r ''X-Forwarded-For'' = kept_header (rq_Header r) ''X-Forwarded-For''"
      by (rule relayed_header_at(4)) simp
    then have forwarded: ?thesis if "k = ''X-Forwarded-For''"
      using that
      by (cases "split_host (rq_RemoteAddr r)")
        (simp_all add: out no_default_agent_at add_forwarded_for_at(2) outgoing_header_def
          forwarded_for_def header_values_def Let_def)
    have agent: ?thesis if "k = ''User-Agent''"
      using that
      by (simp add: out no_default_agent_at add_forwarded_for_at(1) relayed_header_at(5)
        director_User_Agent outgoing_header_def Let_def split: option.split)
    from True show ?thesis
      by (elim insertE emptyE forwarded agent)
        (simp_all add: out no_default_agent_at add_forwarded_for_at(1) relayed_header_at(1-3)
          outgoing_header_def Let_def)
  qed
qed

text \<open>
  C30: The request the upstream gets, in full. Its URL has the scheme and host of the target, the
  two paths joined at exactly one slash and the nonempty ones of the two queries joined by an
  ampersand, the rest the client's; method and host header are the client's; and each header is
  as the reference definition says: the client's or the gateway's value, unless it is hop-by-hop
  or listed in \<open>Connection\<close>, with the peer appended to \<open>X-Forwarded-For\<close> and \<open>GoGateway/1.0\<close> for a
  missing \<open>User-Agent\<close>. Nothing is sent exactly when the client wants to switch to a protocol
  whose name is not printable.
\<close>

theorem proxy_request_eq:
  "proxy_request r =
     (if is_print (upgradeType (rq_Header r))
      then Some (r\<lparr>rq_URL := directed_URL r, rq_Header := outgoing_header r\<rparr>) else None)"
proof (cases "proxy_request r")
  case None
  then show ?thesis using proxy_request_None [of r] by simp
next
  case (Some out)
  have "out = r\<lparr>rq_URL := directed_URL r, rq_Header := outgoing_header r\<rparr>"
    using proxy_request_frame [OF Some] proxy_request_headers [OF Some]
    by (simp add: directed_URL)
  with Some show ?thesis using proxy_request_None [of r] by auto
qed

end
