(* ===== verification/Proxy_Response.thy ===== *)
theory Proxy_Response
  imports Gateway_Response Proxy_Request
begin

text \<open>
  What \<open>httputil.ReverseProxy\<close> of the Go 1.22 standard library does with the upstream's reply
  when it is set up the way \<open>New\<close> in \<open>internal/server/server.go\<close> does, and writes to the
  \<open>statusRecorder\<close> of \<open>serveRoute\<close>.

  \<^item> The reply is what the transport returns: the informational responses before the final
    one, and an error or a final response. It is an argument of the model.
  \<^item> \<open>exchange_of\<close> is the sequence of calls on the response writer, and how the proxy's handler
    ends. An error is answered 502 by the default error handler.
  \<^item> The recorder is neither a \<open>Hijacker\<close> nor a \<open>Flusher\<close> and has no \<open>Unwrap\<close>, so a protocol
    switch ends in the error handler too, and nothing is flushed before the handler returns.
\<close>

subsection \<open>The reply of an upstream\<close>

type_synonym header_lines = "(string \<times> string) list"

record upstream_response =
  us_StatusCode :: int
  us_Header :: header_lines
  us_announced :: "string list"
  us_chunks :: "string list"
  us_complete :: bool
  us_Trailer :: header_lines

datatype upstream_answer = RoundTripError | Answer upstream_response

record upstream_reply =
  ur_early :: "(int \<times> header_lines) list"
  ur_answer :: upstream_answer

datatype outcome = Returned | Panicked go_panic

text \<open>
  What the client is sure to get: the status and the body written by a handler that returns. On
  a panic \<open>net/http\<close> closes the connection; of what was written, any part that was still
  buffered is lost, so the client never gets a complete answer.
\<close>

definition client_gets :: "outcome \<Rightarrow> wop list \<Rightarrow> (int \<times> string) option" where
  "client_gets res ops = (if res = Returned then Some (written_status ops, written_body ops) else None)"

subsection \<open>The calls of the proxy\<close>

definition header_of :: "header_lines \<Rightarrow> header" where
  "header_of ls = fold (\<lambda>(k, v) h. Header_Add h k v) ls Map.empty"

definition copyHeader :: "header_lines \<Rightarrow> rec_call list" where
  "copyHeader ls = map (\<lambda>(k, v). CallAddHeader k v) ls"

text \<open>The lines left of a response header.\<close>

definition kept_lines :: "header_lines \<Rightarrow> header_lines" where
  "kept_lines ls =
     filter (\<lambda>(k, v). removeHopByHopHeaders (header_of ls) (CanonicalHeaderKey k) \<noteq> None) ls"

text \<open>\<open>Got1xxResponse\<close>: the header map is emptied after each informational response.\<close>

definition early_calls :: "int \<times> header_lines \<Rightarrow> rec_call list" where
  "early_calls = (\<lambda>(code, ls). copyHeader ls @ [CallWriteHeader code, CallClearHeaders])"

definition trailer_lines :: "upstream_response \<Rightarrow> header_lines" where
  "trailer_lines res =
     (if set (map fst (us_Trailer res)) \<subseteq> set (us_announced res) then us_Trailer res
      else map (\<lambda>(k, v). (''Trailer:'' @ k, v)) (us_Trailer res))"

definition error_calls :: "rec_call list \<times> outcome" where
  "error_calls = ([CallWriteHeader 502], Returned)"

text \<open>
  \<open>WriteHeader\<close> panics outside 100 to 999, so the last call is the one that did not return then. An
  error while the body is copied aborts the handler.
\<close>

definition response_calls :: "upstream_response \<Rightarrow> rec_call list \<times> outcome" where
  "response_calls res =
     (let head = copyHeader (kept_lines (us_Header res)) @
            (if us_announced res = [] then []
             else [CallAddHeader ''Trailer'' (Join (us_announced res) '', '')]) @
            [CallWriteHeader (us_StatusCode res)];
          body = map CallWrite (us_chunks res)
      in if us_StatusCode res < 100 \<or> 999 < us_StatusCode res then (head, Panicked InvalidWriteHeaderCode)
         else if \<not> us_complete res then (head @ body, Panicked AbortHandler)
         else (head @ body @ copyHeader (trailer_lines res), Returned))"

definition exchange_of :: "upstream_reply \<Rightarrow> rec_call list \<times> outcome" where
  "exchange_of up =
     (let (calls, res) =
        (case ur_answer up of
           RoundTripError \<Rightarrow> error_calls
         | Answer res \<Rightarrow> if us_StatusCode res = 101 then error_calls else response_calls res)
      in (concat (map early_calls (ur_early up)) @ calls, res))"

subsection \<open>What the client and the recorder see\<close>

lemma rec_run_append: "rec_run (xs @ ys) r = rec_run ys (rec_run xs r)"
  by (simp add: rec_run_def)

lemma rec_run_Nil [simp]: "rec_run [] r = r"
  by (simp add: rec_run_def)

lemma rec_run_Cons: "rec_run (c # cs) r = rec_run cs (rec_step c r)"
  by (simp add: rec_run_def)

lemma rec_run_copyHeader [simp]:
  "w_ops (rec_run (copyHeader ls) r) = w_ops r"
  "sr_wroteHeader (rec_run (copyHeader ls) r) = sr_wroteHeader r"
  "sr_statusCode (rec_run (copyHeader ls) r) = sr_statusCode r"
  "w_Header (rec_run (copyHeader ls) r) = fold (\<lambda>(k, v) h. Header_Add h k v) ls (w_Header r)"
  by (induction ls arbitrary: r) (auto simp: rec_run_def copyHeader_def)

lemma rec_run_chunks [simp]:
  assumes "sr_wroteHeader r"
  shows "w_ops (rec_run (map CallWrite cs) r) = w_ops r @ map OpWrite cs"
    and "sr_wroteHeader (rec_run (map CallWrite cs) r)"
    and "sr_statusCode (rec_run (map CallWrite cs) r) = sr_statusCode r"
    and "w_Header (rec_run (map CallWrite cs) r) = w_Header r"
  using assms by (induction cs arbitrary: r) (auto simp: rec_run_def)

lemma written_body_chunks [simp]: "written_body (map OpWrite cs) = concat cs"
  by (induction cs) simp_all

text \<open>Adding never removes: the values already there stay in front.\<close>

lemma fold_Header_Add_values:
  "header_values (fold (\<lambda>(k, v) h. Header_Add h k v) ls h) key =
     header_values h key @ map snd (filter (\<lambda>(k, v). CanonicalHeaderKey k = key) ls)"
  by (induction ls arbitrary: h)
    (auto simp: Header_Add_def header_values_def Let_def split: option.splits)

lemma Header_Get_values:
  "Header_Get h k = (case header_values h (CanonicalHeaderKey k) of [] \<Rightarrow> '''' | v # vs \<Rightarrow> v)"
  by (simp add: Header_Get_def header_values_def split: option.splits list.splits)

lemma exchange_outcome:
  "snd (exchange_of up) \<in> {Returned, Panicked AbortHandler, Panicked InvalidWriteHeaderCode}"
  by (auto simp: exchange_of_def error_calls_def response_calls_def Let_def split: upstream_answer.splits)

text \<open>The header map the final response is sent with, from the one the gateway left.\<close>

definition sent_header :: "header \<Rightarrow> upstream_response \<Rightarrow> header" where
  "sent_header h res =
     (let h = fold (\<lambda>(k, v) h. Header_Add h k v) (kept_lines (us_Header res)) h
      in if us_announced res = [] then h else Header_Add h ''Trailer'' (Join (us_announced res) '', ''))"

lemma header_of_none:
  "header_of ls key = None \<longleftrightarrow> key \<notin> CanonicalHeaderKey ` fst ` set ls"
proof -
  have "fold (\<lambda>(k, v) h. Header_Add h k v) ls h key = None \<longleftrightarrow>
      h key = None \<and> key \<notin> CanonicalHeaderKey ` fst ` set ls" for h
    by (induction ls arbitrary: h) (auto simp: Header_Add_def Let_def split: if_splits)
  then show ?thesis by (simp add: header_of_def)
qed

lemma kept_lines_eq:
  "kept_lines ls = filter (\<lambda>(k, v). \<not> hop_by_hop (header_of ls) (CanonicalHeaderKey k)) ls"
proof -
  have "header_of ls (CanonicalHeaderKey k) \<noteq> None" if "(k, v) \<in> set ls" for k v
    unfolding header_of_none using that by force
  then show ?thesis
    unfolding kept_lines_def removeHopByHopHeaders_eq by (auto intro!: filter_cong)
qed

lemma sent_header_values:
  assumes "key \<noteq> ''Trailer''"
  shows "header_values (sent_header h res) key = header_values h key @
    (if hop_by_hop (header_of (us_Header res)) key then []
     else map snd (filter (\<lambda>(k, v). CanonicalHeaderKey k = key) (us_Header res)))"
proof -
  have t: "CanonicalHeaderKey ''Trailer'' = ''Trailer''" by code_simp
  have "header_values (sent_header h res) key =
      header_values (fold (\<lambda>(k, v) h. Header_Add h k v) (kept_lines (us_Header res)) h) key"
    using assms by (simp add: sent_header_def Let_def Header_Add_def t header_values_def)
  also have "\<dots> = header_values h key @ map snd (filter (\<lambda>(k, v). CanonicalHeaderKey k = key)
      (kept_lines (us_Header res)))"
    by (rule fold_Header_Add_values)
  also have "filter (\<lambda>(k, v). CanonicalHeaderKey k = key) (kept_lines (us_Header res)) =
      (if hop_by_hop (header_of (us_Header res)) key then []
       else filter (\<lambda>(k, v). CanonicalHeaderKey k = key) (us_Header res))"
    unfolding kept_lines_eq filter_filter
    by (auto simp: filter_empty_conv intro!: filter_cong)
  finally show ?thesis by simp
qed

text \<open>The informational part: each code is sent, the client waits on, and no header is left.\<close>

fun op_informational :: "wop \<Rightarrow> bool" where
  "op_informational (OpWriteHeader code h) = informational code"
| "op_informational (OpWrite data) = False"

definition early_ok :: "upstream_reply \<Rightarrow> bool" where
  "early_ok up \<longleftrightarrow> list_all (\<lambda>(code, ls). informational code) (ur_early up)"

lemma written_status_informational [simp]:
  "list_all op_informational xs \<Longrightarrow> written_status (xs @ ys) = written_status ys"
proof (induction xs)
  case (Cons op xs)
  then show ?case by (cases op) simp_all
qed simp

lemma written_body_informational [simp]: "list_all op_informational xs \<Longrightarrow> written_body xs = ''''"
proof (induction xs)
  case (Cons op xs)
  then show ?case by (cases op) simp_all
qed simp

lemma rec_run_early:
  assumes "list_all (\<lambda>(code, ls). informational code) es"
  shows "\<exists>xs. w_ops (rec_run (concat (map early_calls es)) w) = w_ops w @ xs \<and>
    list_all op_informational xs \<and> (es = [] \<longrightarrow> xs = [])"
    and "w_Header (rec_run (concat (map early_calls es)) w) = (if es = [] then w_Header w else Map.empty)"
    and "sr_wroteHeader (rec_run (concat (map early_calls es)) w) \<longleftrightarrow> sr_wroteHeader w \<or> es \<noteq> []"
    and "sr_statusCode (rec_run (concat (map early_calls es)) w) =
      (if sr_wroteHeader w \<or> es = [] then sr_statusCode w else fst (hd es))"
  using assms
proof (induction es arbitrary: w)
  case (Cons e es)
  obtain code ls where e: "e = (code, ls)" by (metis prod.collapse)
  let ?w = "\<lambda>w. rec_run (early_calls (code, ls)) w"
  have w: "w_ops (?w w) = w_ops w @ [OpWriteHeader code (w_Header (rec_run (copyHeader ls) w))]"
    "w_Header (?w w) = Map.empty" "sr_wroteHeader (?w w)"
    "sr_statusCode (?w w) = (if sr_wroteHeader w then sr_statusCode w else code)" for w
    by (simp_all add: e early_calls_def rec_run_append rec_run_Cons)
  { case (1 w)
    with Cons.IH(1) [of "?w w"] obtain xs where
      xs: "w_ops (rec_run (concat (map early_calls es)) (?w w)) = w_ops (?w w) @ xs" "list_all op_informational xs"
      by auto
    with 1 show ?case
      by (intro exI [of _ "OpWriteHeader code (w_Header (rec_run (copyHeader ls) w)) # xs"])
        (simp add: rec_run_append w e)
  next
    case (2 w)
    with Cons.IH(2) [of "?w w"] show ?case by (simp add: rec_run_append w e)
  next
    case (3 w)
    with Cons.IH(3) [of "?w w"] show ?case by (simp add: rec_run_append w e)
  next
    case (4 w)
    with Cons.IH(4) [of "?w w"] show ?case by (simp add: rec_run_append w e)
  }
qed simp_all

lemma exchange_answer:
  assumes "early_ok up" "ur_answer up = Answer res" "200 \<le> us_StatusCode res" "us_StatusCode res \<le> 999"
    and "\<not> sr_wroteHeader w"
  shows "\<exists>xs. list_all op_informational xs \<and> (ur_early up = [] \<longrightarrow> xs = []) \<and>
      w_ops (rec_run (fst (exchange_of up)) w) = w_ops w @ xs @
        OpWriteHeader (us_StatusCode res)
          (sent_header (if ur_early up = [] then w_Header w else Map.empty) res) #
        map OpWrite (us_chunks res)"
    and "sr_statusCode (rec_run (fst (exchange_of up)) w) =
      (if ur_early up = [] then us_StatusCode res else fst (hd (ur_early up)))"
    and "snd (exchange_of up) = (if us_complete res then Returned else Panicked AbortHandler)"
proof -
  let ?early = "concat (map early_calls (ur_early up))"
  let ?head = "copyHeader (kept_lines (us_Header res)) @
    (if us_announced res = [] then [] else [CallAddHeader ''Trailer'' (Join (us_announced res) '', '')]) @
    [CallWriteHeader (us_StatusCode res)]"
  let ?e = "rec_run ?early w"
  let ?h = "rec_run ?head ?e"
  note early = rec_run_early [OF assms(1) [unfolded early_ok_def], of w]
  have head: "w_ops ?h = w_ops ?e @ [OpWriteHeader (us_StatusCode res) (sent_header (w_Header ?e) res)]"
    "sr_wroteHeader ?h"
    "sr_statusCode ?h = (if sr_wroteHeader ?e then sr_statusCode ?e else us_StatusCode res)"
    by (simp_all add: rec_run_append rec_run_Cons sent_header_def Let_def)
  have calls: "fst (exchange_of up) = ?early @ ?head @ map CallWrite (us_chunks res) @
      (if us_complete res then copyHeader (trailer_lines res) else [])"
    and res: "snd (exchange_of up) = (if us_complete res then Returned else Panicked AbortHandler)"
    using assms by (simp_all add: exchange_of_def response_calls_def Let_def)
  show "snd (exchange_of up) = (if us_complete res then Returned else Panicked AbortHandler)" by (fact res)
  have run: "w_ops (rec_run (fst (exchange_of up)) w) = w_ops ?h @ map OpWrite (us_chunks res)"
    "sr_statusCode (rec_run (fst (exchange_of up)) w) = sr_statusCode ?h"
    unfolding calls rec_run_append [of ?early] rec_run_append [of ?head]
      rec_run_append [of "map CallWrite (us_chunks res)"]
    by (simp_all add: head(2))
  from early(1) obtain xs where "w_ops ?e = w_ops w @ xs" "list_all op_informational xs"
    "ur_early up = [] \<longrightarrow> xs = []" by blast
  then show "\<exists>xs. list_all op_informational xs \<and> (ur_early up = [] \<longrightarrow> xs = []) \<and>
      w_ops (rec_run (fst (exchange_of up)) w) = w_ops w @ xs @
        OpWriteHeader (us_StatusCode res)
          (sent_header (if ur_early up = [] then w_Header w else Map.empty) res) #
        map OpWrite (us_chunks res)"
    by (intro exI [of _ xs]) (simp add: run(1) head(1) early(2))
  show "sr_statusCode (rec_run (fst (exchange_of up)) w) =
      (if ur_early up = [] then us_StatusCode res else fst (hd (ur_early up)))"
    using assms(5) by (simp add: run(2) head(3) early(3,4))
qed

text \<open>No answer, or a protocol switch: 502 from the error handler.\<close>

definition no_answer :: "upstream_reply \<Rightarrow> bool" where
  "no_answer up \<longleftrightarrow>
     (case ur_answer up of RoundTripError \<Rightarrow> True | Answer res \<Rightarrow> us_StatusCode res = 101)"

lemma exchange_no_answer:
  assumes "early_ok up" "no_answer up" "\<not> sr_wroteHeader w"
  shows "\<exists>xs h. list_all op_informational xs \<and>
      w_ops (rec_run (fst (exchange_of up)) w) = w_ops w @ xs @ [OpWriteHeader 502 h]"
    and "sr_statusCode (rec_run (fst (exchange_of up)) w) =
      (if ur_early up = [] then 502 else fst (hd (ur_early up)))"
    and "snd (exchange_of up) = Returned"
proof -
  let ?early = "concat (map early_calls (ur_early up))"
  note early = rec_run_early [OF assms(1) [unfolded early_ok_def], of w]
  have ex: "exchange_of up = (?early @ [CallWriteHeader 502], Returned)"
    using assms(2) by (auto simp: no_answer_def exchange_of_def error_calls_def split: upstream_answer.splits)
  then show "snd (exchange_of up) = Returned" by simp
  from early(1) show "\<exists>xs h. list_all op_informational xs \<and>
      w_ops (rec_run (fst (exchange_of up)) w) = w_ops w @ xs @ [OpWriteHeader 502 h]"
    by (auto simp: ex rec_run_append rec_run_Cons)
  show "sr_statusCode (rec_run (fst (exchange_of up)) w) =
      (if ur_early up = [] then 502 else fst (hd (ur_early up)))"
    using assms(3) by (simp add: ex rec_run_append rec_run_Cons early(3,4))
qed

text \<open>The recorder keeps the first code written.\<close>

lemma rec_run_status: "sr_wroteHeader r \<Longrightarrow> sr_statusCode (rec_run calls r) = sr_statusCode r"
proof (induction calls arbitrary: r)
  case (Cons c cs)
  then show ?case by (cases c) (simp_all add: rec_run_Cons)
qed simp

lemma exchange_early_status:
  assumes "early_ok up" "ur_early up \<noteq> []" "\<not> sr_wroteHeader w"
  shows "sr_statusCode (rec_run (fst (exchange_of up)) w) = fst (hd (ur_early up))"
proof -
  obtain calls where "fst (exchange_of up) = concat (map early_calls (ur_early up)) @ calls"
    by (simp add: exchange_of_def Let_def split_beta)
  then show ?thesis
    using assms rec_run_early(3,4) [of "ur_early up" w]
    by (simp add: rec_run_append rec_run_status early_ok_def)
qed

end
