(* ===== verification/Gateway_Server.thy ===== *)
theory Gateway_Server
  imports Request_Auth Rate_Limiter Circuit_Breaker Load_Balance Discovery_Registry
    Request_Id Proxy_Response
begin

text \<open>
  The server of \<open>internal/server/server.go\<close>: its construction \<open>New\<close>, the request handler
  \<open>serveRoute\<close> with \<open>authenticate\<close> and \<open>checkRateLimit\<close>, the handler chain and \<open>Shutdown\<close>.

  \<^item> \<open>Server\<close> is the state the handlers share. A handler is a function from the server, the
    recorder and the request to their new values and its outcome: it returns, or it panics
    (\<open>net/http\<close> recovers a handler's panic).
  \<^item> \<open>externals\<close> holds what the handler calls outside the repository and the standard library's
    pure part: the JWT parser, SHA-256, JSON, URL printing and \<open>float64\<close> rounding. \<open>moment\<close>
    holds what one request finds outside: its clock readings, the Redis round trip and the
    upstream's reply to the request it is sent (\<open>mo_upstream\<close>). \<open>mo_redis_ms\<close> and \<open>mo_net\<close> say
    when the Redis server ran the script and what became of the call; no operation reads them,
    and theory \<open>Gateway_Failover\<close> ties them to \<open>mo_redis\<close>.
  \<^item> \<open>httputil.ReverseProxy\<close> is theories \<open>Proxy_Request\<close> and \<open>Proxy_Response\<close>. The outgoing request
    is kept as a ghost result.
  \<^item> The handler is cut where other goroutines may run between its locked sections:
    \<open>serve_admit\<close> up to the proxy, the exchange, and \<open>record_result\<close> after it.
\<close>

subsection \<open>State\<close>

record ('k, 'r) Server =
  s_cfg :: Config
  s_router :: Router
  s_registry :: StaticRegistry
  s_balancers :: "string \<rightharpoonup> RoundRobin"
  s_jwtAuth :: "'k JWTAuth"
  s_apiKeyAuth :: APIKeyAuth
  s_rateLimiter :: "'r RateLimiter"
  s_breakerStore :: BreakerStore
  s_metrics :: Metrics
  s_breakerDone :: bool
  s_metricsServer :: "string option"

record ('k, 'pe) externals =
  x_sha256 :: "string \<Rightarrow> 8 word list"
  x_jwt_parse :: "('k, 'pe) jwt_parser"
  x_marshal :: "claims \<Rightarrow> string option"
  x_url_string :: "URL \<Rightarrow> string"
  x_rnd :: "rat \<Rightarrow> rat"

record ('e, 'r) moment =
  mo_start :: instant
  mo_limit_now :: instant
  mo_limit_until :: instant
  mo_redis :: "('e, 'r) script_run"
  mo_redis_ms :: int
  mo_net :: net
  mo_reset_now :: instant
  mo_allow_now :: instant
  mo_upstream :: "Request \<Rightarrow> upstream_reply"
  mo_failure1 :: instant
  mo_failure2 :: instant
  mo_end :: instant

subsection \<open>authenticate\<close>

definition jwt_required :: "AuthConfig \<Rightarrow> bool" where
  "jwt_required auth = (case auth_JWT auth of None \<Rightarrow> False | Some c \<Rightarrow> jwt_Required c)"

definition apikey_required :: "AuthConfig \<Rightarrow> bool" where
  "apikey_required auth = (case auth_APIKey auth of None \<Rightarrow> False | Some c \<Rightarrow> apikey_Required c)"

definition auth_apikey ::
  "('k, 'pe) externals \<Rightarrow> ('k, 'r) Server \<Rightarrow> statusRecorder \<Rightarrow> Request
     \<Rightarrow> bool \<times> statusRecorder \<times> Request" where
  "auth_apikey x s w r =
     (case APIKey_Validate (x_sha256 x) (s_apiKeyAuth s) r of
        Inr key \<Rightarrow>
          let h = Header_Set (rq_Header r) ''X-API-Key-ID'' (k_ID key);
              h = Header_Set h ''X-API-Key-Tier'' (k_RateTier key)
          in (True, w, r\<lparr>rq_Header := h\<rparr>)
      | Inl err \<Rightarrow> (False, writeJSON w 401 body_auth_required, r))"

definition authenticate ::
  "('k, 'pe) externals \<Rightarrow> ('k, 'r) Server \<Rightarrow> statusRecorder \<Rightarrow> Request \<Rightarrow> Route
     \<Rightarrow> bool \<times> statusRecorder \<times> Request" where
  "authenticate x s w r route =
     (case rt_Auth route of
        None \<Rightarrow> (True, w, r)
      | Some auth \<Rightarrow>
          if \<not> jwt_required auth \<and> \<not> apikey_required auth then (True, w, r)
          else if jwt_required auth then
            (case JWT_Validate (x_jwt_parse x) (s_jwtAuth s) r (auth_JWT auth) of
               Inr claims \<Rightarrow> (True, w, ForwardClaims (x_marshal x) r claims)
             | Inl err \<Rightarrow>
                 if \<not> apikey_required auth then (False, writeJSON w 401 body_jwt_invalid, r)
                 else auth_apikey x s w r)
          else auth_apikey x s w r)"

subsection \<open>checkRateLimit\<close>

definition limit_headers :: "int \<Rightarrow> int \<Rightarrow> int \<Rightarrow> statusRecorder \<Rightarrow> statusRecorder" where
  "limit_headers limit remaining reset_unix w =
     Rec_SetHeader
       (Rec_SetHeader
         (Rec_SetHeader w ''X-RateLimit-Limit'' (Itoa limit))
         ''X-RateLimit-Remaining'' (Itoa remaining))
       ''X-RateLimit-Reset'' (Itoa reset_unix)"

definition retry_after :: "(rat \<Rightarrow> rat) \<Rightarrow> duration \<Rightarrow> int" where
  "retry_after rnd reset =
     (let retryAfter = float_to_int (Seconds rnd reset) in if retryAfter < 1 then 1 else retryAfter)"

definition client_id :: "Request \<Rightarrow> Route \<Rightarrow> string" where
  "client_id r route = ResolveClientID (AdaptRequest (Header_Get (rq_Header r)) (rq_RemoteAddr r)) route"

definition checkRateLimit ::
  "('k, 'pe) externals \<Rightarrow> ('e, 'r) moment \<Rightarrow> ('k, 'r) Server \<Rightarrow> statusRecorder \<Rightarrow> Request \<Rightarrow> Route
     \<Rightarrow> bool \<times> statusRecorder \<times> ('k, 'r) Server" where
  "checkRateLimit x mo s w r route =
     (case rt_RateLimit route of
        None \<Rightarrow> (True, w, s)
      | Some lmt \<Rightarrow>
          if \<not> rl_Enabled lmt then (True, w, s)
          else
            let clientID = client_id r route;
                ((allowed, remaining, reset), rl) =
                  RL_Allow (mo_redis mo) (mo_limit_now mo) (mo_limit_until mo) (s_rateLimiter s)
                    route clientID;
                s = s\<lparr>s_rateLimiter := rl\<rparr>;
                w = limit_headers (rl_Requests lmt) remaining
                      (unix_seconds (mo_reset_now mo + reset)) w
            in if \<not> allowed then
                 let w = Rec_SetHeader w ''Retry-After'' (Itoa (retry_after (x_rnd x) reset));
                     s = s\<lparr>s_metrics := RecordRateLimitRejection (rt_ID route) (s_metrics s)\<rparr>
                 in (False, writeJSON w 429 body_rate_limited, s)
               else (True, w, s))"

subsection \<open>serveRoute\<close>

definition routeLabel :: "Route option \<Rightarrow> string" where
  "routeLabel route = (case route of None \<Rightarrow> ''unknown'' | Some r \<Rightarrow> rt_ID r)"

text \<open>\<open>cbEnabled\<close> with the configuration it reads.\<close>

definition breaker_cfg :: "Route \<Rightarrow> CircuitBrkCfg option" where
  "breaker_cfg route =
     (case rt_CircuitBreaker route of
        None \<Rightarrow> None | Some cfg \<Rightarrow> if cbc_Enabled cfg then Some cfg else None)"

text \<open>
  The handler up to the proxy. It is admitted with its target and the request as it stands, or
  it ends there, having written its answer or panicked.
\<close>

datatype admission = Admitted Route URL Request | Ended outcome

definition breaker_check ::
  "('k, 'pe) externals \<Rightarrow> ('e, 'r) moment \<Rightarrow> ('k, 'r) Server \<Rightarrow> Route \<Rightarrow> URL \<Rightarrow> bool \<times> ('k, 'r) Server" where
  "breaker_check x mo s route target =
     (case breaker_cfg route of
        None \<Rightarrow> (True, s)
      | Some cfg \<Rightarrow>
          let url = x_url_string x target;
              (breaker, bs) = GetOrCreate (rt_ID route) url cfg (s_breakerStore s);
              (ok, breaker) = Breaker_Allow (mo_allow_now mo) breaker
          in (ok, s\<lparr>s_breakerStore := put_breaker (breaker_key (rt_ID route) url) breaker bs\<rparr>))"

definition serve_target ::
  "('k, 'pe) externals \<Rightarrow> ('e, 'r) moment \<Rightarrow> ('k, 'r) Server \<Rightarrow> statusRecorder \<Rightarrow> Request \<Rightarrow> Route
     \<Rightarrow> admission \<times> statusRecorder \<times> ('k, 'r) Server" where
  "serve_target x mo s w r route =
     (case GetEndpoints (s_registry s) (rt_ID route) of
        Inl err \<Rightarrow> (Ended Returned, writeJSON w 503 body_no_upstream, s)
      | Inr endpoints \<Rightarrow>
          if length endpoints = 0 then (Ended Returned, writeJSON w 503 body_no_upstream, s)
          else case s_balancers s (rt_ID route) of
                 None \<Rightarrow> (Ended (Panicked NilDereference), w, s)
               | Some lb \<Rightarrow>
                   (case RR_Next lb endpoints of
                      (Inl p, lb') \<Rightarrow>
                        (Ended (Panicked p), w, s\<lparr>s_balancers := (s_balancers s)(rt_ID route \<mapsto> lb')\<rparr>)
                    | (Inr target, lb') \<Rightarrow>
                        let s = s\<lparr>s_balancers := (s_balancers s)(rt_ID route \<mapsto> lb')\<rparr>;
                            (ok, s) = breaker_check x mo s route target
                        in if \<not> ok then (Ended Returned, writeJSON w 503 body_circuit_open, s)
                           else (Admitted route target (r\<lparr>rq_target := Some target\<rparr>), w, s)))"

definition serve_admit ::
  "('k, 'pe) externals \<Rightarrow> ('e, 'r) moment \<Rightarrow> ('k, 'r) Server \<Rightarrow> statusRecorder \<Rightarrow> Request
     \<Rightarrow> admission \<times> statusRecorder \<times> ('k, 'r) Server" where
  "serve_admit x mo s w r =
     (case Match (s_router s) r of
        None \<Rightarrow> (Ended Returned, writeJSON w 404 body_not_found, s)
      | Some route \<Rightarrow>
          (case authenticate x s w r route of
             (False, w, r) \<Rightarrow> (Ended Returned, w, s)
           | (True, w, r) \<Rightarrow>
               (case checkRateLimit x mo s w r route of
                  (False, w, s) \<Rightarrow> (Ended Returned, w, s)
                | (True, w, s) \<Rightarrow> serve_target x mo s w r route)))"

text \<open>The proxy: the outgoing request, and the writer after the exchange.\<close>

definition proxy_exchange :: "('e, 'r) moment \<Rightarrow> Request \<Rightarrow> rec_call list \<times> outcome" where
  "proxy_exchange mo r =
     (case proxy_request r of
        None \<Rightarrow> error_calls
      | Some outreq \<Rightarrow> exchange_of (mo_upstream mo outreq))"

definition proxy_ServeHTTP ::
  "('e, 'r) moment \<Rightarrow> statusRecorder \<Rightarrow> Request \<Rightarrow> Request option \<times> statusRecorder \<times> outcome" where
  "proxy_ServeHTTP mo w r =
     (let (calls, res) = proxy_exchange mo r
      in (proxy_request r, rec_run calls w, res))"

definition record_result ::
  "('k, 'pe) externals \<Rightarrow> ('e, 'r) moment \<Rightarrow> ('k, 'r) Server \<Rightarrow> statusRecorder \<Rightarrow> Route \<Rightarrow> URL
     \<Rightarrow> ('k, 'r) Server" where
  "record_result x mo s w route target =
     (case breaker_cfg route of
        None \<Rightarrow> s
      | Some cfg \<Rightarrow>
          let url = x_url_string x target;
              key = breaker_key (rt_ID route) url;
              (breaker, bs) = GetOrCreate (rt_ID route) url cfg (s_breakerStore s);
              status = Rec_Status w
          in if 500 \<le> status then
               s\<lparr>s_breakerStore :=
                   put_breaker key (RecordFailure (mo_failure1 mo) (mo_failure2 mo) breaker) bs\<rparr>
             else if 0 < status then
               s\<lparr>s_breakerStore := put_breaker key (RecordSuccess breaker) bs\<rparr>
             else s\<lparr>s_breakerStore := bs\<rparr>)"

definition serve_begin :: "('k, 'r) Server \<Rightarrow> ('k, 'r) Server" where
  "serve_begin s =
     s\<lparr>s_metrics := (s_metrics s)\<lparr>m_ActiveConnections := Gauge_Inc (m_ActiveConnections (s_metrics s))\<rparr>\<rparr>"

text \<open>The deferred function, which runs on a panic too.\<close>

definition serve_deferred ::
  "('k, 'pe) externals \<Rightarrow> ('e, 'r) moment \<Rightarrow> Route option \<Rightarrow> Request \<Rightarrow> statusRecorder \<Rightarrow> ('k, 'r) Server
     \<Rightarrow> ('k, 'r) Server" where
  "serve_deferred x mo route r w s =
     (let m = s_metrics s;
          m = m\<lparr>m_ActiveConnections := Gauge_Dec (m_ActiveConnections m)\<rparr>
      in s\<lparr>s_metrics := RecordRequest (x_rnd x) (routeLabel route) (rq_Method r) (Itoa (Rec_Status w))
             (time_sub (mo_end mo) (mo_start mo)) m\<rparr>)"

record ('k, 'r) served =
  sv_server :: "('k, 'r) Server"
  sv_writer :: statusRecorder
  sv_forwarded :: "Request option"
  sv_outcome :: outcome

definition serveRoute ::
  "('k, 'pe) externals \<Rightarrow> ('e, 'r) moment \<Rightarrow> ('k, 'r) Server \<Rightarrow> ResponseWriter \<Rightarrow> Request
     \<Rightarrow> ('k, 'r) served" where
  "serveRoute x mo s w r =
     (let route = Match (s_router s) r
      in case serve_admit x mo (serve_begin s) (new_recorder w) r of
           (Ended res, w, s) \<Rightarrow>
             \<lparr>sv_server = serve_deferred x mo route r w s, sv_writer = w, sv_forwarded = None,
              sv_outcome = res\<rparr>
         | (Admitted rt target r', w, s) \<Rightarrow>
             (case proxy_ServeHTTP mo w r' of
                (outreq, w, Returned) \<Rightarrow>
                  \<lparr>sv_server = serve_deferred x mo route r w (record_result x mo s w rt target),
                   sv_writer = w, sv_forwarded = outreq, sv_outcome = Returned\<rparr>
              | (outreq, w, Panicked p) \<Rightarrow>
                  \<lparr>sv_server = serve_deferred x mo route r w s,
                   sv_writer = w, sv_forwarded = outreq, sv_outcome = Panicked p\<rparr>))"

subsection \<open>Lemmas: authentication\<close>

definition jwt_accepts :: "('k, 'pe) externals \<Rightarrow> ('k, 'r) Server \<Rightarrow> Request \<Rightarrow> AuthConfig \<Rightarrow> bool" where
  "jwt_accepts x s r auth \<longleftrightarrow>
     jwt_required auth \<and> \<not> isl (JWT_Validate (x_jwt_parse x) (s_jwtAuth s) r (auth_JWT auth))"

definition apikey_accepts :: "('k, 'pe) externals \<Rightarrow> ('k, 'r) Server \<Rightarrow> Request \<Rightarrow> AuthConfig \<Rightarrow> bool" where
  "apikey_accepts x s r auth \<longleftrightarrow>
     apikey_required auth \<and> \<not> isl (APIKey_Validate (x_sha256 x) (s_apiKeyAuth s) r)"

text \<open>A request passes the route's authentication: nothing is required, or one required method accepts it.\<close>

definition authorized :: "('k, 'pe) externals \<Rightarrow> ('k, 'r) Server \<Rightarrow> Request \<Rightarrow> Route \<Rightarrow> bool" where
  "authorized x s r route =
     (case rt_Auth route of
        None \<Rightarrow> True
      | Some auth \<Rightarrow> (\<not> jwt_required auth \<and> \<not> apikey_required auth) \<or>
          jwt_accepts x s r auth \<or> apikey_accepts x s r auth)"

lemma authenticate_iff: "fst (authenticate x s w r route) \<longleftrightarrow> authorized x s r route"
  by (auto simp: authenticate_def authorized_def jwt_accepts_def apikey_accepts_def auth_apikey_def
      Let_def split: option.splits sum.splits)

lemma authenticate_True:
  assumes "authenticate x s w r route = (True, w', r')"
  shows "w' = w" and "r' = r\<lparr>rq_Header := rq_Header r'\<rparr>" and "authorized x s r route"
proof -
  show "w' = w" "r' = r\<lparr>rq_Header := rq_Header r'\<rparr>"
    using assms
    by (auto simp: authenticate_def auth_apikey_def ForwardClaims_def Let_def
        split: option.splits sum.splits if_splits)
  show "authorized x s r route"
    using authenticate_iff [of x s w r route] assms by simp
qed

lemma authenticate_False:
  assumes "authenticate x s w r route = (False, w', r')"
  shows "w' = writeJSON w 401
    (case rt_Auth route of
       Some auth \<Rightarrow> if apikey_required auth then body_auth_required else body_jwt_invalid
     | None \<Rightarrow> body_auth_required)"
    and "r' = r" and "\<not> authorized x s r route"
proof -
  show "w' = writeJSON w 401
    (case rt_Auth route of
       Some auth \<Rightarrow> if apikey_required auth then body_auth_required else body_jwt_invalid
     | None \<Rightarrow> body_auth_required)" "r' = r"
    using assms
    by (auto simp: authenticate_def auth_apikey_def Let_def split: option.splits sum.splits if_splits)
  show "\<not> authorized x s r route"
    using authenticate_iff [of x s w r route] assms by simp
qed

text \<open>The request after authentication does not depend on the recorder.\<close>

definition auth_request :: "('k, 'pe) externals \<Rightarrow> ('k, 'r) Server \<Rightarrow> Request \<Rightarrow> Route \<Rightarrow> Request" where
  "auth_request x s r route = snd (snd (authenticate x s (new_recorder new_writer) r route))"

lemma auth_request: "snd (snd (authenticate x s w r route)) = auth_request x s r route"
  by (auto simp: auth_request_def authenticate_def auth_apikey_def Let_def
      split: option.splits sum.splits)

subsection \<open>Lemmas: rate limiting\<close>

definition limit_cfg :: "Route \<Rightarrow> RateLimitCfg option" where
  "limit_cfg route =
     (case rt_RateLimit route of None \<Rightarrow> None | Some l \<Rightarrow> if rl_Enabled l then Some l else None)"

definition limiter_answer ::
  "('e, 'r) moment \<Rightarrow> ('k, 'r) Server \<Rightarrow> Request \<Rightarrow> Route \<Rightarrow> (bool \<times> int \<times> duration) \<times> 'r RateLimiter" where
  "limiter_answer mo s r route =
     RL_Allow (mo_redis mo) (mo_limit_now mo) (mo_limit_until mo) (s_rateLimiter s) route (client_id r route)"

lemma checkRateLimit_eq:
  "checkRateLimit x mo s w r route =
     (case limit_cfg route of
        None \<Rightarrow> (True, w, s)
      | Some lmt \<Rightarrow>
          let ((allowed, remaining, reset), rl) = limiter_answer mo s r route;
              w' = limit_headers (rl_Requests lmt) remaining (unix_seconds (mo_reset_now mo + reset)) w
          in if allowed then (True, w', s\<lparr>s_rateLimiter := rl\<rparr>)
             else (False,
               writeJSON (Rec_SetHeader w' ''Retry-After'' (Itoa (retry_after (x_rnd x) reset))) 429
                 body_rate_limited,
               s\<lparr>s_rateLimiter := rl,
                 s_metrics := RecordRateLimitRejection (rt_ID route) (s_metrics s)\<rparr>))"
  by (auto simp: checkRateLimit_def limit_cfg_def limiter_answer_def Let_def
      split: option.splits prod.splits)

lemma limit_headers_simps [simp]:
  "w_ops (limit_headers l m u w) = w_ops w"
  "sr_wroteHeader (limit_headers l m u w) = sr_wroteHeader w"
  "sr_statusCode (limit_headers l m u w) = sr_statusCode w"
  by (simp_all add: limit_headers_def)

text \<open>A recorder nothing has been written to, at most headers set.\<close>

definition fresh :: "statusRecorder \<Rightarrow> bool" where
  "fresh w \<longleftrightarrow> w_ops w = [] \<and> \<not> sr_wroteHeader w \<and> sr_statusCode w = 0"

lemma fresh_simps [simp]:
  "w_ops w = [] \<Longrightarrow> fresh (new_recorder w)"
  "fresh (Rec_SetHeader r k v) = fresh r"
  "fresh (limit_headers l m u r) = fresh r"
  by (simp_all add: fresh_def)

lemma writeJSON_status:
  "fresh w \<Longrightarrow> \<not> informational status \<Longrightarrow> Rec_Status (writeJSON w status v) = status \<and>
     written_status (w_ops (writeJSON w status v)) = status \<and>
     written_body (w_ops (writeJSON w status v)) = encode_error v"
  by (simp add: fresh_def)

subsection \<open>Lemmas: the handler\<close>

lemma serve_begin_simps [simp]:
  "s_router (serve_begin s) = s_router s" "s_registry (serve_begin s) = s_registry s"
  "s_balancers (serve_begin s) = s_balancers s" "s_jwtAuth (serve_begin s) = s_jwtAuth s"
  "s_apiKeyAuth (serve_begin s) = s_apiKeyAuth s" "s_rateLimiter (serve_begin s) = s_rateLimiter s"
  "s_breakerStore (serve_begin s) = s_breakerStore s" "s_cfg (serve_begin s) = s_cfg s"
  "s_breakerDone (serve_begin s) = s_breakerDone s" "s_metricsServer (serve_begin s) = s_metricsServer s"
  by (simp_all add: serve_begin_def)

lemma serve_deferred_simps [simp]:
  "s_router (serve_deferred x mo rt r w s) = s_router s"
  "s_registry (serve_deferred x mo rt r w s) = s_registry s"
  "s_balancers (serve_deferred x mo rt r w s) = s_balancers s"
  "s_jwtAuth (serve_deferred x mo rt r w s) = s_jwtAuth s"
  "s_apiKeyAuth (serve_deferred x mo rt r w s) = s_apiKeyAuth s"
  "s_rateLimiter (serve_deferred x mo rt r w s) = s_rateLimiter s"
  "s_breakerStore (serve_deferred x mo rt r w s) = s_breakerStore s"
  "s_cfg (serve_deferred x mo rt r w s) = s_cfg s"
  by (simp_all add: serve_deferred_def Let_def)

lemma authorized_begin [simp]: "authorized x (serve_begin s) r route = authorized x s r route"
  by (simp add: authorized_def jwt_accepts_def apikey_accepts_def split: option.splits)

lemma auth_apikey_begin [simp]: "auth_apikey x (serve_begin s) w r = auth_apikey x s w r"
  by (simp add: auth_apikey_def)

lemma authenticate_begin [simp]: "authenticate x (serve_begin s) w r route = authenticate x s w r route"
  by (auto simp: authenticate_def split: option.splits sum.splits)

lemma auth_request_begin [simp]: "auth_request x (serve_begin s) r route = auth_request x s r route"
  by (simp add: auth_request_def)

lemma limiter_answer_begin [simp]: "limiter_answer mo (serve_begin s) r route = limiter_answer mo s r route"
  by (simp add: limiter_answer_def)

end
