(* ===== verification/Gateway_Lifecycle.thy ===== *)
theory Gateway_Lifecycle
  imports Gateway_Server
begin

text \<open>
  The life of the server of \<open>internal/server/server.go\<close>: \<open>New\<close>, the handler chain it builds,
  the background goroutines' steps, and \<open>Shutdown\<close>.

  \<open>system\<close> holds what \<open>New\<close> finds outside: the environment, the random source, the key file,
  the URL parser and the Redis connection.
\<close>

subsection \<open>New\<close>

record ('d, 'f, 'p, 'u, 'c, 'r) system =
  sy_getenv :: "string \<Rightarrow> string"
  sy_random :: "nat \<Rightarrow> 8 word list"
  sy_sha256 :: "string \<Rightarrow> 8 word list"
  sy_read_file :: "string \<Rightarrow> 'f + 'd"
  sy_not_exist :: "'f \<Rightarrow> bool"
  sy_unmarshal :: "'d \<Rightarrow> 'p + keyFileEntry list"
  sy_now :: instant
  sy_parse_url :: "string \<Rightarrow> 'u + URL"
  sy_redis_connect :: "string \<Rightarrow> string \<Rightarrow> int \<Rightarrow> int \<Rightarrow> 'r"
  sy_redis_ping :: "'r \<Rightarrow> 'c option"
  sy_rnd :: "rat \<Rightarrow> rat"

definition bytes_string :: "8 word list \<Rightarrow> string" where
  "bytes_string bs = map (\<lambda>b. char_of (unat b)) bs"

definition defaultJWTSecret :: "(nat \<Rightarrow> 8 word list) \<Rightarrow> string" where
  "defaultJWTSecret random = bytes_string (random 32)"

definition jwt_secret :: "('d, 'f, 'p, 'u, 'c, 'r) system \<Rightarrow> string" where
  "jwt_secret sy =
     (let env = sy_getenv sy ''GOGATEWAY_JWT_SECRET''
      in if env \<noteq> '''' then env else defaultJWTSecret (sy_random sy))"

definition loaded_keys :: "('d, 'f, 'p, 'u, 'c, 'r) system \<Rightarrow> KeyStore" where
  "loaded_keys sy =
     (let path = sy_getenv sy ''GOGATEWAY_API_KEY_FILE'';
          path = (if path = '''' then ''./api-keys.yaml'' else path)
      in case LoadKeyFile (sy_sha256 sy) (sy_read_file sy) (sy_not_exist sy) (sy_unmarshal sy) (sy_now sy) path of
           Inl err \<Rightarrow> NewKeyStore
         | Inr ks \<Rightarrow> ks)"

definition redis_client :: "('d, 'f, 'p, 'u, 'c, 'r) system \<Rightarrow> RedisConfig \<Rightarrow> 'r option" where
  "redis_client sy cfg =
     (if rd_Addr cfg \<noteq> '''' then
        (case NewRedisClient (sy_redis_connect sy) (sy_redis_ping sy) (rd_Addr cfg) (rd_Password cfg)
            (rd_DB cfg) (rd_PoolSize cfg) of
           Inl err \<Rightarrow> None
         | Inr rc \<Rightarrow> rc)
      else None)"

definition new_balancers :: "Route list \<Rightarrow> string \<rightharpoonup> RoundRobin" where
  "new_balancers routes = fold (\<lambda>route m. m(rt_ID route \<mapsto> NewRoundRobin)) routes Map.empty"

definition New_Server ::
  "('d, 'f, 'p, 'u, 'c, 'r) system \<Rightarrow> Config \<Rightarrow> 'u registry_error + ('k, 'r) Server" where
  "New_Server sy cfg =
     (case NewStaticRegistry (sy_parse_url sy) (c_Routes cfg) of
        Inl err \<Rightarrow> Inl err
      | Inr reg \<Rightarrow>
          Inr \<lparr>s_cfg = cfg,
               s_router = New_Router (c_Routes cfg),
               s_registry = reg,
               s_balancers = new_balancers (c_Routes cfg),
               s_jwtAuth = NewJWTAuth (Some (jwt_secret sy)),
               s_apiKeyAuth = NewAPIKeyAuth (loaded_keys sy),
               s_rateLimiter = NewRateLimiter (redis_client sy (c_Redis cfg)),
               s_breakerStore = NewBreakerStore,
               s_metrics = NewMetrics (sy_rnd sy),
               s_breakerDone = False,
               s_metricsServer =
                 map_option fst (StartMetricsServer (gw_MetricsListen (c_Gateway cfg)))\<rparr>)"

subsection \<open>The handler chain\<close>

text \<open>
  \<open>http.ServeMux\<close> (Go 1.22) with the patterns \<open>/health\<close> and \<open>/\<close>: except for CONNECT, a request
  whose escaped path is not clean is redirected to the cleaned path; \<open>/health\<close> matches that path
  alone, \<open>/\<close> every path. \<open>path.Clean\<close> drops empty and \<open>.\<close> segments and resolves \<open>..\<close>. The
  request URI \<open>*\<close>, the only one whose path is \<open>*\<close>, is answered 400 (for OPTIONS, \<open>http.Server\<close>
  answers it before any handler).
\<close>

fun clean_segments :: "string list \<Rightarrow> string list \<Rightarrow> string list" where
  "clean_segments acc [] = rev acc"
| "clean_segments acc (s # ss) =
     (if s = '''' \<or> s = ''.'' then clean_segments acc ss
      else if s = ''..'' then clean_segments (tl acc) ss
      else clean_segments (s # acc) ss)"

definition cleanPath :: "string \<Rightarrow> string" where
  "cleanPath p =
     (if p = '''' then ''/''
      else let p = (if hd p \<noteq> CHR ''/'' then ''/'' @ p else p);
               np = ''/'' @ Join (clean_segments [] (Split p CHR ''/'')) ''/''
           in if last p = CHR ''/'' \<and> np \<noteq> ''/'' then np @ ''/'' else np)"

datatype main_route = MainBadRequest | MainHealth | MainServe | MainRedirect string

definition mainMux :: "(URL \<Rightarrow> string) \<Rightarrow> Request \<Rightarrow> main_route" where
  "mainMux escaped_path r =
     (let path = escaped_path (rq_URL r)
      in if url_Path (rq_URL r) = ''*'' then MainBadRequest
         else if rq_Method r \<noteq> ''CONNECT'' \<and> cleanPath path \<noteq> path then MainRedirect (cleanPath path)
         else if url_Path (rq_URL r) = ''/health'' then MainHealth
         else MainServe)"

datatype ('k, 'r) reply =
    BadRequestReply ResponseWriter
  | HealthReply ResponseWriter
  | RedirectReply string
  | ServedReply "('k, 'r) served"

definition Server_ServeHTTP ::
  "('k, 'pe) externals \<Rightarrow> ('e, 'r) moment \<Rightarrow> (nat \<Rightarrow> 8 word list) \<Rightarrow> (instant \<Rightarrow> string) \<Rightarrow> (URL \<Rightarrow> string)
     \<Rightarrow> ('k, 'r) Server \<Rightarrow> ResponseWriter \<Rightarrow> Request \<Rightarrow> ('k, 'r) reply" where
  "Server_ServeHTTP x mo rand rfc3339 escaped_path s w r =
     (case mainMux escaped_path r of
        MainBadRequest \<Rightarrow>
          BadRequestReply (raw_WriteHeader (raw_SetHeader w ''Connection'' ''close'') 400)
      | MainHealth \<Rightarrow> HealthReply (HealthHandler rfc3339 (mo_start mo) w r)
      | MainRedirect path \<Rightarrow> RedirectReply path
      | MainServe \<Rightarrow> ServedReply (RequestID rand (serveRoute x mo s) w r))"

subsection \<open>Background steps\<close>

definition BreakerStates :: "BreakerStore \<Rightarrow> (string, int) mapping" where
  "BreakerStates bs = Mapping.map_values (\<lambda>_ v. state_int v) (Snapshot bs)"

text \<open>
  A tick of the breaker state loop, while it runs, when nothing comes between its reads and
  writes (theory \<open>Gateway_Concurrent\<close> cuts it at its locks), and a tick of the cleanup.
\<close>

definition export_breakers :: "('k, 'r) Server \<Rightarrow> ('k, 'r) Server" where
  "export_breakers s =
     (if s_breakerDone s then s
      else s\<lparr>s_metrics := SetBreakerStates (BreakerStates (s_breakerStore s)) (s_metrics s)\<rparr>)"

definition clean_limiter :: "instant \<Rightarrow> ('k, 'r) Server \<Rightarrow> ('k, 'r) Server" where
  "clean_limiter now s = s\<lparr>s_rateLimiter := RL_clean now (s_rateLimiter s)\<rparr>"

subsection \<open>Shutdown\<close>

text \<open>
  \<open>stop_metrics\<close> and \<open>stop_main\<close> stand for \<open>http.Server.Shutdown\<close> of the two servers,
  \<open>close_main\<close> for \<open>Close\<close>, \<open>is_deadline\<close> for \<open>errors.Is(err, context.DeadlineExceeded)\<close>.
\<close>

datatype 'e shutdown_error = ShutdownFailed 'e | CloseFailed 'e

definition Server_Shutdown ::
  "(string \<Rightarrow> duration \<Rightarrow> 'e option) \<Rightarrow> (duration \<Rightarrow> 'e option) \<Rightarrow> 'e option \<Rightarrow> ('e \<Rightarrow> bool)
     \<Rightarrow> ('k, 'r) Server \<Rightarrow> (go_panic + 'e shutdown_error option) \<times> ('k, 'r) Server" where
  "Server_Shutdown stop_metrics stop_main close_main is_deadline s =
     (if s_breakerDone s then (Inl CloseOfClosedChannel, s)
      else
        let s = s\<lparr>s_breakerDone := True\<rparr>;
            timeout = gw_ShutdownTimeout (c_Gateway (s_cfg s));
            metrics_err = ShutdownMetricsServer stop_metrics (s_metricsServer s) timeout
        in (Inr (case stop_main timeout of
                   None \<Rightarrow> None
                 | Some err \<Rightarrow>
                     if is_deadline err then map_option CloseFailed close_main
                     else Some (ShutdownFailed err)), s))"

subsection \<open>The invariant of a running server\<close>

text \<open>Every route of the table has endpoints and a balancer.\<close>

definition server_ok :: "('k, 'r) Server \<Rightarrow> bool" where
  "server_ok s \<longleftrightarrow>
     (\<forall>route \<in> set (ro_routes (s_router s)).
        (case GetEndpoints (s_registry s) (rt_ID route) of Inl e \<Rightarrow> False | Inr eps \<Rightarrow> eps \<noteq> []) \<and>
        s_balancers s (rt_ID route) \<noteq> None)"

lemma new_balancers_dom: "new_balancers routes k \<noteq> None \<longleftrightarrow> k \<in> rt_ID ` set routes"
proof -
  have "fold (\<lambda>route m. m(rt_ID route \<mapsto> NewRoundRobin)) routes m k \<noteq> None \<longleftrightarrow>
      k \<in> rt_ID ` set routes \<or> m k \<noteq> None" for m
    by (induction routes arbitrary: m) auto
  then show ?thesis by (simp add: new_balancers_def)
qed

lemma New_Server_simps:
  assumes "New_Server sy cfg = Inr s"
  shows "s_router s = New_Router (c_Routes cfg)" "s_balancers s = new_balancers (c_Routes cfg)"
    "NewStaticRegistry (sy_parse_url sy) (c_Routes cfg) = Inr (s_registry s)" "s_cfg s = cfg"
    "s_jwtAuth s = NewJWTAuth (Some (jwt_secret sy))" "s_apiKeyAuth s = NewAPIKeyAuth (loaded_keys sy)"
    "s_rateLimiter s = NewRateLimiter (redis_client sy (c_Redis cfg))"
    "s_breakerStore s = NewBreakerStore" "s_metrics s = NewMetrics (sy_rnd sy)" "\<not> s_breakerDone s"
  using assms by (auto simp: New_Server_def split: sum.splits)

lemma New_Server_ok:
  assumes "New_Server sy cfg = Inr s" "config_ok cfg"
  shows "server_ok s"
  unfolding server_ok_def
proof
  fix route
  assume "route \<in> set (ro_routes (s_router s))"
  then have route: "route \<in> set (c_Routes cfg)"
    by (simp add: New_Server_simps [OF assms(1)] New_Router_def)
  have "\<forall>r \<in> set (c_Routes cfg). route_ok r" using assms(2) by (simp add: config_ok_def)
  from GetEndpoints_nonempty [OF New_Server_simps(3) [OF assms(1)] this route]
  show "(case GetEndpoints (s_registry s) (rt_ID route) of Inl e \<Rightarrow> False | Inr eps \<Rightarrow> eps \<noteq> []) \<and>
        s_balancers s (rt_ID route) \<noteq> None"
    using route new_balancers_dom [of "c_Routes cfg" "rt_ID route"]
    by (auto simp: New_Server_simps(2) [OF assms(1)])
qed

lemma server_ok_cong:
  "s_router s' = s_router s \<Longrightarrow> s_registry s' = s_registry s \<Longrightarrow>
     (\<And>k. s_balancers s k \<noteq> None \<Longrightarrow> s_balancers s' k \<noteq> None) \<Longrightarrow> server_ok s \<Longrightarrow> server_ok s'"
  unfolding server_ok_def by metis

subsection \<open>Clean paths\<close>

definition plain_segment :: "string \<Rightarrow> bool" where
  "plain_segment s \<longleftrightarrow> s \<notin> {'''', ''.'', ''..''} \<and> CHR ''/'' \<notin> set s"

text \<open>A clean path: plain segments, and at most one slash after the last.\<close>

definition clean_form :: "string \<Rightarrow> bool" where
  "clean_form p \<longleftrightarrow> (\<exists>segs tail. p = ''/'' @ Join (segs @ tail) ''/'' \<and> list_all plain_segment segs \<and>
     (tail = [] \<or> tail = [''''] \<and> segs \<noteq> []))"

lemma Split_segments: "s \<in> set (Split p c) \<Longrightarrow> c \<notin> set s"
  by (induction p arbitrary: s) (auto split: list.splits if_splits)

lemma clean_segments_plain:
  "list_all plain_segment acc \<Longrightarrow> (\<And>s. s \<in> set ss \<Longrightarrow> CHR ''/'' \<notin> set s) \<Longrightarrow>
     list_all plain_segment (clean_segments acc ss)"
proof (induction acc ss rule: clean_segments.induct)
  case (2 acc s ss)
  have "list_all plain_segment (tl acc)" using "2.prems"(1) by (cases acc) simp_all
  moreover have "plain_segment s" if "s \<noteq> ''''" "s \<noteq> ''.''" "s \<noteq> ''..''"
    using that "2.prems"(2) by (simp add: plain_segment_def)
  ultimately show ?case using 2 by simp
qed (simp add: list_all_iff)

lemma clean_segments_id:
  "list_all plain_segment ss \<Longrightarrow> clean_segments acc ss = rev acc @ ss"
  by (induction ss arbitrary: acc) (simp_all add: plain_segment_def)

lemma clean_segments_tail: "clean_segments acc (ss @ ['''']) = clean_segments acc ss"
  by (induction acc ss rule: clean_segments.induct) simp_all

lemma Join_snoc_empty: "ss \<noteq> [] \<Longrightarrow> Join (ss @ ['''']) sep = Join ss sep @ sep"
  by (induction ss sep rule: Join.induct) simp_all

lemma Split_clean:
  assumes "list_all plain_segment segs" "tail = [] \<or> tail = [''''] \<and> segs \<noteq> []"
  shows "clean_segments [] (Split (''/'' @ Join (segs @ tail) ''/'') CHR ''/'') = segs"
proof (cases "segs = []")
  case True
  with assms show ?thesis by simp
next
  case False
  have "\<forall>s \<in> set segs. CHR ''/'' \<notin> set s"
    using assms(1) by (simp add: list_all_iff plain_segment_def)
  moreover have "\<forall>s \<in> set tail. CHR ''/'' \<notin> set s" using assms(2) by auto
  ultimately have "\<forall>s \<in> set (segs @ tail). CHR ''/'' \<notin> set s" by (simp add: ball_Un)
  then have "Split (Join (segs @ tail) [CHR ''/'']) CHR ''/'' = segs @ tail"
    using False by (intro Split_Join) simp_all
  then have "clean_segments [] (Split (''/'' @ Join (segs @ tail) ''/'') CHR ''/'') =
      clean_segments [] (segs @ tail)"
    by simp
  also have "\<dots> = clean_segments [] segs"
    using assms(2) clean_segments_tail [of "[]" segs] by auto
  finally show ?thesis using clean_segments_id [OF assms(1), of "[]"] by simp
qed

lemma last_Join_plain:
  "list_all plain_segment segs \<Longrightarrow> segs \<noteq> [] \<Longrightarrow> Join segs ''/'' \<noteq> [] \<and> last (Join segs ''/'') \<noteq> CHR ''/''"
proof (induction segs "''/''" rule: Join.induct)
  case (2 s)
  then show ?case by (auto simp: plain_segment_def) (metis last_in_set)
qed auto

lemma cleanPath_clean: "clean_form p \<Longrightarrow> cleanPath p = p"
proof -
  assume "clean_form p"
  then obtain segs tail where p: "p = ''/'' @ Join (segs @ tail) ''/''" "list_all plain_segment segs"
    "tail = [] \<or> tail = [''''] \<and> segs \<noteq> []"
    by (auto simp: clean_form_def)
  note split = Split_clean [OF p(2,3)]
  show ?thesis
  proof (cases "segs = []")
    case True
    with p split show ?thesis by (simp add: cleanPath_def Let_def)
  next
    case False
    with p split last_Join_plain [OF p(2) False] show ?thesis
      by (auto simp: cleanPath_def Let_def Join_snoc_empty)
  qed
qed

lemma cleanPath_form: "clean_form (cleanPath p)"
proof (cases "p = ''''")
  case True
  then show ?thesis
    by (simp add: cleanPath_def clean_form_def) (rule exI [of _ "[]"], simp)
next
  case False
  define q where "q = (if hd p \<noteq> CHR ''/'' then ''/'' @ p else p)"
  define segs where "segs = clean_segments [] (Split q CHR ''/'')"
  have plain: "list_all plain_segment segs"
    unfolding segs_def by (rule clean_segments_plain) (simp_all add: Split_segments)
  have eq: "cleanPath p = (if last q = CHR ''/'' \<and> ''/'' @ Join segs ''/'' \<noteq> ''/''
      then (''/'' @ Join segs ''/'') @ ''/'' else ''/'' @ Join segs ''/'')"
    using False by (simp add: cleanPath_def Let_def q_def segs_def)
  show ?thesis
  proof (cases "last q = CHR ''/'' \<and> segs \<noteq> []")
    case True
    then have "cleanPath p = ''/'' @ Join (segs @ ['''']) ''/''"
      using last_Join_plain [OF plain] by (simp add: eq Join_snoc_empty)
    with plain True show ?thesis by (auto simp: clean_form_def)
  next
    case False
    then have "cleanPath p = ''/'' @ Join (segs @ []) ''/''" by (auto simp: eq)
    with plain show ?thesis unfolding clean_form_def by blast
  qed
qed

text \<open>
  What \<open>net/http\<close>'s mux leaves for the router: a request of another method than \<open>CONNECT\<close>, whose
  URL needs no escapes and that the chain hands to \<open>serveRoute\<close>, has a path of plain segments, with
  no empty, \<open>.\<close> or \<open>..\<close> segment to step out of a route's prefix, and the path is not \<open>/health\<close>,
  which the built-in endpoint takes first. (The mux does not clean the path of a \<open>CONNECT\<close>.)
\<close>

theorem served_paths_clean:
  assumes "mainMux escaped_path r = MainServe" "rq_Method r \<noteq> ''CONNECT''"
    and "escaped_path (rq_URL r) = url_Path (rq_URL r)"
  shows "clean_form (url_Path (rq_URL r)) \<and> url_Path (rq_URL r) \<noteq> ''/health''"
  using assms cleanPath_form [of "url_Path (rq_URL r)"]
  by (auto simp: mainMux_def Let_def split: if_splits)

lemma served_paths_clean_witness:
  "clean_form ''/api/v1/'' \<and> mainMux url_Path (sample_request ''GET'' ''/api/../admin'') = MainRedirect ''/admin''"
proof
  have "mainMux url_Path (sample_request ''GET'' ''/api/v1/'') = MainServe" by code_simp
  from served_paths_clean [OF this] show "clean_form ''/api/v1/''"
    by (simp add: sample_request_def)
  show "mainMux url_Path (sample_request ''GET'' ''/api/../admin'') = MainRedirect ''/admin''"
    by code_simp
qed

text \<open>
  A redirect leads to a path that is not redirected again, and a path is redirected only
  when it is not clean.
\<close>

theorem mux_redirects_once:
  assumes "mainMux escaped_path r = MainRedirect path"
  shows "clean_form path \<and> \<not> clean_form (escaped_path (rq_URL r)) \<and>
    (escaped_path (rq_URL r') = path \<longrightarrow> (\<forall>q. mainMux escaped_path r' \<noteq> MainRedirect q))"
  using assms cleanPath_form cleanPath_clean
  by (auto simp: mainMux_def Let_def split: if_splits)

lemma mux_redirects_once_witness:
  "\<not> clean_form ''//x/.'' \<and> mainMux url_Path (sample_request ''GET'' ''//x/.'') = MainRedirect ''/x''"
proof
  have eq: "mainMux url_Path (sample_request ''GET'' ''//x/.'') = MainRedirect ''/x''" by code_simp
  from mux_redirects_once [OF eq] show "\<not> clean_form ''//x/.''" by (simp add: sample_request_def)
  show "mainMux url_Path (sample_request ''GET'' ''//x/.'') = MainRedirect ''/x''" by (rule eq)
qed

text \<open>An encoded \<open>..\<close> passes: the router then sees a decoded path that leaves its prefix.\<close>

lemma encoded_dotdot_served:
  "let r = sample_request ''GET'' ''/public/../admin''
   in mainMux (\<lambda>_. ''/public/%2e%2e/admin'') r = MainServe \<and>
      matchPath ''/public/*'' (url_Path (rq_URL r))"
  by code_simp

subsection \<open>Shutting down\<close>

text \<open>
  \<open>Shutdown\<close> closes the breaker loop's channel once: the first call stops the loop for good
  and returns what stopping the main server gives, whatever the metrics server answers; every
  later call panics on the closed channel.
\<close>

theorem Shutdown_once:
  "(let (res, s') = Server_Shutdown stop_metrics stop_main close_main is_deadline s
    in s_breakerDone s' \<and> export_breakers s' = s' \<and>
       fst (Server_Shutdown stop_metrics' stop_main' close_main' is_deadline' s') = Inl CloseOfClosedChannel \<and>
       (res = Inl CloseOfClosedChannel \<longleftrightarrow> s_breakerDone s) \<and>
       (res = Inr None \<longleftrightarrow> \<not> s_breakerDone s \<and>
          (case stop_main (gw_ShutdownTimeout (c_Gateway (s_cfg s))) of
             None \<Rightarrow> True
           | Some err \<Rightarrow> is_deadline err \<and> close_main = None)))"
  by (auto simp: Server_Shutdown_def export_breakers_def Let_def split: option.splits)

subsection \<open>A sample server\<close>

text \<open>
  One open route with a rate limit and a circuit breaker, and one behind an API key or a JWT;
  a server built from them, and its surroundings.
\<close>

definition open_route :: Route where
  "open_route = sample_route\<lparr>rt_ID := ''open'', rt_Path := ''/open/*'',
     rt_Upstreams := [\<lparr>u_URL = ''http://a'', u_Weight = 1\<rparr>, \<lparr>u_URL = ''http://b'', u_Weight = 1\<rparr>],
     rt_RateLimit := Some \<lparr>rl_Enabled = True, rl_Requests = 1, rl_Window = 60000000000, rl_PerClient = True\<rparr>,
     rt_CircuitBreaker := Some sample_breaker_cfg\<rparr>"

definition closed_route :: Route where
  "closed_route = sample_route\<lparr>rt_ID := ''closed'', rt_Path := ''/closed'',
     rt_Upstreams := [\<lparr>u_URL = ''http://c'', u_Weight = 1\<rparr>],
     rt_Auth := Some \<lparr>auth_JWT = Some \<lparr>jwt_Required = True, jwt_Issuers = []\<rparr>,
       auth_APIKey = Some \<lparr>apikey_Required = True\<rparr>\<rparr>\<rparr>"

definition demo_config :: Config where
  "demo_config = sample_config\<lparr>c_Gateway := default_loglevel (default_shutdown (c_Gateway sample_config)),
     c_Routes := [open_route, closed_route],
     c_Redis := \<lparr>rd_Addr = '''', rd_Password = '''', rd_DB = 0, rd_PoolSize = 0\<rparr>\<rparr>"

definition demo_system :: "(unit, nat, nat, nat, nat, redis_map) system" where
  "demo_system = \<lparr>sy_getenv = (\<lambda>v. if v = ''GOGATEWAY_JWT_SECRET'' then ''key'' else ''''),
     sy_random = (\<lambda>n. replicate n 0), sy_sha256 = sample_sha, sy_read_file = (\<lambda>p. Inr ()),
     sy_not_exist = (\<lambda>_. False), sy_unmarshal = (\<lambda>_. Inr sample_entries), sy_now = 0,
     sy_parse_url = sample_parse, sy_redis_connect = (\<lambda>_ _ _ _. Map.empty),
     sy_redis_ping = (\<lambda>_. None), sy_rnd = id\<rparr>"

definition demo_externals :: "(nat, nat) externals" where
  "demo_externals = \<lparr>x_sha256 = sample_sha, x_jwt_parse = sample_jwt_parse, x_marshal = (\<lambda>_. None),
     x_url_string = (\<lambda>u. ''http://'' @ url_Host u), x_rnd = id\<rparr>"

definition demo_moment :: "(Request \<Rightarrow> upstream_reply) \<Rightarrow> (unit, redis_map) moment" where
  "demo_moment exchange = \<lparr>mo_start = 10, mo_limit_now = 11, mo_limit_until = 12,
     mo_redis = net_run map_redis 0 NetDown, mo_redis_ms = 0, mo_net = NetDown, mo_reset_now = 13, mo_allow_now = 14,
     mo_upstream = exchange, mo_failure1 = 15, mo_failure2 = 16, mo_end = 20\<rparr>"

definition demo_server :: "(nat, redis_map) Server" where
  "demo_server = projr (New_Server demo_system demo_config)"

lemma demo_New: "New_Server demo_system demo_config = Inr demo_server"
proof -
  have "\<not> isl (NewStaticRegistry sample_parse (c_Routes demo_config))" by code_simp
  then show ?thesis
    by (auto simp: demo_server_def New_Server_def demo_system_def split: sum.splits)
qed

lemma demo_config_ok: "config_ok demo_config"
  by code_simp

lemma demo_config_loads:
  "Load (\<lambda>p. Inr p :: nat + string) (\<lambda>d. Inr demo_config :: nat + Config) path = Inr demo_config"
proof -
  have "snd (validate demo_config) = demo_config" by code_simp
  with demo_config_ok show ?thesis by (simp add: Load_Inr)
qed

lemma demo_server_ok: "server_ok demo_server"
  by (rule New_Server_ok [OF demo_New demo_config_ok])

end
