(* ===== verification/Gateway_Gates.thy ===== *)
theory Gateway_Gates
  imports Gateway_Lifecycle
begin

text \<open>
  What \<open>serveRoute\<close> of theory \<open>Gateway_Server\<close> lets through and what it answers otherwise:
  the gates in front of the proxy, the answer at each gate, the metrics every request leaves
  behind, and what the circuit breaker is told.
\<close>

subsection \<open>The gates\<close>

definition limit_passed :: "('e, 'r) moment \<Rightarrow> ('k, 'r) Server \<Rightarrow> Request \<Rightarrow> Route \<Rightarrow> bool" where
  "limit_passed mo s r route \<longleftrightarrow> limit_cfg route = None \<or> fst (fst (limiter_answer mo s r route))"

definition breaker_passed ::
  "('k, 'pe) externals \<Rightarrow> ('e, 'r) moment \<Rightarrow> ('k, 'r) Server \<Rightarrow> Route \<Rightarrow> URL \<Rightarrow> bool" where
  "breaker_passed x mo s route target =
     (case breaker_cfg route of
        None \<Rightarrow> True
      | Some cfg \<Rightarrow> fst (Breaker_Allow (mo_allow_now mo)
          (fst (GetOrCreate (rt_ID route) (x_url_string x target) cfg (s_breakerStore s)))))"

definition is_endpoint :: "('k, 'r) Server \<Rightarrow> Route \<Rightarrow> URL \<Rightarrow> bool" where
  "is_endpoint s route target =
     (case GetEndpoints (s_registry s) (rt_ID route) of
        Inl e \<Rightarrow> False | Inr eps \<Rightarrow> target \<in> set eps)"

text \<open>The limiter's step leaves everything the later gates read alone.\<close>

lemma checkRateLimit_True:
  assumes "checkRateLimit x mo s w r route = (True, w', s')"
  shows "limit_passed mo s r route" "s_registry s' = s_registry s" "s_balancers s' = s_balancers s"
    "s_breakerStore s' = s_breakerStore s" "s_metrics s' = s_metrics s" "s_router s' = s_router s"
    "fresh w' = fresh w"
  using assms
  by (auto simp: checkRateLimit_eq limit_passed_def Let_def split: option.splits prod.splits if_splits)

lemma checkRateLimit_False:
  assumes "checkRateLimit x mo s w r route = (False, w', s')"
  obtains lmt remaining reset rl where "limit_cfg route = Some lmt"
    "limiter_answer mo s r route = ((False, remaining, reset), rl)"
    "w' = writeJSON (Rec_SetHeader
       (limit_headers (rl_Requests lmt) remaining (unix_seconds (mo_reset_now mo + reset)) w)
       ''Retry-After'' (Itoa (retry_after (x_rnd x) reset))) 429 body_rate_limited"
    "s' = s\<lparr>s_rateLimiter := rl, s_metrics := RecordRateLimitRejection (rt_ID route) (s_metrics s)\<rparr>"
  using assms by (auto simp: checkRateLimit_eq Let_def split: option.splits prod.splits if_splits)

lemma breaker_check_eq:
  "fst (breaker_check x mo s route target) \<longleftrightarrow> breaker_passed x mo s route target"
  by (auto simp: breaker_check_def breaker_passed_def Let_def split: option.splits prod.splits)

lemma breaker_check_frame:
  "s_metrics (snd (breaker_check x mo s route target)) = s_metrics s"
  "s_registry (snd (breaker_check x mo s route target)) = s_registry s"
  "s_balancers (snd (breaker_check x mo s route target)) = s_balancers s"
  "s_router (snd (breaker_check x mo s route target)) = s_router s"
  "s_rateLimiter (snd (breaker_check x mo s route target)) = s_rateLimiter s"
  by (auto simp: breaker_check_def Let_def split: option.splits prod.splits)

lemma passed_cong:
  "s_breakerStore s' = s_breakerStore s \<Longrightarrow> breaker_passed x mo s' route target = breaker_passed x mo s route target"
  "s_registry s' = s_registry s \<Longrightarrow> is_endpoint s' route target = is_endpoint s route target"
  by (simp_all add: breaker_passed_def is_endpoint_def split: option.splits)

lemma passed_begin [simp]:
  "breaker_passed x mo (serve_begin s) route target = breaker_passed x mo s route target"
  "is_endpoint (serve_begin s) route target = is_endpoint s route target"
  "limit_passed mo (serve_begin s) r route = limit_passed mo s r route"
  by (rule passed_cong, simp)+ (simp add: limit_passed_def)

lemma breaker_check_balancers:
  "breaker_passed x mo (s\<lparr>s_balancers := b\<rparr>) route target = breaker_passed x mo s route target"
  by (rule passed_cong) simp

lemma RR_Next_in: "RR_Next lb eps = (Inr target, lb') \<Longrightarrow> target \<in> set eps"
  by (auto simp: RR_Next_def Let_def split: if_splits)

lemma serve_target_Admitted:
  assumes "serve_target x mo s w r route = (Admitted rt target r', w', s')"
  shows "rt = route" "r' = r\<lparr>rq_target := Some target\<rparr>" "w' = w"
    "is_endpoint s route target" "breaker_passed x mo s route target" "s_metrics s' = s_metrics s"
    "s_router s' = s_router s"
proof -
  from assms obtain eps lb lb' where e: "GetEndpoints (s_registry s) (rt_ID route) = Inr eps"
    "RR_Next lb eps = (Inr target, lb')" "rt = route" "r' = r\<lparr>rq_target := Some target\<rparr>" "w' = w"
    and b: "breaker_check x mo (s\<lparr>s_balancers := (s_balancers s)(rt_ID route \<mapsto> lb')\<rparr>) route target
      = (True, s')"
    by (auto simp: serve_target_def split: sum.splits option.splits prod.splits if_splits)
  show "rt = route" "r' = r\<lparr>rq_target := Some target\<rparr>" "w' = w" "is_endpoint s route target"
    using e by (simp_all add: is_endpoint_def RR_Next_in)
  show "breaker_passed x mo s route target" "s_metrics s' = s_metrics s" "s_router s' = s_router s"
    using breaker_check_eq [of x mo "s\<lparr>s_balancers := (s_balancers s)(rt_ID route \<mapsto> lb')\<rparr>" route target]
      breaker_check_frame(1,4) [of x mo "s\<lparr>s_balancers := (s_balancers s)(rt_ID route \<mapsto> lb')\<rparr>" route target]
    by (simp_all add: b breaker_check_balancers)
qed

lemma serve_admit_Admitted:
  assumes "serve_admit x mo s w r = (Admitted route target r', w', s')"
  shows "Match (s_router s) r = Some route" "authorized x s r route"
    "limit_passed mo s (auth_request x s r route) route"
    "is_endpoint s route target" "breaker_passed x mo s route target"
    "r' = (auth_request x s r route)\<lparr>rq_target := Some target\<rparr>" "s_metrics s' = s_metrics s"
    "fresh w' = fresh w"
proof -
  from assms obtain rt w1 r1 w2 s2 where m: "Match (s_router s) r = Some rt"
    and a: "authenticate x s w r rt = (True, w1, r1)"
    and l: "checkRateLimit x mo s w1 r1 rt = (True, w2, s2)"
    and t: "serve_target x mo s2 w2 r1 rt = (Admitted route target r', w', s')"
    by (auto simp: serve_admit_def split: option.splits prod.splits bool.splits)
  note t' = serve_target_Admitted [OF t]
  note l' = checkRateLimit_True [OF l]
  note a' = authenticate_True [OF a]
  have r1: "r1 = auth_request x s r route"
    using auth_request [of x s w r rt] a t'(1) by simp
  show "Match (s_router s) r = Some route" "authorized x s r route"
    "limit_passed mo s (auth_request x s r route) route"
    using m a' t'(1) l'(1) r1 by simp_all
  show "is_endpoint s route target" "breaker_passed x mo s route target"
    using t' passed_cong(1) [OF l'(4), of x mo route target] passed_cong(2) [OF l'(2), of route target]
    by simp_all
  show "r' = (auth_request x s r route)\<lparr>rq_target := Some target\<rparr>" "s_metrics s' = s_metrics s"
    "fresh w' = fresh w"
    using t' r1 l' a' by simp_all
qed

lemma proxy_eq:
  "proxy_ServeHTTP mo w r =
     (proxy_request r, rec_run (fst (proxy_exchange mo r)) w, snd (proxy_exchange mo r))"
  by (simp add: proxy_ServeHTTP_def Let_def split: prod.splits)

lemma proxy_exchange_outcome:
  "snd (proxy_exchange mo r) \<in> {Returned, Panicked AbortHandler, Panicked InvalidWriteHeaderCode}"
  using exchange_outcome by (auto simp: proxy_exchange_def error_calls_def split: option.split)

text \<open>What the proxy answers by itself when it does not send the request.\<close>

lemma proxy_exchange_unsent:
  assumes "proxy_request r = None" "fresh w"
  shows "snd (proxy_exchange mo r) = Returned"
    and "written_status (w_ops (rec_run (fst (proxy_exchange mo r)) w)) = 502"
    and "written_body (w_ops (rec_run (fst (proxy_exchange mo r)) w)) = ''''"
  using assms by (simp_all add: proxy_exchange_def error_calls_def rec_run_def fresh_def informational_def)

lemma sv_forwarded_Some:
  assumes "sv_forwarded (serveRoute x mo s w r) = Some out"
  obtains route target r' w' s' where
    "serve_admit x mo (serve_begin s) (new_recorder w) r = (Admitted route target r', w', s')"
    "proxy_request r' = Some out"
  using assms
  by (auto simp: serveRoute_def proxy_eq Let_def
      split: prod.splits admission.splits outcome.splits)

text \<open>
  C1: Nothing reaches an upstream past a gate: when a request is forwarded, its route is the
  one the router matched, the route's authentication accepts the request, the route's rate
  limit admits it, the route's breaker lets it through, and it is sent to one of the endpoints
  registered for the route, as the director builds it.
\<close>

theorem forwarded_past_gates:
  assumes "sv_forwarded (serveRoute x mo s w r) = Some out"
  shows "\<exists>route target. Match (s_router s) r = Some route \<and> authorized x s r route \<and>
    limit_passed mo s (auth_request x s r route) route \<and> is_endpoint s route target \<and>
    breaker_passed x mo s route target \<and>
    proxy_request ((auth_request x s r route)\<lparr>rq_target := Some target\<rparr>) = Some out \<and>
    url_Host (rq_URL out) = url_Host target \<and> url_Scheme (rq_URL out) = url_Scheme target"
proof -
  from assms obtain route target r' w' s' where
    a: "serve_admit x mo (serve_begin s) (new_recorder w) r = (Admitted route target r', w', s')"
    and out: "proxy_request r' = Some out"
    by (rule sv_forwarded_Some)
  from serve_admit_Admitted [OF a]
  have "Match (s_router s) r = Some route" "authorized x s r route"
    "limit_passed mo s (auth_request x s r route) route" "is_endpoint s route target"
    "breaker_passed x mo s route target" "r' = (auth_request x s r route)\<lparr>rq_target := Some target\<rparr>"
    by simp_all
  with out proxy_request_target [OF out] show ?thesis
    by (intro exI [of _ route] exI [of _ target]) simp
qed

definition open_request :: Request where
  "open_request = sample_request ''GET'' ''/open/x''"

definition ok_exchange :: "Request \<Rightarrow> upstream_reply" where
  "ok_exchange out = \<lparr>ur_early = [], ur_answer = Answer \<lparr>us_StatusCode = 200, us_Header = [(''Server'', ''s'')],
     us_announced = [], us_chunks = [''hi''], us_complete = True, us_Trailer = []\<rparr>\<rparr>"

definition failed_exchange :: "Request \<Rightarrow> upstream_reply" where
  "failed_exchange out = \<lparr>ur_early = [], ur_answer = RoundTripError\<rparr>"

text \<open>The sample request passes the gates of the sample server.\<close>

lemma demo_facts:
  "Match (s_router demo_server) open_request = Some open_route"
  "GetEndpoints (s_registry demo_server) ''open'' = Inr [sample_url ''a'', sample_url ''b'']"
  "s_balancers demo_server ''open'' = Some NewRoundRobin"
  "s_rateLimiter demo_server = \<lparr>rlm_redis = None, rlm_memory = newMemoryLimiter\<rparr>"
  "s_breakerStore demo_server = NewBreakerStore"
proof -
  note demo = New_Server_simps [OF demo_New]
  have "Match (New_Router [open_route, closed_route]) open_request = Some open_route" by code_simp
  then show "Match (s_router demo_server) open_request = Some open_route"
    by (simp add: demo demo_config_def)
  have reg: "NewStaticRegistry sample_parse [open_route, closed_route] = Inr (s_registry demo_server)"
    using demo(3) by (simp add: demo_config_def demo_system_def)
  show "GetEndpoints (s_registry demo_server) ''open'' = Inr [sample_url ''a'', sample_url ''b'']"
    by (simp add: GetEndpoints_Inr registry_entries [OF reg] endpoints_of_def open_route_def
        closed_route_def sample_parse_def HasPrefix_def TrimPrefix_def)
  show "s_balancers demo_server ''open'' = Some NewRoundRobin"
    by (simp add: demo demo_config_def new_balancers_def open_route_def closed_route_def)
  show "s_rateLimiter demo_server = \<lparr>rlm_redis = None, rlm_memory = newMemoryLimiter\<rparr>"
    by (simp add: demo NewRateLimiter_def redis_client_def demo_config_def)
  show "s_breakerStore demo_server = NewBreakerStore" by (simp add: demo)
qed

lemma demo_admit:
  "fst (serve_admit demo_externals (demo_moment ex) (serve_begin demo_server) (new_recorder new_writer)
     open_request) =
   Admitted open_route (sample_url ''a'') (open_request\<lparr>rq_target := Some (sample_url ''a'')\<rparr>)"
proof -
  have route: "rt_Auth open_route = None" "rt_ID open_route = ''open''"
    "rt_RateLimit open_route = Some \<lparr>rl_Enabled = True, rl_Requests = 1, rl_Window = 60000000000, rl_PerClient = True\<rparr>"
    "rt_CircuitBreaker open_route = Some sample_breaker_cfg"
    by (simp_all add: open_route_def sample_route_def)
  show ?thesis
    by (simp add: serve_admit_def demo_facts authenticate_def route checkRateLimit_def RL_Allow_def
        RL_fallback_def memory_allow_def memory_allow_key_def memory_entry_def newMemoryLimiter_def
        wrap64_def demo_moment_def serve_target_def RR_Next_def NewRoundRobin_def breaker_check_def
        breaker_cfg_def sample_breaker_cfg_def GetOrCreate_def GetOrCreate_locked_def
        NewBreakerStore_def NewCircuitBreaker_def Breaker_Allow_def Let_def)
qed

lemma sv_forwarded_Admitted:
  assumes "fst (serve_admit x mo (serve_begin s) (new_recorder w) r) = Admitted route target r'"
  shows "sv_forwarded (serveRoute x mo s w r) = proxy_request r'"
proof -
  obtain w1 s1 where "serve_admit x mo (serve_begin s) (new_recorder w) r = (Admitted route target r', w1, s1)"
    using assms by (metis prod.collapse)
  then show ?thesis by (simp add: serveRoute_def proxy_eq Let_def split: outcome.split)
qed

lemma demo_proxied: "\<exists>out. proxy_request (open_request\<lparr>rq_target := t\<rparr>) = Some out"
proof -
  have "proxy_request (open_request\<lparr>rq_target := t\<rparr>) \<noteq> None"
    unfolding proxy_request_None by (simp add: open_request_def sample_request_def upgradeType_def
        contains_token_def header_values_def is_print_def)
  then show ?thesis by blast
qed

lemma forwarded_past_gates_witness:
  "\<exists>route target. Match (s_router demo_server) open_request = Some route \<and>
     is_endpoint demo_server route target \<and> url_Host target = ''a''"
proof -
  let ?r = "open_request\<lparr>rq_target := Some (sample_url ''a'')\<rparr>"
  obtain out where out: "proxy_request ?r = Some out" using demo_proxied by blast
  then have "sv_forwarded (serveRoute demo_externals (demo_moment ok_exchange) demo_server new_writer open_request)
      = Some out"
    using sv_forwarded_Admitted [OF demo_admit] by simp
  from forwarded_past_gates [OF this]
  obtain route target where "Match (s_router demo_server) open_request = Some route"
    "is_endpoint demo_server route target" "url_Host (rq_URL out) = url_Host target"
    by blast
  moreover have "url_Host (rq_URL out) = ''a''"
    using proxy_request_target [OF out, of "sample_url ''a''"] by (simp add: sample_url_def)
  ultimately show ?thesis by metis
qed

subsection \<open>The answers at the gates\<close>

lemma serve_target_Ended:
  assumes "serve_target x mo s w r route = (Ended res, w', s')"
  obtains (no_upstream) "res = Returned" "w' = writeJSON w 503 body_no_upstream" "s' = s"
      "\<not> (\<exists>eps. GetEndpoints (s_registry s) (rt_ID route) = Inr eps \<and> eps \<noteq> [])"
  | (panic) p where "res = Panicked p" "w' = w" "s_balancers s (rt_ID route) = None" "s' = s"
  | (closed) target where "res = Returned" "w' = writeJSON w 503 body_circuit_open"
      "is_endpoint s route target" "\<not> breaker_passed x mo s route target"
      "s_metrics s' = s_metrics s" "s_router s' = s_router s" "s_registry s' = s_registry s"
      "s_rateLimiter s' = s_rateLimiter s"
      "\<exists>lb lb'. s_balancers s (rt_ID route) = Some lb \<and> s_balancers s' = (s_balancers s)(rt_ID route \<mapsto> lb')"
proof (cases "GetEndpoints (s_registry s) (rt_ID route)")
  case (Inl e)
  then show ?thesis using assms by (intro no_upstream) (simp_all add: serve_target_def)
next
  case (Inr eps)
  show ?thesis
  proof (cases "eps = []")
    case True
    then show ?thesis using assms Inr by (intro no_upstream) (simp_all add: serve_target_def)
  next
    case False
    show ?thesis
    proof (cases "s_balancers s (rt_ID route)")
      case None
      then show ?thesis
        using assms Inr False by (intro panic [of NilDereference]) (simp_all add: serve_target_def)
    next
      case (Some lb)
      let ?target = "eps ! (unat (rr_counter lb) mod length eps)"
      let ?s = "s\<lparr>s_balancers := (s_balancers s)(rt_ID route \<mapsto> \<lparr>rr_counter = rr_counter lb + 1\<rparr>)\<rparr>"
      have a: "res = Returned \<and> w' = writeJSON w 503 body_circuit_open \<and>
          (False, s') = breaker_check x mo ?s route ?target"
        using assms Inr False Some
        by (auto simp: serve_target_def RR_Next_simp split: if_splits prod.splits)
      then have b: "\<not> fst (breaker_check x mo ?s route ?target)"
        and s': "s' = snd (breaker_check x mo ?s route ?target)"
        by (metis fst_conv, metis snd_conv)
      show ?thesis
      proof (rule closed [of ?target])
        show "is_endpoint s route ?target" using False Inr by (simp add: is_endpoint_def)
        show "\<not> breaker_passed x mo s route ?target"
          using b unfolding breaker_check_eq breaker_check_balancers .
        show "\<exists>lb lb'. s_balancers s (rt_ID route) = Some lb \<and>
            s_balancers s' = (s_balancers s)(rt_ID route \<mapsto> lb')"
          using Some unfolding s' breaker_check_frame by auto
      qed (use a in \<open>simp_all add: s' breaker_check_frame\<close>)
    qed
  qed
qed

text \<open>Why a request ends before the proxy, and what it is answered.\<close>

lemma serve_admit_Ended:
  assumes "serve_admit x mo s w r = (Ended res, w', s')" "fresh w"
  obtains (unmatched) "Match (s_router s) r = None" "res = Returned"
      "w' = writeJSON w 404 body_not_found" "s' = s"
  | (unauthorized) route b where "Match (s_router s) r = Some route" "\<not> authorized x s r route"
      "res = Returned" "w' = writeJSON w 401 b" "s' = s"
      "b = (case rt_Auth route of
         Some auth \<Rightarrow> if apikey_required auth then body_auth_required else body_jwt_invalid
       | None \<Rightarrow> body_auth_required)"
  | (limited) route lmt remaining reset rl where "Match (s_router s) r = Some route"
      "authorized x s r route" "limit_cfg route = Some lmt"
      "limiter_answer mo s (auth_request x s r route) route = ((False, remaining, reset), rl)"
      "res = Returned"
      "w' = writeJSON (Rec_SetHeader (limit_headers (rl_Requests lmt) remaining
         (unix_seconds (mo_reset_now mo + reset)) w)
         ''Retry-After'' (Itoa (retry_after (x_rnd x) reset))) 429 body_rate_limited"
      "s' = s\<lparr>s_rateLimiter := rl, s_metrics := RecordRateLimitRejection (rt_ID route) (s_metrics s)\<rparr>"
  | (target) route s2 w2 r2 where "Match (s_router s) r = Some route" "authorized x s r route"
      "limit_passed mo s (auth_request x s r route) route"
      "serve_target x mo s2 w2 r2 route = (Ended res, w', s')" "fresh w2"
      "s_registry s2 = s_registry s" "s_balancers s2 = s_balancers s"
      "s_breakerStore s2 = s_breakerStore s" "s_metrics s2 = s_metrics s" "s_router s2 = s_router s"
proof (cases "Match (s_router s) r")
  case None
  then show ?thesis using assms by (intro unmatched) (simp_all add: serve_admit_def)
next
  case (Some route)
  obtain ok w1 r1 where a: "authenticate x s w r route = (ok, w1, r1)" by (metis prod_cases3)
  show ?thesis
  proof (cases ok)
    case False
    then show ?thesis
      using assms Some a authenticate_False [of x s w r route w1 r1]
      by (intro unauthorized [of route]) (simp_all add: serve_admit_def)
  next
    case True
    with a have "authenticate x s w r route = (True, w1, r1)" by simp
    note a' = authenticate_True [OF this]
    have r1: "r1 = auth_request x s r route" using auth_request [of x s w r route] a by simp
    obtain ok2 w2 s2 where l: "checkRateLimit x mo s w r1 route = (ok2, w2, s2)" by (metis prod_cases3)
    show ?thesis
    proof (cases ok2)
      case False
      with l have l': "checkRateLimit x mo s w r1 route = (False, w2, s2)" by simp
      have "res = Returned" "w' = w2" "s' = s2"
        using assms Some a a'(1) True l' by (simp_all add: serve_admit_def)
      from checkRateLimit_False [OF l'] obtain lmt remaining reset rl where
        f: "limit_cfg route = Some lmt" "limiter_answer mo s r1 route = ((False, remaining, reset), rl)"
        "w2 = writeJSON (Rec_SetHeader
           (limit_headers (rl_Requests lmt) remaining (unix_seconds (mo_reset_now mo + reset)) w)
           ''Retry-After'' (Itoa (retry_after (x_rnd x) reset))) 429 body_rate_limited"
        "s2 = s\<lparr>s_rateLimiter := rl, s_metrics := RecordRateLimitRejection (rt_ID route) (s_metrics s)\<rparr>"
        by (rule checkRateLimit_False [OF l'], rule that)
      show ?thesis
        using Some a'(3) f \<open>res = Returned\<close> \<open>w' = w2\<close> \<open>s' = s2\<close>
        unfolding r1 by (intro limited [of route lmt remaining reset rl]) simp_all
    next
      case ok2: True
      with l have "checkRateLimit x mo s w r1 route = (True, w2, s2)" by simp
      note l' = checkRateLimit_True [OF this]
      have "serve_target x mo s2 w2 r1 route = (Ended res, w', s')"
        using assms Some a a'(1) True l ok2 by (simp add: serve_admit_def)
      with Some a'(3) l' r1 assms(2) show ?thesis by (intro target [of route s2 w2 r1]) simp_all
    qed
  qed
qed

lemma serveRoute_Ended:
  "serve_admit x mo (serve_begin s) (new_recorder w) r = (Ended res, w', s') \<Longrightarrow>
     serveRoute x mo s w r =
       \<lparr>sv_server = serve_deferred x mo (Match (s_router s) r) r w' s', sv_writer = w',
        sv_forwarded = None, sv_outcome = res\<rparr>"
  by (simp add: serveRoute_def)

lemma serveRoute_Admitted:
  assumes "serve_admit x mo (serve_begin s) (new_recorder w) r = (Admitted route target r', w', s')"
  shows "serveRoute x mo s w r =
    (let (calls, res) = proxy_exchange mo r';
         w'' = rec_run calls w'
     in \<lparr>sv_server = serve_deferred x mo (Match (s_router s) r) r w''
           (if res = Returned then record_result x mo s' w'' route target else s'),
         sv_writer = w'', sv_forwarded = proxy_request r', sv_outcome = res\<rparr>)"
  using assms by (simp add: serveRoute_def proxy_eq Let_def split: prod.splits outcome.split)

text \<open>
  C3: A request its route does not authenticate is answered 401 and costs nothing: it is not
  forwarded, no counter of the rate limiter, no balancer and no breaker moves, only metrics.
\<close>

theorem unauthorized_untouched:
  assumes "Match (s_router s) r = Some route" "\<not> authorized x s r route" "w_ops w = []"
  shows "let sv = serveRoute x mo s w r in
    sv_forwarded sv = None \<and> sv_outcome sv = Returned \<and>
    written_status (w_ops (sv_writer sv)) = 401 \<and> Rec_Status (sv_writer sv) = 401 \<and>
    sv_server sv = s\<lparr>s_metrics := s_metrics (sv_server sv)\<rparr>"
proof -
  obtain ok w' r' where a: "authenticate x s (new_recorder w) r route = (ok, w', r')"
    by (metis prod_cases3)
  with assms(2) authenticate_iff [of x s "new_recorder w" r route]
  have a': "authenticate x s (new_recorder w) r route = (False, w', r')" by simp
  then have "serve_admit x mo (serve_begin s) (new_recorder w) r = (Ended Returned, w', serve_begin s)"
    using assms(1) by (simp add: serve_admit_def)
  moreover obtain b where "w' = writeJSON (new_recorder w) 401 b"
    using authenticate_False(1) [OF a'] by blast
  ultimately show ?thesis
    using assms(3)
    by (simp add: serveRoute_Ended Let_def serve_deferred_def serve_begin_def informational_def)
qed

text \<open>
  C4: A request over its route's limit is answered 429 with its JSON error and all four headers:
  the limit, the limiter's remaining count, the instant at which the window ends in Unix
  seconds, and a \<open>Retry-After\<close> of the whole seconds until then, at least one. The limiter has
  counted the request, the rejection is counted, and no balancer or breaker moves.
\<close>

theorem rate_limited_answer:
  assumes "Match (s_router s) r = Some route" "authorized x s r route"
    and "limit_cfg route = Some lmt" "\<not> limit_passed mo s (auth_request x s r route) route"
    and "w_ops w = []"
  shows "let sv = serveRoute x mo s w r; h = w_Header (sv_writer sv) in
    sv_forwarded sv = None \<and> sv_outcome sv = Returned \<and>
    written_status (w_ops (sv_writer sv)) = 429 \<and>
    written_body (w_ops (sv_writer sv)) = encode_error body_rate_limited \<and>
    (\<exists>remaining reset.
       limiter_answer mo s (auth_request x s r route) route =
         ((False, remaining, reset), s_rateLimiter (sv_server sv)) \<and>
       Header_Get h ''X-RateLimit-Limit'' = Itoa (rl_Requests lmt) \<and>
       Header_Get h ''X-RateLimit-Remaining'' = Itoa remaining \<and>
       Header_Get h ''X-RateLimit-Reset'' = Itoa (unix_seconds (mo_reset_now mo + reset)) \<and>
       Header_Get h ''Retry-After'' = Itoa (max 1 (float_to_int (Seconds (x_rnd x) reset)))) \<and>
    m_RateLimitRejections (s_metrics (sv_server sv)) =
      Counter_Inc [rt_ID route] (m_RateLimitRejections (s_metrics s)) \<and>
    s_balancers (sv_server sv) = s_balancers s \<and> s_breakerStore (sv_server sv) = s_breakerStore s"
proof -
  let ?w = "new_recorder w"
  let ?r = "auth_request x s r route"
  obtain w1 r1 where a: "authenticate x s ?w r route = (True, w1, r1)"
    using assms(2) authenticate_iff [of x s ?w r route] by (metis prod_cases3 fst_conv)
  note a' = authenticate_True(1) [OF a]
  have r1: "r1 = ?r" using auth_request [of x s ?w r route] a by simp
  obtain remaining reset rl where l: "limiter_answer mo s ?r route = ((False, remaining, reset), rl)"
    using assms(3,4) unfolding limit_passed_def by (metis option.distinct(1) prod.collapse)
  let ?w' = "writeJSON (Rec_SetHeader (limit_headers (rl_Requests lmt) remaining
      (unix_seconds (mo_reset_now mo + reset)) ?w)
      ''Retry-After'' (Itoa (retry_after (x_rnd x) reset))) 429 body_rate_limited"
  let ?s' = "(serve_begin s)\<lparr>s_rateLimiter := rl,
      s_metrics := RecordRateLimitRejection (rt_ID route) (s_metrics (serve_begin s))\<rparr>"
  have "checkRateLimit x mo (serve_begin s) ?w ?r route = (False, ?w', ?s')"
    using assms(3) l by (simp add: checkRateLimit_eq Let_def)
  then have e: "serve_admit x mo (serve_begin s) ?w r = (Ended Returned, ?w', ?s')"
    using assms(1) a a' r1 by (simp add: serve_admit_def)
  have "retry_after (x_rnd x) reset = max 1 (float_to_int (Seconds (x_rnd x) reset))"
    by (simp add: retry_after_def Let_def)
  then show ?thesis
    using assms(5) l unfolding serveRoute_Ended [OF e] Let_def
    by (auto simp: informational_def limit_headers_def Header_Get_Set serve_deferred_def
        serve_begin_def RecordRateLimitRejection_def RecordRequest_def)
qed

subsection \<open>Metrics\<close>

lemma rejection_frame [simp]:
  "m_ActiveConnections (RecordRateLimitRejection rt m) = m_ActiveConnections m"
  "m_RequestsTotal (RecordRateLimitRejection rt m) = m_RequestsTotal m"
  "m_RequestDuration (RecordRateLimitRejection rt m) = m_RequestDuration m"
  by (simp_all add: RecordRateLimitRejection_def)

lemma serve_target_metrics:
  "serve_target x mo s w r route = (a, w', s') \<Longrightarrow> s_metrics s' = s_metrics s"
proof (cases a)
  case (Ended res)
  then show "serve_target x mo s w r route = (a, w', s') \<Longrightarrow> s_metrics s' = s_metrics s"
    by (auto elim: serve_target_Ended)
qed (auto dest: serve_target_Admitted(6))

text \<open>Up to the proxy, a request's only trace in the metrics is a rejection.\<close>

lemma serve_admit_metrics:
  assumes "serve_admit x mo s w r = (a, w', s')" "fresh w"
  shows "s_metrics s' = s_metrics s \<or> (\<exists>rt. s_metrics s' = RecordRateLimitRejection rt (s_metrics s))"
proof (cases a)
  case (Admitted route target r')
  with assms show ?thesis by (auto dest: serve_admit_Admitted(7))
next
  case (Ended res)
  with assms(1) have "serve_admit x mo s w r = (Ended res, w', s')" by simp
  from this assms(2) show ?thesis
  proof (cases rule: serve_admit_Ended)
    case (target route s2 w2 r2)
    with serve_target_metrics [OF target(4)] show ?thesis by simp
  qed auto
qed

lemma record_result_frame [simp]:
  "s_metrics (record_result x mo s w route target) = s_metrics s"
  "s_router (record_result x mo s w route target) = s_router s"
  "s_registry (record_result x mo s w route target) = s_registry s"
  "s_balancers (record_result x mo s w route target) = s_balancers s"
  "s_rateLimiter (record_result x mo s w route target) = s_rateLimiter s"
  by (simp_all add: record_result_def Let_def split: option.splits prod.splits)

text \<open>What the handler does to the metrics, between the two gauge updates.\<close>

lemma serveRoute_metrics:
  assumes "w_ops w = []"
  obtains m where "m = s_metrics (serve_begin s) \<or> (\<exists>rt. m = RecordRateLimitRejection rt (s_metrics (serve_begin s)))"
    "s_metrics (sv_server (serveRoute x mo s w r)) =
       RecordRequest (x_rnd x) (routeLabel (Match (s_router s) r)) (rq_Method r)
         (Itoa (Rec_Status (sv_writer (serveRoute x mo s w r)))) (time_sub (mo_end mo) (mo_start mo))
         (m\<lparr>m_ActiveConnections := Gauge_Dec (m_ActiveConnections m)\<rparr>)"
proof -
  obtain a w' s' where a: "serve_admit x mo (serve_begin s) (new_recorder w) r = (a, w', s')"
    by (metis prod_cases3)
  have m: "s_metrics s' = s_metrics (serve_begin s) \<or>
      (\<exists>rt. s_metrics s' = RecordRateLimitRejection rt (s_metrics (serve_begin s)))"
    using serve_admit_metrics [OF a] assms by simp
  show thesis
  proof (rule that [OF m], cases a)
    case (Ended res)
    then show "s_metrics (sv_server (serveRoute x mo s w r)) =
       RecordRequest (x_rnd x) (routeLabel (Match (s_router s) r)) (rq_Method r)
         (Itoa (Rec_Status (sv_writer (serveRoute x mo s w r)))) (time_sub (mo_end mo) (mo_start mo))
         ((s_metrics s')\<lparr>m_ActiveConnections := Gauge_Dec (m_ActiveConnections (s_metrics s'))\<rparr>)"
      using a by (simp add: serveRoute_Ended serve_deferred_def Let_def)
  next
    case (Admitted route target r')
    then show "s_metrics (sv_server (serveRoute x mo s w r)) =
       RecordRequest (x_rnd x) (routeLabel (Match (s_router s) r)) (rq_Method r)
         (Itoa (Rec_Status (sv_writer (serveRoute x mo s w r)))) (time_sub (mo_end mo) (mo_start mo))
         ((s_metrics s')\<lparr>m_ActiveConnections := Gauge_Dec (m_ActiveConnections (s_metrics s'))\<rparr>)"
      using a by (simp add: serveRoute_Admitted serve_deferred_def Let_def split: prod.splits)
  qed
qed

lemma gauge_balanced:
  "-9007199254740992 \<le> g_value g \<Longrightarrow> g_value g < 9007199254740992 \<Longrightarrow> Gauge_Dec (Gauge_Inc g) = g"
  by (cases g) (simp add: Gauge_Dec_def Gauge_Inc_def float_dec_def float_inc_def)

text \<open>
  C6: Every request is counted exactly once, whatever becomes of it, a panic in the proxy
  included: the gauge of active connections is back where it was, and the request counter and
  the latency histogram have one observation more, under the matched route (or \<open>unknown\<close>),
  the method and the recorded status.
\<close>

theorem every_request_counted:
  assumes "w_ops w = []"
    and "-9007199254740992 \<le> g_value (m_ActiveConnections (s_metrics s))"
    and "g_value (m_ActiveConnections (s_metrics s)) < 9007199254740992"
  shows "let sv = serveRoute x mo s w r; m = s_metrics s; m' = s_metrics (sv_server sv);
      label = routeLabel (Match (s_router s) r) in
    m_ActiveConnections m' = m_ActiveConnections m \<and>
    m_RequestsTotal m' =
      Counter_Inc [label, rq_Method r, Itoa (Rec_Status (sv_writer sv))] (m_RequestsTotal m) \<and>
    m_RequestDuration m' =
      Observe (x_rnd x) (Seconds (x_rnd x) (time_sub (mo_end mo) (mo_start mo))) [label, rq_Method r]
        (m_RequestDuration m)"
proof -
  obtain m where m: "m = s_metrics (serve_begin s) \<or> (\<exists>rt. m = RecordRateLimitRejection rt (s_metrics (serve_begin s)))"
    and s': "s_metrics (sv_server (serveRoute x mo s w r)) =
       RecordRequest (x_rnd x) (routeLabel (Match (s_router s) r)) (rq_Method r)
         (Itoa (Rec_Status (sv_writer (serveRoute x mo s w r)))) (time_sub (mo_end mo) (mo_start mo))
         (m\<lparr>m_ActiveConnections := Gauge_Dec (m_ActiveConnections m)\<rparr>)"
    using serveRoute_metrics [OF assms(1)] by blast
  from m have "m_ActiveConnections m = Gauge_Inc (m_ActiveConnections (s_metrics s))"
    "m_RequestsTotal m = m_RequestsTotal (s_metrics s)"
    "m_RequestDuration m = m_RequestDuration (s_metrics s)"
    by (auto simp: serve_begin_def)
  then show ?thesis
    unfolding Let_def s' using gauge_balanced [OF assms(2,3)]
    by (simp add: RecordRequest_def)
qed

subsection \<open>A running server stays sound\<close>

lemma serve_target_frame:
  assumes "serve_target x mo s w r route = (a, w', s')"
  shows "s_router s' = s_router s \<and> s_registry s' = s_registry s \<and> s_rateLimiter s' = s_rateLimiter s \<and>
    (\<forall>k. s_balancers s k \<noteq> None \<longrightarrow> s_balancers s' k \<noteq> None)"
proof (cases "GetEndpoints (s_registry s) (rt_ID route)")
  case (Inr eps)
  show ?thesis
  proof (cases "eps = [] \<or> s_balancers s (rt_ID route) = None")
    case False
    then obtain lb where lb: "s_balancers s (rt_ID route) = Some lb" "eps \<noteq> []" by auto
    let ?s = "s\<lparr>s_balancers := (s_balancers s)(rt_ID route \<mapsto> \<lparr>rr_counter = rr_counter lb + 1\<rparr>)\<rparr>"
    let ?t = "eps ! (unat (rr_counter lb) mod length eps)"
    have "s' = snd (breaker_check x mo ?s route ?t)"
      using assms Inr lb by (auto simp: serve_target_def RR_Next_simp split: if_splits prod.splits)
    then show ?thesis by (simp add: breaker_check_frame)
  qed (use assms Inr in \<open>auto simp: serve_target_def split: if_splits\<close>)
qed (use assms in \<open>auto simp: serve_target_def\<close>)

lemma checkRateLimit_frame:
  assumes "checkRateLimit x mo s w r route = (ok, w', s')"
  shows "s_router s' = s_router s \<and> s_registry s' = s_registry s \<and> s_balancers s' = s_balancers s \<and>
    s_breakerStore s' = s_breakerStore s"
  using assms by (auto simp: checkRateLimit_eq Let_def split: option.splits prod.splits if_splits)

lemma serve_admit_frame:
  assumes "serve_admit x mo s w r = (a, w', s')"
  shows "s_router s' = s_router s \<and> s_registry s' = s_registry s \<and>
    (\<forall>k. s_balancers s k \<noteq> None \<longrightarrow> s_balancers s' k \<noteq> None)"
proof (cases "Match (s_router s) r")
  case (Some route)
  obtain ok w1 r1 where auth: "authenticate x s w r route = (ok, w1, r1)" by (metis prod_cases3)
  obtain ok2 w2 s2 where lm: "checkRateLimit x mo s w1 r1 route = (ok2, w2, s2)" by (metis prod_cases3)
  show ?thesis
  proof (cases "ok \<and> ok2")
    case True
    then have "serve_target x mo s2 w2 r1 route = (a, w', s')"
      using assms Some auth lm by (simp add: serve_admit_def)
    from serve_target_frame [OF this] checkRateLimit_frame [OF lm] show ?thesis by simp
  next
    case False
    then have "s' = s \<or> s' = s2"
      using assms Some auth lm by (auto simp: serve_admit_def split: if_splits bool.splits)
    with checkRateLimit_frame [OF lm] show ?thesis by auto
  qed
qed (use assms in \<open>simp add: serve_admit_def\<close>)

lemma server_ok_begin: "server_ok s \<Longrightarrow> server_ok (serve_begin s)"
  by (rule server_ok_cong) simp_all

lemma server_ok_route:
  assumes "server_ok s" "Match (s_router s) r = Some route"
  shows "\<exists>eps. GetEndpoints (s_registry s) (rt_ID route) = Inr eps \<and> eps \<noteq> []"
    "s_balancers s (rt_ID route) \<noteq> None"
proof -
  have "route \<in> set (ro_routes (s_router s))" using Match_in_table [OF assms(2)] .
  with assms(1) have *: "case GetEndpoints (s_registry s) (rt_ID route) of Inl e \<Rightarrow> False | Inr eps \<Rightarrow> eps \<noteq> []"
    "s_balancers s (rt_ID route) \<noteq> None"
    by (simp_all add: server_ok_def)
  show "\<exists>eps. GetEndpoints (s_registry s) (rt_ID route) = Inr eps \<and> eps \<noteq> []"
    using *(1) by (cases "GetEndpoints (s_registry s) (rt_ID route)") simp_all
  show "s_balancers s (rt_ID route) \<noteq> None" by (rule *(2))
qed

lemma encode_error_nonempty: "encode_error b \<noteq> ''''"
  by (simp add: encode_error_def)

lemma no_upstream_body: "b \<in> {body_not_found, body_jwt_invalid, body_auth_required, body_rate_limited, body_circuit_open}
    \<Longrightarrow> encode_error b \<noteq> encode_error body_no_upstream"
proof -
  have "list_all (\<lambda>b. encode_error b \<noteq> encode_error body_no_upstream)
      [body_not_found, body_jwt_invalid, body_auth_required, body_rate_limited, body_circuit_open]"
    by code_simp
  then show "b \<in> {body_not_found, body_jwt_invalid, body_auth_required, body_rate_limited, body_circuit_open}
    \<Longrightarrow> encode_error b \<noteq> encode_error body_no_upstream" by auto
qed

text \<open>On a sound server the handler ends before the proxy with one of the five error answers.\<close>

lemma ended_answer:
  assumes "serve_admit x mo s w r = (Ended res, w', s')" "fresh w" "server_ok s"
  shows "res = Returned \<and> (\<exists>status b v. w' = writeJSON v status b \<and> fresh v \<and>
    (status, b) \<in> {(404, body_not_found), (401, body_jwt_invalid), (401, body_auth_required),
      (429, body_rate_limited), (503, body_circuit_open)})"
  using assms(1,2)
proof (cases rule: serve_admit_Ended)
  case (unauthorized route b)
  then have "b \<in> {body_jwt_invalid, body_auth_required}" by (simp split: option.splits)
  with unauthorized assms(2) show ?thesis by blast
next
  case (limited route lmt remaining reset rl)
  then show ?thesis using assms(2) by (metis fresh_simps(2,3) insertCI)
next
  case (target route s2 w2 r2)
  note route = server_ok_route [OF assms(3) target(1)]
  from target(4) show ?thesis
  proof (cases rule: serve_target_Ended)
    case (closed t)
    with target(5) show ?thesis by blast
  qed (use route target in simp_all)
qed (use assms(2) in blast)

text \<open>
  C2: A server with endpoints and a balancer for every route of its table keeps that property
  and never fails on its own: a handler panics only where the proxy does, over a forwarded
  request, and a request that is not forwarded is answered 404, 401, 429, 503 or 502. The 503
  is for an open breaker and never for want of an upstream, and the 502, with an empty body, is
  the proxy's own answer to a protocol switch it does not send.
\<close>

theorem server_stays_sound:
  assumes "server_ok s" "w_ops w = []"
  shows "let sv = serveRoute x mo s w r in
    server_ok (sv_server sv) \<and>
    sv_outcome sv \<in> {Returned, Panicked AbortHandler, Panicked InvalidWriteHeaderCode} \<and>
    (sv_forwarded sv \<noteq> None \<or>
      sv_outcome sv = Returned \<and> written_status (w_ops (sv_writer sv)) \<in> {404, 401, 429, 503, 502} \<and>
      written_body (w_ops (sv_writer sv)) \<noteq> encode_error body_no_upstream \<and>
      (written_status (w_ops (sv_writer sv)) = 502 \<longrightarrow> written_body (w_ops (sv_writer sv)) = ''''))"
proof -
  obtain a w' s' where a: "serve_admit x mo (serve_begin s) (new_recorder w) r = (a, w', s')"
    by (metis prod_cases3)
  have s': "server_ok s'"
    using serve_admit_frame [OF a]
    by (intro server_ok_cong [OF _ _ _ server_ok_begin [OF assms(1)]]) simp_all
  show ?thesis
  proof (cases a)
    case (Ended res)
    with a have e: "serve_admit x mo (serve_begin s) (new_recorder w) r = (Ended res, w', s')" by simp
    obtain status b v where v: "res = Returned" "w' = writeJSON v status b" "fresh v"
      "(status, b) \<in> {(404, body_not_found), (401, body_jwt_invalid), (401, body_auth_required),
        (429, body_rate_limited), (503, body_circuit_open)}"
      using ended_answer [OF e _ server_ok_begin [OF assms(1)]] assms(2) by auto
    then have "\<not> informational status" "status \<in> {404, 401, 429, 503}"
      "encode_error b \<noteq> encode_error body_no_upstream"
      using no_upstream_body [of b] by (auto simp: informational_def)
    moreover have "server_ok (serve_deferred x mo (Match (s_router s) r) r w' s')"
      by (rule server_ok_cong [OF _ _ _ s']) simp_all
    ultimately show ?thesis
      using writeJSON_status [OF v(3), of status b] v
      by (auto simp: serveRoute_Ended [OF e] Let_def)
  next
    case (Admitted route target r')
    with a have e: "serve_admit x mo (serve_begin s) (new_recorder w) r = (Admitted route target r', w', s')"
      by simp
    have "server_ok (serve_deferred x mo (Match (s_router s) r) r u
        (if res = Returned then record_result x mo s' u route target else s'))" for u res
      by (rule server_ok_cong [OF _ _ _ s']) simp_all
    moreover have "fresh w'" using serve_admit_Admitted(8) [OF e] assms(2) by simp
    moreover obtain calls res where "proxy_exchange mo r' = (calls, res)" by fastforce
    ultimately show ?thesis
      using proxy_exchange_outcome [of mo r'] proxy_exchange_unsent [of r' w' mo]
        encode_error_nonempty [of body_no_upstream]
      by (auto simp: serveRoute_Admitted [OF e] Let_def)
  qed
qed

subsection \<open>Witnesses\<close>

definition closed_request :: Request where
  "closed_request = sample_request ''GET'' ''/closed''"

lemma demo_closed:
  "Match (s_router demo_server) closed_request = Some closed_route"
  "\<not> authorized demo_externals demo_server closed_request closed_route"
proof -
  have "Match (New_Router [open_route, closed_route]) closed_request = Some closed_route" by code_simp
  then show "Match (s_router demo_server) closed_request = Some closed_route"
    by (simp add: New_Server_simps [OF demo_New] demo_config_def)
  show "\<not> authorized demo_externals demo_server closed_request closed_route"
    by (simp add: authorized_def jwt_accepts_def apikey_accepts_def closed_route_def JWT_Validate_def
        APIKey_Validate_def request_api_key_def closed_request_def sample_request_def Let_def
        HasPrefix_def bearer_def jwt_required_def)
qed

lemma unauthorized_untouched_witness:
  "written_status (w_ops (sv_writer (serveRoute demo_externals (demo_moment ok_exchange) demo_server
     new_writer closed_request))) = 401"
  using unauthorized_untouched [OF demo_closed, of new_writer "demo_moment ok_exchange"]
  by (simp add: Let_def new_writer_def)

definition busy_server :: "(nat, redis_map) Server" where
  "busy_server = demo_server\<lparr>s_rateLimiter := \<lparr>rlm_redis = None,
     rlm_memory = [''open:'' @ rq_RemoteAddr open_request \<mapsto> \<lparr>me_count = 1, me_resetAt = 5000000011\<rparr>]\<rparr>\<rparr>"

lemma rate_limited_answer_witness:
  "written_status (w_ops (sv_writer (serveRoute demo_externals (demo_moment ok_exchange) busy_server
     new_writer open_request))) = 429 \<and>
   Header_Get (w_Header (sv_writer (serveRoute demo_externals (demo_moment ok_exchange) busy_server
     new_writer open_request))) ''X-RateLimit-Limit'' = Itoa 1"
proof -
  have opn: "rt_Auth open_route = None" "rt_ID open_route = ''open''"
    "rt_RateLimit open_route = Some \<lparr>rl_Enabled = True, rl_Requests = 1, rl_Window = 60000000000, rl_PerClient = True\<rparr>"
    by (simp_all add: open_route_def sample_route_def)
  have "s_router busy_server = s_router demo_server" by (simp add: busy_server_def)
  then have m: "Match (s_router busy_server) open_request = Some open_route"
    by (simp add: demo_facts)
  have c: "client_id open_request open_route = rq_RemoteAddr open_request"
    by (simp add: client_id_def ResolveClientID_def AdaptRequest_def opn open_request_def sample_request_def)
  have "\<not> limit_passed (demo_moment ok_exchange) busy_server
      (auth_request demo_externals busy_server open_request open_route) open_route"
    by (simp add: auth_request_def authenticate_def opn limit_passed_def limit_cfg_def
        limiter_answer_def c RL_Allow_def RL_fallback_def busy_server_def memory_allow_def
        memory_allow_key_def memory_entry_def demo_moment_def wrap64_def Let_def)
  from rate_limited_answer [OF m _ _ this, of "\<lparr>rl_Enabled = True, rl_Requests = 1, rl_Window = 60000000000,
      rl_PerClient = True\<rparr>" new_writer] show ?thesis
    unfolding Let_def
    by (simp add: authorized_def opn limit_cfg_def new_writer_def del: Header_Get_Set) blast
qed

lemma every_request_counted_witness:
  "m_RequestsTotal (s_metrics (sv_server (serveRoute demo_externals (demo_moment ok_exchange) demo_server
     new_writer closed_request))) =
   Counter_Inc [''closed'', ''GET'', ''401''] (NewCounterVec [''route'', ''method'', ''status_code''])"
proof -
  let ?sv = "serveRoute demo_externals (demo_moment ok_exchange) demo_server new_writer closed_request"
  obtain ok w' r' where a: "authenticate demo_externals demo_server (new_recorder new_writer)
      closed_request closed_route = (ok, w', r')" by (metis prod_cases3)
  with authenticate_iff [of demo_externals demo_server "new_recorder new_writer" closed_request closed_route]
    demo_closed(2) have "\<not> ok" by simp
  with a have "authenticate demo_externals demo_server (new_recorder new_writer)
      closed_request closed_route = (False, w', r')" by simp
  from authenticate_False(1) [OF this] have "\<exists>b. w' = writeJSON (new_recorder new_writer) 401 b" by blast
  then have status: "Rec_Status (sv_writer ?sv) = 401"
    using a \<open>\<not> ok\<close> demo_closed(1)
    by (auto simp: serveRoute_def serve_admit_def informational_def new_writer_def)
  have "Itoa 401 = ''401''" by code_simp
  moreover have "routeLabel (Match (s_router demo_server) closed_request) = ''closed''"
    "rq_Method closed_request = ''GET''"
    by (simp add: demo_closed routeLabel_def closed_route_def,
        simp add: closed_request_def sample_request_def)
  moreover have "s_metrics demo_server = NewMetrics (sy_rnd demo_system)"
    by (rule New_Server_simps(9) [OF demo_New])
  ultimately show ?thesis
    using status every_request_counted
      [of new_writer demo_server demo_externals "demo_moment ok_exchange" closed_request]
    by (simp add: Let_def new_writer_def)
qed

lemma server_stays_sound_witness:
  "server_ok (sv_server (serveRoute demo_externals (demo_moment failed_exchange) demo_server
     new_writer open_request))"
  using server_stays_sound [OF demo_server_ok, of new_writer demo_externals "demo_moment failed_exchange"
      open_request]
  by (simp add: Let_def new_writer_def)

end
