(* ===== verification/Gateway_Effects.thy ===== *)
theory Gateway_Effects
  imports Gateway_Gates
begin

text \<open>
  What a request leaves behind besides its answer: the outcome its circuit breaker is told, the
  identity its upstream and the rate limiter see, and the breaker gauges the metrics loop
  exports.
\<close>

subsection \<open>The circuit breaker\<close>

definition breaker_at :: "('k, 'r) Server \<Rightarrow> string \<Rightarrow> CircuitBreaker option" where
  "breaker_at s key = Mapping.lookup (bs_breakers (s_breakerStore s)) key"

lemma breaker_at_balancers [simp]: "breaker_at (s\<lparr>s_balancers := b\<rparr>) k = breaker_at s k"
  by (simp add: breaker_at_def)

text \<open>The breaker a key has when a request asks for it.\<close>

definition breaker_or_new :: "CircuitBrkCfg \<Rightarrow> CircuitBreaker option \<Rightarrow> CircuitBreaker" where
  "breaker_or_new cfg cb = (case cb of None \<Rightarrow> NewCircuitBreaker cfg | Some b \<Rightarrow> b)"

lemma GetOrCreate_breaker:
  "fst (GetOrCreate rid url cfg bs) =
     breaker_or_new cfg (Mapping.lookup (bs_breakers bs) (breaker_key rid url))"
  "k \<noteq> breaker_key rid url \<Longrightarrow> Mapping.lookup (bs_breakers (snd (GetOrCreate rid url cfg bs))) k =
     Mapping.lookup (bs_breakers bs) k"
  "Mapping.lookup (bs_breakers (snd (GetOrCreate rid url cfg bs))) (breaker_key rid url) =
     Some (breaker_or_new cfg (Mapping.lookup (bs_breakers bs) (breaker_key rid url)))"
  by (cases "Mapping.lookup (bs_breakers bs) (breaker_key rid url)",
      simp_all add: GetOrCreate_existing GetOrCreate_missing breaker_or_new_def)+

lemma breaker_check_at:
  assumes "breaker_cfg route = Some cfg"
  shows "breaker_at (snd (breaker_check x mo s route target)) k =
    (if k = breaker_key (rt_ID route) (x_url_string x target)
     then Some (snd (Breaker_Allow (mo_allow_now mo) (breaker_or_new cfg (breaker_at s k))))
     else breaker_at s k)"
  using assms GetOrCreate_breaker [where rid = "rt_ID route" and url = "x_url_string x target"
      and cfg = cfg and bs = "s_breakerStore s"]
  by (auto simp: breaker_check_def breaker_at_def Let_def split: prod.splits)

text \<open>What the breaker is told of a recorded status.\<close>

definition tell_breaker :: "instant \<Rightarrow> instant \<Rightarrow> int \<Rightarrow> CircuitBreaker \<Rightarrow> CircuitBreaker" where
  "tell_breaker t1 t2 status cb =
     (if 500 \<le> status then RecordFailure t1 t2 cb
      else if 0 < status then RecordSuccess cb else cb)"

lemma record_result_at:
  assumes "breaker_cfg route = Some cfg"
  shows "breaker_at (record_result x mo s w route target) k =
    (if k = breaker_key (rt_ID route) (x_url_string x target)
     then Some (tell_breaker (mo_failure1 mo) (mo_failure2 mo) (Rec_Status w)
       (breaker_or_new cfg (breaker_at s k)))
     else breaker_at s k)"
  using assms GetOrCreate_breaker [where rid = "rt_ID route" and url = "x_url_string x target"
      and cfg = cfg and bs = "s_breakerStore s"]
  by (auto simp: record_result_def breaker_at_def tell_breaker_def Let_def split: prod.splits)

lemma serve_admit_breaker:
  assumes "serve_admit x mo s w r = (Admitted route target r', w', s')" "breaker_cfg route = Some cfg"
  shows "breaker_at s' k =
    (if k = breaker_key (rt_ID route) (x_url_string x target)
     then Some (snd (Breaker_Allow (mo_allow_now mo) (breaker_or_new cfg (breaker_at s k))))
     else breaker_at s k)"
proof -
  from assms(1) obtain w1 r1 w2 s2 where
    l: "checkRateLimit x mo s w1 r1 route = (True, w2, s2)"
    and t: "serve_target x mo s2 w2 r1 route = (Admitted route target r', w', s')"
  proof -
    from assms(1) obtain rt w1 r1 w2 s2 where
      "checkRateLimit x mo s w1 r1 rt = (True, w2, s2)"
      "serve_target x mo s2 w2 r1 rt = (Admitted route target r', w', s')"
      by (auto simp: serve_admit_def split: option.splits prod.splits bool.splits)
    with serve_target_Admitted(1) [OF this(2)] that show thesis by simp
  qed
  from t obtain lb' where
    "breaker_check x mo (s2\<lparr>s_balancers := (s_balancers s2)(rt_ID route \<mapsto> lb')\<rparr>) route target = (True, s')"
    by (auto simp: serve_target_def split: sum.splits option.splits prod.splits if_splits)
  then have s': "s' = snd (breaker_check x mo (s2\<lparr>s_balancers := (s_balancers s2)(rt_ID route \<mapsto> lb')\<rparr>) route target)"
    by (metis snd_conv)
  have "breaker_at s2 k' = breaker_at s k'" for k'
    using checkRateLimit_True(4) [OF l] by (simp add: breaker_at_def)
  then show ?thesis
    unfolding s' breaker_check_at [OF assms(2)] by simp
qed

lemma breaker_at_deferred [simp]: "breaker_at (serve_deferred x mo rt r w s) k = breaker_at s k"
  by (simp add: breaker_at_def)

lemma breaker_at_begin [simp]: "breaker_at (serve_begin s) k = breaker_at s k"
  by (simp add: breaker_at_def)

lemma forwarded_tells:
  assumes "sv_forwarded (serveRoute x mo s w r) = Some out"
    and "Match (s_router s) r = Some route" "breaker_cfg route = Some cfg"
  shows "\<exists>target. is_endpoint s route target \<and> url_Host (rq_URL out) = url_Host target \<and>
    (let sv = serveRoute x mo s w r;
         key = breaker_key (rt_ID route) (x_url_string x target);
         before = breaker_or_new cfg (breaker_at s key);
         allowed = snd (Breaker_Allow (mo_allow_now mo) before)
     in fst (Breaker_Allow (mo_allow_now mo) before) \<and>
        breaker_at (sv_server sv) key = Some
          (if sv_outcome sv = Returned
           then tell_breaker (mo_failure1 mo) (mo_failure2 mo) (Rec_Status (sv_writer sv)) allowed
           else allowed) \<and>
        (\<forall>k. k \<noteq> key \<longrightarrow> breaker_at (sv_server sv) k = breaker_at s k))"
proof -
  from assms(1) obtain rt target r' w' s' where
    a: "serve_admit x mo (serve_begin s) (new_recorder w) r = (Admitted rt target r', w', s')"
    and out: "proxy_request r' = Some out"
    by (rule sv_forwarded_Some)
  note gates = serve_admit_Admitted [OF a]
  have rt: "rt = route" using gates(1) assms(2) by simp
  note at = serve_admit_breaker [OF a [unfolded rt] assms(3)]
  have endpoint: "is_endpoint s route target" using gates(4) rt by simp
  have host: "url_Host (rq_URL out) = url_Host target"
    using proxy_request_target [OF out] by (simp add: gates(6))
  have passed: "fst (Breaker_Allow (mo_allow_now mo)
      (breaker_or_new cfg (breaker_at s (breaker_key (rt_ID route) (x_url_string x target)))))"
    using gates(5) assms(3) rt by (simp add: breaker_passed_def GetOrCreate_breaker breaker_at_def)
  obtain calls res where ex: "proxy_exchange mo r' = (calls, res)" by fastforce
  show ?thesis
    using endpoint host passed
    unfolding serveRoute_Admitted [OF a] ex rt Let_def
    by (intro exI [of _ target]) (simp add: at record_result_at [OF assms(3)] breaker_or_new_def)
qed

text \<open>
  C5: A forwarded request whose route has a circuit breaker touches the breaker of its route and
  target only: the breaker lets it through, and when the exchange is over it is told a failure
  for a recorded status of 500 or more, a success for any other status above 0, and nothing
  when none was recorded or the exchange was aborted.
\<close>

theorem breaker_told:
  assumes "sv_forwarded (serveRoute x mo s w r) = Some out"
    and "Match (s_router s) r = Some route" "breaker_cfg route = Some cfg"
  shows "\<exists>target. is_endpoint s route target \<and> url_Host (rq_URL out) = url_Host target \<and>
    (let sv = serveRoute x mo s w r;
         key = breaker_key (rt_ID route) (x_url_string x target);
         before = breaker_or_new cfg (breaker_at s key);
         allowed = snd (Breaker_Allow (mo_allow_now mo) before)
     in fst (Breaker_Allow (mo_allow_now mo) before) \<and>
        breaker_at (sv_server sv) key = Some
          (if sv_outcome sv = Returned
           then tell_breaker (mo_failure1 mo) (mo_failure2 mo) (Rec_Status (sv_writer sv)) allowed
           else allowed) \<and>
        (\<forall>k. k \<noteq> key \<longrightarrow> breaker_at (sv_server sv) k = breaker_at s k))"
  by (rule forwarded_tells [OF assms])

lemma breaker_told_witness:
  "\<exists>target. is_endpoint demo_server open_route target \<and> url_Host target = ''a'' \<and>
     breaker_at (sv_server (serveRoute demo_externals (demo_moment failed_exchange) demo_server
       new_writer open_request)) ''open:http://a'' \<noteq> None"
proof -
  obtain out where out: "proxy_request (open_request\<lparr>rq_target := Some (sample_url ''a'')\<rparr>) = Some out"
    using demo_proxied by blast
  then have f: "sv_forwarded (serveRoute demo_externals (demo_moment failed_exchange) demo_server new_writer
      open_request) = Some out"
    using sv_forwarded_Admitted [OF demo_admit] by simp
  have host: "url_Host (rq_URL out) = ''a''"
    using proxy_request_target [OF out, of "sample_url ''a''"] by (simp add: sample_url_def)
  have cfg: "breaker_cfg open_route = Some sample_breaker_cfg" "rt_ID open_route = ''open''"
    by (simp_all add: breaker_cfg_def open_route_def sample_breaker_cfg_def)
  from breaker_told [OF f demo_facts(1) cfg(1)] obtain target where
    t: "is_endpoint demo_server open_route target" "url_Host target = ''a''"
    and b: "breaker_at (sv_server (serveRoute demo_externals (demo_moment failed_exchange) demo_server
       new_writer open_request)) (breaker_key ''open'' (x_url_string demo_externals target)) \<noteq> None"
    unfolding host cfg(2) Let_def by (metis option.distinct(1))
  have "breaker_key ''open'' (x_url_string demo_externals target) = ''open:http://a''"
    using t(2) by (simp add: breaker_key_def demo_externals_def)
  with t b show ?thesis by auto
qed

subsection \<open>Identity\<close>

text \<open>
  The header values of an outgoing request are those after authentication, less the headers
  that are hop-by-hop in the client's request, the ones it names in \<open>Connection\<close> included.
\<close>

lemma auth_request_Connection:
  "rq_Header (auth_request x s r route) ''Connection'' = rq_Header r ''Connection''"
  by (auto simp: auth_request_def authenticate_def auth_apikey_def ForwardClaims_def Header_Set_def Let_def
      split: option.splits sum.splits)

abbreviation proxy_keys :: "string set" where
  "proxy_keys \<equiv> {''Te'', ''Connection'', ''Upgrade'', ''X-Forwarded-For'', ''User-Agent''}"

lemma forwarded_header:
  assumes "sv_forwarded (serveRoute x mo s w r) = Some out" "Match (s_router s) r = Some route"
    and "CanonicalHeaderKey k \<notin> proxy_keys"
  shows "Header_Get (rq_Header out) k =
      (if hop_by_hop (rq_Header r) (CanonicalHeaderKey k) then ''''
       else Header_Get (rq_Header (auth_request x s r route)) k)"
    and "authorized x s r route"
proof -
  from assms(1) obtain rt target r' w' s' where
    a: "serve_admit x mo (serve_begin s) (new_recorder w) r = (Admitted rt target r', w', s')"
    and out: "proxy_request r' = Some out"
    by (rule sv_forwarded_Some)
  note gates = serve_admit_Admitted [OF a]
  have rt: "rt = route" using gates(1) assms(2) by simp
  have h: "rq_Header r' = rq_Header (auth_request x s r route)" using gates(6) rt by simp
  have "hop_by_hop (rq_Header r') = hop_by_hop (rq_Header r)"
    unfolding h by (rule ext, rule hop_by_hop_cong, rule auth_request_Connection)
  with proxy_request_header [OF out assms(3)]
  show "Header_Get (rq_Header out) k =
      (if hop_by_hop (rq_Header r) (CanonicalHeaderKey k) then ''''
       else Header_Get (rq_Header (auth_request x s r route)) k)"
    by (simp add: Header_Get_def h)
  show "authorized x s r route" using gates(2) rt by simp
qed

lemma auth_request_apikey:
  "APIKey_Validate (x_sha256 x) (s_apiKeyAuth s) r = Inr key \<Longrightarrow>
     snd (snd (auth_apikey x s w r)) = r\<lparr>rq_Header := Header_Set (Header_Set (rq_Header r)
       ''X-API-Key-ID'' (k_ID key)) ''X-API-Key-Tier'' (k_RateTier key)\<rparr>"
  by (simp add: auth_apikey_def Let_def)

text \<open>
  The value an upstream should see under an identity header of a route with authentication:
  what the accepted token says, or else the accepted key; the client's own value for the rest.
\<close>

definition identity_keys :: "string set" where
  "identity_keys = {''X-User-Id'', ''X-User-Claims'', ''X-Api-Key-Id'', ''X-Api-Key-Tier''}"

definition token_value :: "('k, 'pe) externals \<Rightarrow> claims \<Rightarrow> string \<Rightarrow> string option" where
  "token_value x claims key =
     (if key = ''X-User-Id'' then (let sub = as_string (claims ''sub'') in if sub = '''' then None else Some sub)
      else if key = ''X-User-Claims'' then x_marshal x claims
      else None)"

definition key_value :: "APIKey \<Rightarrow> string \<Rightarrow> string option" where
  "key_value k key =
     (if key = ''X-Api-Key-Id'' then Some (k_ID k)
      else if key = ''X-Api-Key-Tier'' then Some (k_RateTier k) else None)"

definition sent_value :: "Request \<Rightarrow> string option \<Rightarrow> string \<Rightarrow> string" where
  "sent_value r v key =
     (if hop_by_hop (rq_Header r) key then ''''
      else case v of Some s \<Rightarrow> s | None \<Rightarrow> (case rq_Header r key of Some (s # _) \<Rightarrow> s | _ \<Rightarrow> ''''))"

lemma canonical_identity: "key \<in> identity_keys \<Longrightarrow> CanonicalHeaderKey key = key"
proof -
  have "list_all (\<lambda>key. CanonicalHeaderKey key = key)
      [''X-User-Id'', ''X-User-Claims'', ''X-Api-Key-Id'', ''X-Api-Key-Tier'']" by code_simp
  then show "key \<in> identity_keys \<Longrightarrow> CanonicalHeaderKey key = key" by (auto simp: identity_keys_def)
qed

lemma forwarded_sent_value:
  assumes "sv_forwarded (serveRoute x mo s w r) = Some out" "Match (s_router s) r = Some route"
    and "key \<in> identity_keys"
    and "Header_Get (rq_Header (auth_request x s r route)) key = sent_value r v key
      \<or> hop_by_hop (rq_Header r) key"
  shows "Header_Get (rq_Header out) key = sent_value r v key"
proof -
  note c = canonical_identity [OF assms(3)]
  have "CanonicalHeaderKey key \<notin> proxy_keys" using assms(3) unfolding c by (auto simp: identity_keys_def)
  from forwarded_header(1) [OF assms(1,2) this] assms(4) show ?thesis
    unfolding c by (auto simp: sent_value_def)
qed

lemma client_value:
  "key \<in> identity_keys \<Longrightarrow> \<not> hop_by_hop (rq_Header r) key \<Longrightarrow>
     sent_value r v key = (case v of Some s \<Rightarrow> s | None \<Rightarrow> Header_Get (rq_Header r) key)"
  by (simp add: sent_value_def Header_Get_def canonical_identity split: option.split list.split)

lemma ForwardClaims_value:
  assumes "key \<in> identity_keys" "\<not> hop_by_hop (rq_Header r) key"
  shows "Header_Get (rq_Header (ForwardClaims (x_marshal x) r claims)) key = sent_value r (token_value x claims key) key"
proof -
  note c = canonical_identity [OF assms(1)]
  have "key = ''X-User-Id'' \<or> key = ''X-User-Claims'' \<or> key \<notin> {''X-User-Id'', ''X-User-Claims''}" by blast
  then show ?thesis
    unfolding client_value [OF assms]
    by (elim disjE) (use c in \<open>simp_all add: ForwardClaims_def token_value_def Header_Get_Set Let_def split: option.split\<close>)
qed

lemma apikey_value:
  assumes "key \<in> identity_keys" "\<not> hop_by_hop (rq_Header r) key"
  shows "Header_Get (Header_Set (Header_Set (rq_Header r) ''X-API-Key-ID'' (k_ID k)) ''X-API-Key-Tier'' (k_RateTier k)) key =
    sent_value r (key_value k key) key"
  unfolding client_value [OF assms]
  using canonical_identity [OF assms(1)] by (auto simp: key_value_def Header_Get_Set)

text \<open>
  C7: The identity an upstream sees of a request whose route requires authentication, in full.
  When a JWT is required and accepted, \<open>X-User-ID\<close> is its subject and \<open>X-User-Claims\<close> its claims
  in JSON. Otherwise, the JWT not required or not accepted, the route requires an API key and
  one is accepted, and \<open>X-API-Key-ID\<close> and \<open>X-API-Key-Tier\<close> are that key's. All other identity
  headers stand as the client sent them, the subject's too when the token has none and the
  claims' when they cannot be printed. A header the client names in its \<open>Connection\<close> header is
  dropped by the proxy, the gateway's value with it.
\<close>

theorem forwarded_identity:
  assumes "sv_forwarded (serveRoute x mo s w r) = Some out" "Match (s_router s) r = Some route"
    and "rt_Auth route = Some auth" "jwt_required auth \<or> apikey_required auth"
  shows "(\<exists>claims. jwt_required auth \<and>
      JWT_Validate (x_jwt_parse x) (s_jwtAuth s) r (auth_JWT auth) = Inr claims \<and>
      (\<forall>key \<in> identity_keys. Header_Get (rq_Header out) key = sent_value r (token_value x claims key) key)) \<or>
    (\<exists>k. apikey_required auth \<and> APIKey_Validate (x_sha256 x) (s_apiKeyAuth s) r = Inr k \<and>
      (jwt_required auth \<longrightarrow> isl (JWT_Validate (x_jwt_parse x) (s_jwtAuth s) r (auth_JWT auth))) \<and>
      (\<forall>key \<in> identity_keys. Header_Get (rq_Header out) key = sent_value r (key_value k key) key))"
proof (cases "jwt_accepts x s r auth")
  case True
  then obtain claims where j: "jwt_required auth"
    "JWT_Validate (x_jwt_parse x) (s_jwtAuth s) r (auth_JWT auth) = Inr claims"
    by (auto simp: jwt_accepts_def) (metis sum.collapse(2))
  have "auth_request x s r route = ForwardClaims (x_marshal x) r claims"
    using assms(3) j by (simp add: auth_request_def authenticate_def)
  then have "Header_Get (rq_Header out) key = sent_value r (token_value x claims key) key"
    if "key \<in> identity_keys" for key
    using forwarded_sent_value [OF assms(1,2) that] ForwardClaims_value [OF that, of r x claims] by auto
  with j show ?thesis by blast
next
  case False
  have "authorized x s r route" using forwarded_header(2) [OF assms(1,2), of "''X-API-Key-ID''"] by simp
  with False assms(3,4) have "apikey_accepts x s r auth" by (auto simp: authorized_def)
  then obtain k where k: "apikey_required auth" "APIKey_Validate (x_sha256 x) (s_apiKeyAuth s) r = Inr k"
    by (auto simp: apikey_accepts_def) (metis sum.collapse(2))
  have "auth_request x s r route = r\<lparr>rq_Header := Header_Set (Header_Set (rq_Header r)
       ''X-API-Key-ID'' (k_ID k)) ''X-API-Key-Tier'' (k_RateTier k)\<rparr>"
    using False k assms(3) auth_request_apikey [OF k(2)]
    by (auto simp: auth_request_def authenticate_def jwt_accepts_def split: sum.split)
  then have "Header_Get (rq_Header out) key = sent_value r (key_value k key) key"
    if "key \<in> identity_keys" for key
    using forwarded_sent_value [OF assms(1,2) that] apikey_value [OF that, of r k] by auto
  with k False show ?thesis by (auto simp: jwt_accepts_def)
qed

text \<open>
  Identity headers the gateway did not set are not removed either: on a route without
  authentication the client's \<open>X-User-ID\<close> and \<open>X-API-Key-ID\<close> reach the upstream as they came,
  unless the client itself names them in \<open>Connection\<close>.
\<close>

theorem identity_not_stripped:
  assumes "sv_forwarded (serveRoute x mo s w r) = Some out" "Match (s_router s) r = Some route"
    and "rt_Auth route = None"
    and "CanonicalHeaderKey k \<in> {''X-User-Id'', ''X-Api-Key-Id'', ''X-Api-Key-Tier''}"
    and "\<not> hop_by_hop (rq_Header r) (CanonicalHeaderKey k)"
  shows "Header_Get (rq_Header out) k = Header_Get (rq_Header r) k"
proof -
  have "auth_request x s r route = r"
    using assms(3) by (simp add: auth_request_def authenticate_def)
  moreover have "CanonicalHeaderKey k \<notin> proxy_keys" using assms(4) by auto
  ultimately show ?thesis using forwarded_header(1) [OF assms(1,2)] assms(5) by simp
qed

text \<open>
  With a per-client limit on a route without authentication the client chooses its counter:
  as long as it sends an \<open>X-User-ID\<close> that has no entry yet, the in-memory limiter admits it,
  whatever it has used up before.
\<close>

theorem fresh_identity_passes_limit:
  assumes "rt_Auth route = None" "limit_cfg route = Some lmt" "rl_PerClient lmt"
    and "1 \<le> rl_Requests lmt" "rlm_redis (s_rateLimiter s) = None"
    and "user \<noteq> ''''" "rlm_memory (s_rateLimiter s) (rt_ID route @ '':'' @ user) = None"
  shows "limit_passed mo s
    (auth_request x s (r\<lparr>rq_Header := Header_Set (rq_Header r) ''X-User-ID'' user\<rparr>) route) route"
proof -
  let ?r = "r\<lparr>rq_Header := Header_Set (rq_Header r) ''X-User-ID'' user\<rparr>"
  have r: "auth_request x s ?r route = ?r"
    using assms(1) by (simp add: auth_request_def authenticate_def)
  have lmt: "rt_RateLimit route = Some lmt" "rl_Enabled lmt"
    using assms(2) by (auto simp: limit_cfg_def split: option.splits if_splits)
  have "client_id ?r route = user"
    using lmt assms(3,6) by (simp add: client_id_def ResolveClientID_def AdaptRequest_def Header_Get_Set Let_def)
  then show ?thesis
    using lmt assms(4,5,7)
    by (simp add: r limit_passed_def limiter_answer_def RL_Allow_def RL_fallback_def memory_allow_def
        memory_allow_key_def memory_entry_def Let_def wrap64_def)
qed

subsection \<open>The exported breaker states\<close>

lemma lookup_BreakerStates:
  "Mapping.lookup (BreakerStates bs) k =
     map_option (\<lambda>cb. state_int (cb_State cb)) (Mapping.lookup (bs_breakers bs) k)"
  by (simp add: BreakerStates_def lookup_map_values lookup_Snapshot option.map_comp comp_def)

lemma keys_BreakerStates: "Mapping.keys (BreakerStates bs) = Mapping.keys (bs_breakers bs)"
  by (rule set_eqI) (simp add: keys_is_none_rep lookup_BreakerStates Option.is_none_def)

text \<open>
  After a tick of the breaker loop the gauges are exactly the states of the breakers, old
  gauges gone. The whole breaker key (route and upstream) stands in the \<open>route\<close> label, and
  the \<open>upstream\<close> label is always empty.
\<close>

theorem breaker_gauges_exported:
  assumes "\<not> s_breakerDone s" "finite (Mapping.keys (bs_breakers (s_breakerStore s)))"
  shows "Mapping.lookup (gv_values (m_CircuitBreakerState (s_metrics (export_breakers s)))) labels =
      (if \<exists>key. labels = Join [key, ''''] [NUL]
       then map_option (\<lambda>cb. state_int (cb_State cb)) (breaker_at s (butlast labels))
       else None)"
  using assms
  by (simp add: export_breakers_def SetBreakerStates_lookup keys_BreakerStates lookup_BreakerStates
      breaker_at_def)

subsection \<open>Witnesses\<close>

lemma demo_jwt: "s_jwtAuth demo_server = NewJWTAuth (Some ''key'')"
  by (simp add: New_Server_simps [OF demo_New] jwt_secret_def demo_system_def Let_def)

text \<open>A request with a token for the guarded route.\<close>

definition token_request :: Request where
  "token_request = closed_request\<lparr>rq_Header := Header_Set Map.empty ''Authorization'' (bearer @ ''tok'')\<rparr>"

lemma token_request_facts:
  "Match (s_router demo_server) token_request = Some closed_route"
  "GetEndpoints (s_registry demo_server) ''closed'' = Inr [sample_url ''c'']"
  "s_balancers demo_server ''closed'' = Some NewRoundRobin"
  "JWT_Validate (x_jwt_parse demo_externals) (s_jwtAuth demo_server) token_request
     (Some \<lparr>jwt_Required = True, jwt_Issuers = []\<rparr>) = Inr [''iss'' \<mapsto> JString ''me'', ''sub'' \<mapsto> JString ''bob'']"
proof -
  note demo = New_Server_simps [OF demo_New]
  have "Match (New_Router [open_route, closed_route]) token_request = Some closed_route" by code_simp
  then show "Match (s_router demo_server) token_request = Some closed_route"
    by (simp add: demo demo_config_def)
  have reg: "NewStaticRegistry sample_parse [open_route, closed_route] = Inr (s_registry demo_server)"
    using demo(3) by (simp add: demo_config_def demo_system_def)
  show "GetEndpoints (s_registry demo_server) ''closed'' = Inr [sample_url ''c'']"
    by (simp add: GetEndpoints_Inr registry_entries [OF reg] endpoints_of_def open_route_def
        closed_route_def sample_parse_def HasPrefix_def TrimPrefix_def)
  show "s_balancers demo_server ''closed'' = Some NewRoundRobin"
    by (simp add: demo demo_config_def new_balancers_def open_route_def closed_route_def)
  show "JWT_Validate (x_jwt_parse demo_externals) (s_jwtAuth demo_server) token_request
     (Some \<lparr>jwt_Required = True, jwt_Issuers = []\<rparr>) = Inr [''iss'' \<mapsto> JString ''me'', ''sub'' \<mapsto> JString ''bob'']"
    by (simp add: demo_jwt JWT_Validate_Inr token_request_def Header_Get_Set demo_externals_def
        sample_jwt_parse_def NewJWTAuth_def defaultKeyFunc_def sample_token_def)
qed

lemma closed_route_facts:
  "rt_ID closed_route = ''closed''" "rt_RateLimit closed_route = None"
  "breaker_cfg closed_route = None"
  "rt_Auth closed_route = Some \<lparr>auth_JWT = Some \<lparr>jwt_Required = True, jwt_Issuers = []\<rparr>,
     auth_APIKey = Some \<lparr>apikey_Required = True\<rparr>\<rparr>"
  by (simp_all add: closed_route_def sample_route_def breaker_cfg_def)

lemma token_admit:
  "fst (serve_admit demo_externals (demo_moment ex) (serve_begin demo_server)
     (new_recorder new_writer) token_request) = Admitted closed_route (sample_url ''c'')
       (auth_request demo_externals demo_server token_request closed_route\<lparr>rq_target := Some (sample_url ''c'')\<rparr>)"
  by (simp add: serve_admit_def token_request_facts authenticate_def closed_route_facts auth_request_def
      jwt_required_def checkRateLimit_def serve_target_def RR_Next_def NewRoundRobin_def
      breaker_check_def Let_def)

lemma no_connection_proxied:
  assumes "rq_Header r ''Connection'' = None"
  shows "\<exists>out. proxy_request (r\<lparr>rq_target := t\<rparr>) = Some out"
proof -
  have "proxy_request (r\<lparr>rq_target := t\<rparr>) \<noteq> None"
    using assms unfolding proxy_request_None
    by (simp add: upgradeType_def contains_token_def header_values_def is_print_def)
  then show ?thesis by blast
qed

lemma no_connection_hop: "h ''Connection'' = None \<Longrightarrow> hop_by_hop h k \<longleftrightarrow> k \<in> set hopHeaders"
  by (simp add: hop_by_hop_def connection_options_def header_values_def)

lemma forwarded_identity_witness:
  "\<exists>out. sv_forwarded (serveRoute demo_externals (demo_moment ok_exchange) demo_server new_writer
       token_request) = Some out \<and> Header_Get (rq_Header out) ''X-User-Id'' = ''bob''"
proof -
  have c: "rq_Header token_request ''Connection'' = None"
    by (simp add: token_request_def Header_Set_def)
  have "rq_Header (auth_request demo_externals demo_server token_request closed_route) ''Connection'' = None"
    by (simp add: auth_request_Connection c)
  from no_connection_proxied [OF this]
  obtain out where "proxy_request (auth_request demo_externals demo_server token_request closed_route
      \<lparr>rq_target := Some (sample_url ''c'')\<rparr>) = Some out" by blast
  then have out: "sv_forwarded (serveRoute demo_externals (demo_moment ok_exchange) demo_server
      new_writer token_request) = Some out"
    using sv_forwarded_Admitted [OF token_admit] by simp
  have hop: "\<not> hop_by_hop (rq_Header token_request) ''X-User-Id''"
    using no_connection_hop [of "rq_Header token_request", OF c] by (simp add: hopHeaders_def)
  have "Header_Get (rq_Header out) ''X-User-Id'' = ''bob''"
    using forwarded_identity [OF out token_request_facts(1) closed_route_facts(4)] token_request_facts(4) hop
    by (auto simp: jwt_required_def identity_keys_def sent_value_def token_value_def)
  with out show ?thesis by blast
qed

text \<open>A request that names its own user.\<close>

definition forged_request :: Request where
  "forged_request = open_request\<lparr>rq_Header := Header_Set Map.empty ''X-User-ID'' ''admin''\<rparr>"

lemma identity_not_stripped_witness:
  "\<exists>out. sv_forwarded (serveRoute demo_externals (demo_moment ok_exchange) demo_server new_writer
       forged_request) = Some out \<and> Header_Get (rq_Header out) ''X-User-ID'' = ''admin''"
proof -
  have opn: "rt_Auth open_route = None" "rt_ID open_route = ''open''"
    "rt_RateLimit open_route = Some \<lparr>rl_Enabled = True, rl_Requests = 1, rl_Window = 60000000000, rl_PerClient = True\<rparr>"
    "rt_CircuitBreaker open_route = Some sample_breaker_cfg"
    by (simp_all add: open_route_def sample_route_def)
  have "Match (New_Router [open_route, closed_route]) forged_request = Some open_route" by code_simp
  then have m: "Match (s_router demo_server) forged_request = Some open_route"
    by (simp add: New_Server_simps [OF demo_New] demo_config_def)
  have a: "fst (serve_admit demo_externals (demo_moment ok_exchange) (serve_begin demo_server)
      (new_recorder new_writer) forged_request) =
      Admitted open_route (sample_url ''a'') (forged_request\<lparr>rq_target := Some (sample_url ''a'')\<rparr>)"
    by (simp add: serve_admit_def m demo_facts(2-) authenticate_def opn checkRateLimit_def RL_Allow_def
        RL_fallback_def memory_allow_def memory_allow_key_def memory_entry_def newMemoryLimiter_def
        wrap64_def demo_moment_def serve_target_def RR_Next_def NewRoundRobin_def breaker_check_def
        breaker_cfg_def sample_breaker_cfg_def GetOrCreate_def GetOrCreate_locked_def
        NewBreakerStore_def NewCircuitBreaker_def Breaker_Allow_def Let_def)
  have c: "rq_Header forged_request ''Connection'' = None"
    by (simp add: forged_request_def Header_Set_def)
  from no_connection_proxied [OF this]
  obtain out where "proxy_request (forged_request\<lparr>rq_target := Some (sample_url ''a'')\<rparr>) = Some out" by blast
  then have out: "sv_forwarded (serveRoute demo_externals (demo_moment ok_exchange) demo_server
      new_writer forged_request) = Some out"
    using sv_forwarded_Admitted [OF a] by simp
  have "Header_Get (rq_Header out) ''X-User-ID'' = Header_Get (rq_Header forged_request) ''X-User-ID''"
    by (rule identity_not_stripped [OF out m opn(1)])
      (simp_all add: no_connection_hop [of "rq_Header forged_request", OF c] hopHeaders_def)
  with out show ?thesis
    by (auto simp: forged_request_def Header_Get_Set)
qed

lemma fresh_identity_passes_limit_witness:
  "limit_passed (demo_moment ok_exchange) busy_server
     (auth_request demo_externals busy_server
       (open_request\<lparr>rq_Header := Header_Set (rq_Header open_request) ''X-User-ID'' ''eve''\<rparr>) open_route) open_route"
proof (rule fresh_identity_passes_limit)
  show "rt_Auth open_route = None"
    "limit_cfg open_route = Some \<lparr>rl_Enabled = True, rl_Requests = 1, rl_Window = 60000000000, rl_PerClient = True\<rparr>"
    by (simp_all add: open_route_def sample_route_def limit_cfg_def)
  show "rlm_memory (s_rateLimiter busy_server) (rt_ID open_route @ '':'' @ ''eve'') = None"
    by (simp add: busy_server_def open_route_def open_request_def sample_request_def)
qed (simp_all add: busy_server_def)

lemma breaker_gauges_exported_witness:
  "Mapping.lookup (gv_values (m_CircuitBreakerState (s_metrics (export_breakers (demo_server
     \<lparr>s_breakerStore := snd (GetOrCreate ''open'' ''http://a'' sample_breaker_cfg NewBreakerStore)\<rparr>)))))
     (Join [''open:http://a'', ''''] [NUL]) = Some 0"
proof -
  let ?bs = "snd (GetOrCreate ''open'' ''http://a'' sample_breaker_cfg NewBreakerStore)"
  let ?s = "demo_server\<lparr>s_breakerStore := ?bs\<rparr>"
  have bs: "bs_breakers ?bs = Mapping.update ''open:http://a'' (NewCircuitBreaker sample_breaker_cfg) Mapping.empty"
    by (simp add: GetOrCreate_def GetOrCreate_locked_def NewBreakerStore_def breaker_key_def put_breaker_def Let_def)
  have "\<not> s_breakerDone ?s" "finite (Mapping.keys (bs_breakers (s_breakerStore ?s)))"
    using New_Server_simps(10) [OF demo_New] by (simp_all add: bs)
  from breaker_gauges_exported [OF this, of "Join [''open:http://a'', ''''] [NUL]"]
  show ?thesis
    by (auto simp: breaker_at_def bs butlast_append NewCircuitBreaker_def)
qed

end
