(* ===== verification/Gateway_Handler.thy ===== *)
theory Gateway_Handler
  imports Gateway_Effects
begin

text \<open>
  \<open>serveRoute\<close> as a goroutine: the handler of theory \<open>Gateway_Server\<close> cut at its locked
  sections, where other goroutines may run in between.

  A \<open>task\<close> is the goroutine's local state: the request, its start, the status recorder, the
  matched route, the outgoing request once there is one, and the place (\<open>phase\<close>) in the code.
  \<open>advance\<close> is its next section on the shared server. Sections of one handler that no other
  goroutine can tell apart are one step: reading the router, the keys and the registry, which
  nothing writes while the server runs, and the updates of different metrics. \<open>GetOrCreate\<close>
  and what is then done through the breaker's pointer are two steps, and so are the limiter's
  round trip to Redis and its in-memory fallback. Every step is given the moment at which it
  runs.
\<close>

subsection \<open>Phases\<close>

datatype phase =
    AtEntry
  | AtRoute
  | AtLimit Route Request
  | AtFallback Route RateLimitCfg Request
  | AtPick Route Request
  | AtBreaker Route URL Request
  | AtAllow Route URL Request
  | AtProxy Route URL Request
  | AtRecord Route URL
  | AtTell Route URL
  | AtDefer outcome
  | Finished outcome

record task =
  tk_request :: Request
  tk_start :: instant
  tk_w :: statusRecorder
  tk_route :: "Route option"
  tk_forwarded :: "Request option"
  tk_phase :: phase

definition new_task :: "ResponseWriter \<Rightarrow> Request \<Rightarrow> task" where
  "new_task w r = \<lparr>tk_request = r, tk_start = 0, tk_w = new_recorder w, tk_route = None,
     tk_forwarded = None, tk_phase = AtEntry\<rparr>"

text \<open>Ending early: the answer is written, the deferred function is next.\<close>

definition reject :: "int \<Rightarrow> errorBody \<Rightarrow> task \<Rightarrow> task" where
  "reject status body t = t\<lparr>tk_w := writeJSON (tk_w t) status body, tk_phase := AtDefer Returned\<rparr>"

subsection \<open>Steps\<close>

definition route_step ::
  "('k, 'pe) externals \<Rightarrow> ('k, 'r) Server \<Rightarrow> task \<Rightarrow> task" where
  "route_step x s t =
     (case Match (s_router s) (tk_request t) of
        None \<Rightarrow> reject 404 body_not_found t
      | Some route \<Rightarrow>
          (case authenticate x s (tk_w t) (tk_request t) route of
             (False, w, r) \<Rightarrow> t\<lparr>tk_route := Some route, tk_w := w, tk_phase := AtDefer Returned\<rparr>
           | (True, w, r) \<Rightarrow> t\<lparr>tk_route := Some route, tk_w := w, tk_phase := AtLimit route r\<rparr>))"

text \<open>The limiter has answered: the headers, and 429 or on to the endpoints.\<close>

definition limit_result ::
  "('k, 'pe) externals \<Rightarrow> ('e, 'r) moment \<Rightarrow> Route \<Rightarrow> RateLimitCfg \<Rightarrow> Request \<Rightarrow> bool \<times> int \<times> duration
     \<Rightarrow> ('k, 'r) Server \<times> task \<Rightarrow> ('k, 'r) Server \<times> task" where
  "limit_result x mo route lmt r = (\<lambda>(allowed, remaining, reset) (s, t).
     let w = limit_headers (rl_Requests lmt) remaining (unix_seconds (mo_reset_now mo + reset)) (tk_w t)
     in if \<not> allowed then
          let w = Rec_SetHeader w ''Retry-After'' (Itoa (retry_after (x_rnd x) reset))
          in (s\<lparr>s_metrics := RecordRateLimitRejection (rt_ID route) (s_metrics s)\<rparr>,
              reject 429 body_rate_limited (t\<lparr>tk_w := w\<rparr>))
        else (s, t\<lparr>tk_w := w, tk_phase := AtPick route r\<rparr>))"

definition limit_step ::
  "('k, 'pe) externals \<Rightarrow> ('e, 'r) moment \<Rightarrow> Route \<Rightarrow> Request \<Rightarrow> ('k, 'r) Server \<times> task
     \<Rightarrow> ('k, 'r) Server \<times> task" where
  "limit_step x mo route r = (\<lambda>(s, t).
     case limit_cfg route of
       None \<Rightarrow> (s, t\<lparr>tk_phase := AtPick route r\<rparr>)
     | Some lmt \<Rightarrow>
         (case RL_redis (mo_redis mo) (s_rateLimiter s) (rt_ID route) (client_id r route) lmt of
            (Some a, rl) \<Rightarrow> limit_result x mo route lmt r a (s\<lparr>s_rateLimiter := rl\<rparr>, t)
          | (None, rl) \<Rightarrow> (s\<lparr>s_rateLimiter := rl\<rparr>, t\<lparr>tk_phase := AtFallback route lmt r\<rparr>)))"

definition fallback_step ::
  "('k, 'pe) externals \<Rightarrow> ('e, 'r) moment \<Rightarrow> Route \<Rightarrow> RateLimitCfg \<Rightarrow> Request \<Rightarrow> ('k, 'r) Server \<times> task
     \<Rightarrow> ('k, 'r) Server \<times> task" where
  "fallback_step x mo route lmt r = (\<lambda>(s, t).
     case RL_fallback (mo_limit_now mo) (mo_limit_until mo) (s_rateLimiter s) (rt_ID route)
         (client_id r route) lmt of
       (a, rl) \<Rightarrow> limit_result x mo route lmt r a (s\<lparr>s_rateLimiter := rl\<rparr>, t))"

definition pick_step ::
  "Route \<Rightarrow> Request \<Rightarrow> ('k, 'r) Server \<times> task \<Rightarrow> ('k, 'r) Server \<times> task" where
  "pick_step route r = (\<lambda>(s, t).
     case GetEndpoints (s_registry s) (rt_ID route) of
       Inl err \<Rightarrow> (s, reject 503 body_no_upstream t)
     | Inr endpoints \<Rightarrow>
         if length endpoints = 0 then (s, reject 503 body_no_upstream t)
         else (case s_balancers s (rt_ID route) of
                 None \<Rightarrow> (s, t\<lparr>tk_phase := AtDefer (Panicked NilDereference)\<rparr>)
               | Some lb \<Rightarrow>
                   (let (res, lb') = RR_Next lb endpoints;
                        s = s\<lparr>s_balancers := (s_balancers s)(rt_ID route \<mapsto> lb')\<rparr>
                    in case res of
                         Inl p \<Rightarrow> (s, t\<lparr>tk_phase := AtDefer (Panicked p)\<rparr>)
                       | Inr target \<Rightarrow>
                           (s, t\<lparr>tk_phase := (if breaker_cfg route = None
                              then AtProxy route target (r\<lparr>rq_target := Some target\<rparr>)
                              else AtBreaker route target r)\<rparr>))))"

text \<open>\<open>GetOrCreate\<close>, whose pointer stands for the breaker under the key from then on.\<close>

definition create_breaker ::
  "('k, 'pe) externals \<Rightarrow> Route \<Rightarrow> URL \<Rightarrow> ('k, 'r) Server \<Rightarrow> ('k, 'r) Server" where
  "create_breaker x route target s =
     (case breaker_cfg route of
        None \<Rightarrow> s
      | Some cfg \<Rightarrow> s\<lparr>s_breakerStore :=
          snd (GetOrCreate (rt_ID route) (x_url_string x target) cfg (s_breakerStore s))\<rparr>)"

definition pointed_breaker ::
  "('k, 'pe) externals \<Rightarrow> Route \<Rightarrow> URL \<Rightarrow> ('k, 'r) Server \<Rightarrow> CircuitBreaker option" where
  "pointed_breaker x route target s = breaker_at s (breaker_key (rt_ID route) (x_url_string x target))"

definition set_breaker ::
  "('k, 'pe) externals \<Rightarrow> Route \<Rightarrow> URL \<Rightarrow> CircuitBreaker \<Rightarrow> ('k, 'r) Server \<Rightarrow> ('k, 'r) Server" where
  "set_breaker x route target cb s =
     s\<lparr>s_breakerStore :=
        put_breaker (breaker_key (rt_ID route) (x_url_string x target)) cb (s_breakerStore s)\<rparr>"

definition allow_step ::
  "('k, 'pe) externals \<Rightarrow> ('e, 'r) moment \<Rightarrow> Route \<Rightarrow> URL \<Rightarrow> Request \<Rightarrow> ('k, 'r) Server \<times> task
     \<Rightarrow> ('k, 'r) Server \<times> task" where
  "allow_step x mo route target r = (\<lambda>(s, t).
     case pointed_breaker x route target s of
       None \<Rightarrow> (s, t\<lparr>tk_phase := AtDefer (Panicked NilDereference)\<rparr>)
     | Some breaker \<Rightarrow>
         (let (ok, breaker) = Breaker_Allow (mo_allow_now mo) breaker;
              s = set_breaker x route target breaker s
          in if \<not> ok then (s, reject 503 body_circuit_open t)
             else (s, t\<lparr>tk_phase := AtProxy route target (r\<lparr>rq_target := Some target\<rparr>)\<rparr>)))"

definition proxy_step :: "('e, 'r) moment \<Rightarrow> Route \<Rightarrow> URL \<Rightarrow> Request \<Rightarrow> task \<Rightarrow> task" where
  "proxy_step mo route target r t =
     (case proxy_ServeHTTP mo (tk_w t) r of
        (outreq, w, res) \<Rightarrow> t\<lparr>tk_w := w, tk_forwarded := outreq,
          tk_phase := (if res = Returned \<and> breaker_cfg route \<noteq> None then AtRecord route target
                       else AtDefer res)\<rparr>)"

definition tell_step ::
  "('k, 'pe) externals \<Rightarrow> ('e, 'r) moment \<Rightarrow> Route \<Rightarrow> URL \<Rightarrow> ('k, 'r) Server \<times> task
     \<Rightarrow> ('k, 'r) Server \<times> task" where
  "tell_step x mo route target = (\<lambda>(s, t).
     case pointed_breaker x route target s of
       None \<Rightarrow> (s, t\<lparr>tk_phase := AtDefer (Panicked NilDereference)\<rparr>)
     | Some breaker \<Rightarrow>
         (set_breaker x route target
            (tell_breaker (mo_failure1 mo) (mo_failure2 mo) (Rec_Status (tk_w t)) breaker) s,
          t\<lparr>tk_phase := AtDefer Returned\<rparr>))"

definition defer_step ::
  "('k, 'pe) externals \<Rightarrow> ('e, 'r) moment \<Rightarrow> outcome \<Rightarrow> ('k, 'r) Server \<times> task \<Rightarrow> ('k, 'r) Server \<times> task" where
  "defer_step x mo res = (\<lambda>(s, t).
     (serve_deferred x (mo\<lparr>mo_start := tk_start t\<rparr>) (tk_route t) (tk_request t) (tk_w t) s,
      t\<lparr>tk_phase := Finished res\<rparr>))"

definition advance ::
  "('k, 'pe) externals \<Rightarrow> ('e, 'r) moment \<Rightarrow> ('k, 'r) Server \<times> task \<Rightarrow> ('k, 'r) Server \<times> task" where
  "advance x mo = (\<lambda>(s, t).
     case tk_phase t of
       AtEntry \<Rightarrow> (serve_begin s, t\<lparr>tk_start := mo_start mo, tk_phase := AtRoute\<rparr>)
     | AtRoute \<Rightarrow> (s, route_step x s t)
     | AtLimit route r \<Rightarrow> limit_step x mo route r (s, t)
     | AtFallback route lmt r \<Rightarrow> fallback_step x mo route lmt r (s, t)
     | AtPick route r \<Rightarrow> pick_step route r (s, t)
     | AtBreaker route target r \<Rightarrow>
         (create_breaker x route target s, t\<lparr>tk_phase := AtAllow route target r\<rparr>)
     | AtAllow route target r \<Rightarrow> allow_step x mo route target r (s, t)
     | AtProxy route target r \<Rightarrow> (s, proxy_step mo route target r t)
     | AtRecord route target \<Rightarrow>
         (create_breaker x route target s, t\<lparr>tk_phase := AtTell route target\<rparr>)
     | AtTell route target \<Rightarrow> tell_step x mo route target (s, t)
     | AtDefer res \<Rightarrow> defer_step x mo res (s, t)
     | Finished res \<Rightarrow> (s, t))"

subsection \<open>Every handler finishes\<close>

fun phase_rank :: "phase \<Rightarrow> nat" where
  "phase_rank AtEntry = 11"
| "phase_rank AtRoute = 10"
| "phase_rank (AtLimit route r) = 9"
| "phase_rank (AtFallback route lmt r) = 8"
| "phase_rank (AtPick route r) = 7"
| "phase_rank (AtBreaker route target r) = 6"
| "phase_rank (AtAllow route target r) = 5"
| "phase_rank (AtProxy route target r) = 4"
| "phase_rank (AtRecord route target) = 3"
| "phase_rank (AtTell route target) = 2"
| "phase_rank (AtDefer res) = 1"
| "phase_rank (Finished res) = 0"

definition finished :: "task \<Rightarrow> bool" where
  "finished t \<longleftrightarrow> phase_rank (tk_phase t) = 0"

lemma finished_iff: "finished t \<longleftrightarrow> (\<exists>res. tk_phase t = Finished res)"
  by (cases "tk_phase t") (simp_all add: finished_def)

named_theorems steps
lemmas step_defs [steps] = route_step_def limit_step_def fallback_step_def limit_result_def pick_step_def allow_step_def
  proxy_step_def tell_step_def defer_step_def reject_def

lemma advance_rank:
  assumes "\<not> finished t"
  shows "phase_rank (tk_phase (snd (advance x mo (s, t)))) < phase_rank (tk_phase t)"
  using assms
  by (cases "tk_phase t")
    (auto simp: advance_def finished_def steps Let_def
      split: option.splits sum.splits prod.splits bool.splits)

lemma advance_finished: "finished t \<Longrightarrow> advance x mo (s, t) = (s, t)"
  by (auto simp: finished_iff advance_def)

text \<open>The handler alone, all its steps at one moment.\<close>

function finish ::
  "('k, 'pe) externals \<Rightarrow> ('e, 'r) moment \<Rightarrow> ('k, 'r) Server \<times> task \<Rightarrow> ('k, 'r) Server \<times> task" where
  "finish x mo c = (if finished (snd c) then c else finish x mo (advance x mo c))"
  by pat_completeness auto
termination
proof (relation "measure (\<lambda>(x, mo, c). phase_rank (tk_phase (snd c)))")
  show "((x, mo, advance x mo c), x, mo, c) \<in> measure (\<lambda>(x, mo, c). phase_rank (tk_phase (snd c)))"
    if "\<not> finished (snd c)" for x :: "('k, 'pe) externals" and mo :: "('e, 'r) moment" and c
    using advance_rank [of "snd c" x mo "fst c"] that by simp
qed simp

declare finish.simps [simp del]

subsection \<open>A handler alone is serveRoute\<close>

definition served_of :: "('k, 'r) Server \<times> task \<Rightarrow> ('k, 'r) served" where
  "served_of = (\<lambda>(s, t).
     \<lparr>sv_server = s, sv_writer = tk_w t, sv_forwarded = tk_forwarded t,
      sv_outcome = (case tk_phase t of Finished res \<Rightarrow> res | _ \<Rightarrow> Returned)\<rparr>)"

text \<open>\<open>serveRoute\<close> from the proxy on.\<close>

definition serve_rest ::
  "('k, 'pe) externals \<Rightarrow> ('e, 'r) moment \<Rightarrow> Route option \<Rightarrow> Request
     \<Rightarrow> admission \<times> statusRecorder \<times> ('k, 'r) Server \<Rightarrow> ('k, 'r) served" where
  "serve_rest x mo route r = (\<lambda>(a, w, s).
     case a of
       Ended res \<Rightarrow>
         \<lparr>sv_server = serve_deferred x mo route r w s, sv_writer = w, sv_forwarded = None,
          sv_outcome = res\<rparr>
     | Admitted rt target r' \<Rightarrow>
         (case proxy_ServeHTTP mo w r' of
            (outreq, w, Returned) \<Rightarrow>
              \<lparr>sv_server = serve_deferred x mo route r w (record_result x mo s w rt target),
               sv_writer = w, sv_forwarded = outreq, sv_outcome = Returned\<rparr>
          | (outreq, w, Panicked p) \<Rightarrow>
              \<lparr>sv_server = serve_deferred x mo route r w s,
               sv_writer = w, sv_forwarded = outreq, sv_outcome = Panicked p\<rparr>))"

lemma serveRoute_rest:
  "serveRoute x mo s w r = serve_rest x mo (Match (s_router s) r) r
     (serve_admit x mo (serve_begin s) (new_recorder w) r)"
  by (simp add: serveRoute_def serve_rest_def Let_def split: prod.split admission.split)

lemma finish_step:
  "tk_phase t = ph \<Longrightarrow> phase_rank ph \<noteq> 0 \<Longrightarrow> finish x mo (s, t) = finish x mo (advance x mo (s, t))"
  by (subst finish.simps) (simp add: finished_def)

lemma finish_finished: "tk_phase t = Finished res \<Longrightarrow> finish x mo (s, t) = (s, t)"
  by (subst finish.simps) (simp add: finished_def)

lemma mo_start_same [simp]: "mo\<lparr>mo_start := mo_start mo\<rparr> = mo"
  by simp

lemma put_breaker_same:
  "Mapping.lookup (bs_breakers bs) key = Some cb \<Longrightarrow> put_breaker key cb bs = bs"
proof -
  have "Mapping.lookup m key = Some cb \<Longrightarrow> Mapping.update key cb m = m" for m :: "(string, CircuitBreaker) mapping"
    by (rule mapping_eqI) (auto simp: lookup_update')
  then show "Mapping.lookup (bs_breakers bs) key = Some cb \<Longrightarrow> put_breaker key cb bs = bs"
    by (simp add: put_breaker_def)
qed

lemma pointed_create:
  assumes "breaker_cfg route = Some cfg"
  shows "pointed_breaker x route target (create_breaker x route target s) =
    Some (breaker_or_new cfg (pointed_breaker x route target s))"
  using assms by (simp add: pointed_breaker_def create_breaker_def breaker_at_def GetOrCreate_breaker)

lemma check_by_steps:
  assumes "breaker_cfg route = Some cfg"
  shows "breaker_check x mo s route target =
    (let (ok, cb) = Breaker_Allow (mo_allow_now mo) (breaker_or_new cfg (pointed_breaker x route target s))
     in (ok, set_breaker x route target cb (create_breaker x route target s)))"
  using assms
  by (simp add: breaker_check_def set_breaker_def create_breaker_def pointed_breaker_def
      breaker_at_def GetOrCreate_breaker(1) [symmetric] Let_def split: prod.splits)

lemma record_by_steps:
  assumes "breaker_cfg route = Some cfg"
  shows "record_result x mo s w route target =
    set_breaker x route target
      (tell_breaker (mo_failure1 mo) (mo_failure2 mo) (Rec_Status w)
        (breaker_or_new cfg (pointed_breaker x route target s)))
      (create_breaker x route target s)"
proof -
  let ?url = "x_url_string x target"
  obtain cb bs where g: "GetOrCreate (rt_ID route) ?url cfg (s_breakerStore s) = (cb, bs)" by fastforce
  have cb: "breaker_or_new cfg (pointed_breaker x route target s) = cb"
    using GetOrCreate_breaker(1) [of "rt_ID route" ?url cfg "s_breakerStore s"] g
    by (simp add: pointed_breaker_def breaker_at_def)
  have "Mapping.lookup (bs_breakers bs) (breaker_key (rt_ID route) ?url) = Some cb"
    using GetOrCreate_breaker(1,3) [of "rt_ID route" ?url cfg "s_breakerStore s"] g by simp
  then show ?thesis
    unfolding cb using assms g
    by (simp add: record_result_def set_breaker_def create_breaker_def tell_breaker_def
        put_breaker_same Let_def)
qed

text \<open>From the deferred function backwards.\<close>

lemma finish_defer:
  assumes "tk_phase t = AtDefer res"
  shows "served_of (finish x mo (s, t)) =
    \<lparr>sv_server = serve_deferred x (mo\<lparr>mo_start := tk_start t\<rparr>) (tk_route t) (tk_request t) (tk_w t) s,
     sv_writer = tk_w t, sv_forwarded = tk_forwarded t, sv_outcome = res\<rparr>"
  using assms by (simp add: finish_step advance_def defer_step_def finish_finished served_of_def)

lemma finish_record:
  assumes "tk_phase t = AtRecord route target" "breaker_cfg route = Some cfg" "tk_start t = mo_start mo"
  shows "served_of (finish x mo (s, t)) =
    \<lparr>sv_server = serve_deferred x mo (tk_route t) (tk_request t) (tk_w t)
       (record_result x mo s (tk_w t) route target),
     sv_writer = tk_w t, sv_forwarded = tk_forwarded t, sv_outcome = Returned\<rparr>"
proof -
  let ?s = "create_breaker x route target s"
  let ?cb = "breaker_or_new cfg (pointed_breaker x route target s)"
  have "finish x mo (s, t) = finish x mo (tell_step x mo route target (?s, t\<lparr>tk_phase := AtTell route target\<rparr>))"
    using assms(1) by (simp add: finish_step advance_def)
  also have "\<dots> = finish x mo
      (set_breaker x route target
         (tell_breaker (mo_failure1 mo) (mo_failure2 mo) (Rec_Status (tk_w t)) ?cb) ?s,
       t\<lparr>tk_phase := AtDefer Returned\<rparr>)"
    by (simp add: tell_step_def pointed_create [OF assms(2)])
  finally show ?thesis
    using assms(3) by (simp add: finish_defer record_by_steps [OF assms(2)])
qed

lemma finish_proxy:
  assumes "tk_phase t = AtProxy route target r'" "tk_start t = mo_start mo"
  shows "served_of (finish x mo (s, t)) =
    serve_rest x mo (tk_route t) (tk_request t) (Admitted route target r', tk_w t, s)"
proof -
  obtain outreq w res where p: "proxy_ServeHTTP mo (tk_w t) r' = (outreq, w, res)" by (metis prod_cases3)
  have step: "finish x mo (s, t) = finish x mo (s, proxy_step mo route target r' t)"
    using assms(1) by (simp add: finish_step advance_def)
  show ?thesis
  proof (cases "res = Returned \<and> breaker_cfg route \<noteq> None")
    case True
    then show ?thesis
      using assms p unfolding step by (auto simp: proxy_step_def serve_rest_def finish_record)
  next
    case False
    then show ?thesis
      using assms p unfolding step
      by (cases res) (auto simp: proxy_step_def serve_rest_def finish_defer record_result_def)
  qed
qed

text \<open>The endpoint picked: the route's breaker, if any, then the proxy.\<close>

lemma finish_pick_breaker:
  assumes "tk_phase t = AtPick route r'" "tk_start t = mo_start mo" "tk_forwarded t = None"
    and ep: "GetEndpoints (s_registry s) (rt_ID route) = Inr eps" "eps \<noteq> []"
      "s_balancers s (rt_ID route) = Some lb" "breaker_cfg route = Some cfg"
  shows "served_of (finish x mo (s, t)) =
    serve_rest x mo (tk_route t) (tk_request t) (serve_target x mo s (tk_w t) r' route)"
proof -
  let ?t = "eps ! (unat (rr_counter lb) mod length eps)"
  let ?s = "s\<lparr>s_balancers := (s_balancers s)(rt_ID route \<mapsto> \<lparr>rr_counter = rr_counter lb + 1\<rparr>)\<rparr>"
  have pick: "pick_step route r' (s, t) = (?s, t\<lparr>tk_phase := AtBreaker route ?t r'\<rparr>)"
    using ep by (simp add: pick_step_def RR_Next_simp)
  obtain ok cb where a: "Breaker_Allow (mo_allow_now mo)
      (breaker_or_new cfg (pointed_breaker x route ?t ?s)) = (ok, cb)" by fastforce
  have target: "serve_target x mo s (tk_w t) r' route =
      (if ok then (Admitted route ?t (r'\<lparr>rq_target := Some ?t\<rparr>), tk_w t,
          set_breaker x route ?t cb (create_breaker x route ?t ?s))
       else (Ended Returned, writeJSON (tk_w t) 503 body_circuit_open,
          set_breaker x route ?t cb (create_breaker x route ?t ?s)))"
    using ep a by (simp add: serve_target_def RR_Next_simp check_by_steps [OF ep(4)] Let_def)
  have "served_of (finish x mo (s, t)) =
      served_of (finish x mo (allow_step x mo route ?t r'
        (create_breaker x route ?t ?s, t\<lparr>tk_phase := AtAllow route ?t r'\<rparr>)))"
    using assms(1) by (simp add: pick finish_step advance_def)
  also have "\<dots> = serve_rest x mo (tk_route t) (tk_request t) (serve_target x mo s (tk_w t) r' route)"
    using assms(2,3) a unfolding target
    by (simp add: allow_step_def pointed_create [OF ep(4)] reject_def finish_defer finish_proxy)
      (simp add: serve_rest_def)
  finally show ?thesis .
qed

lemma finish_pick:
  assumes "tk_phase t = AtPick route r'" "tk_start t = mo_start mo" "tk_forwarded t = None"
  shows "served_of (finish x mo (s, t)) =
    serve_rest x mo (tk_route t) (tk_request t) (serve_target x mo s (tk_w t) r' route)"
proof -
  have step: "finish x mo (s, t) = finish x mo (pick_step route r' (s, t))"
    using assms(1) by (simp add: finish_step advance_def)
  show ?thesis
  proof (cases "GetEndpoints (s_registry s) (rt_ID route)")
    case (Inl e)
    with assms show ?thesis unfolding step
      by (simp add: pick_step_def reject_def serve_target_def serve_rest_def finish_defer)
  next
    case (Inr eps)
    consider (none) "eps = []" | (nil) "eps \<noteq> []" "s_balancers s (rt_ID route) = None"
      | (lb) lb where "eps \<noteq> []" "s_balancers s (rt_ID route) = Some lb" by auto
    then show ?thesis
    proof cases
      case none
      with Inr assms show ?thesis unfolding step
        by (simp add: pick_step_def reject_def serve_target_def serve_rest_def finish_defer)
    next
      case nil
      with Inr assms show ?thesis unfolding step
        by (simp add: pick_step_def serve_target_def serve_rest_def finish_defer)
    next
      case (lb lb)
      show ?thesis
      proof (cases "breaker_cfg route")
        case None
        with Inr lb assms show ?thesis unfolding step
          by (simp add: pick_step_def serve_target_def RR_Next_simp finish_proxy breaker_check_def)
      qed (rule finish_pick_breaker [OF assms Inr lb])
    qed
  qed
qed

text \<open>The limiter's answer, and the limiter by its two sections.\<close>

definition limit_outcome ::
  "('k, 'pe) externals \<Rightarrow> ('e, 'r) moment \<Rightarrow> Route \<Rightarrow> RateLimitCfg \<Rightarrow> bool \<times> int \<times> duration
     \<Rightarrow> statusRecorder \<Rightarrow> ('k, 'r) Server \<Rightarrow> bool \<times> statusRecorder \<times> ('k, 'r) Server" where
  "limit_outcome x mo route lmt = (\<lambda>(allowed, remaining, reset) w s.
     let w = limit_headers (rl_Requests lmt) remaining (unix_seconds (mo_reset_now mo + reset)) w
     in if allowed then (True, w, s)
        else (False,
          writeJSON (Rec_SetHeader w ''Retry-After'' (Itoa (retry_after (x_rnd x) reset))) 429 body_rate_limited,
          s\<lparr>s_metrics := RecordRateLimitRejection (rt_ID route) (s_metrics s)\<rparr>))"

lemma checkRateLimit_parts:
  assumes "limit_cfg route = Some lmt"
  shows "checkRateLimit x mo s w r route =
    (case RL_redis (mo_redis mo) (s_rateLimiter s) (rt_ID route) (client_id r route) lmt of
       (Some a, rl) \<Rightarrow> limit_outcome x mo route lmt a w (s\<lparr>s_rateLimiter := rl\<rparr>)
     | (None, rl) \<Rightarrow>
         (case RL_fallback (mo_limit_now mo) (mo_limit_until mo) rl (rt_ID route) (client_id r route) lmt of
            (a, rl) \<Rightarrow> limit_outcome x mo route lmt a w (s\<lparr>s_rateLimiter := rl\<rparr>)))"
proof -
  have "rt_RateLimit route = Some lmt" "rl_Enabled lmt"
    using assms by (auto simp: limit_cfg_def split: option.splits if_splits)
  then show ?thesis
    unfolding checkRateLimit_eq assms limiter_answer_def
    by (simp add: RL_Allow_parts limit_outcome_def Let_def split: prod.split option.split)
qed

abbreviation "after_limit x mo route r' t l \<equiv> serve_rest x mo (tk_route t) (tk_request t)
  (case l of (False, w, s) \<Rightarrow> (Ended Returned, w, s) | (True, w, s) \<Rightarrow> serve_target x mo s w r' route)"

lemma finish_limit_result:
  assumes "tk_start t = mo_start mo" "tk_forwarded t = None"
  shows "served_of (finish x mo (limit_result x mo route lmt r' a (s, t))) =
    after_limit x mo route r' t (limit_outcome x mo route lmt a (tk_w t) s)"
proof -
  obtain allowed remaining reset where "a = (allowed, remaining, reset)" by (metis prod_cases3)
  then show ?thesis
    using assms
    by (cases allowed) (simp_all add: limit_result_def limit_outcome_def reject_def finish_defer finish_pick
        serve_rest_def Let_def)
qed

lemma finish_limit:
  assumes "tk_phase t = AtLimit route r'" "tk_start t = mo_start mo" "tk_forwarded t = None"
  shows "served_of (finish x mo (s, t)) =
    after_limit x mo route r' t (checkRateLimit x mo s (tk_w t) r' route)"
proof -
  have step: "finish x mo (s, t) = finish x mo (limit_step x mo route r' (s, t))"
    using assms(1) by (simp add: finish_step advance_def)
  show ?thesis
  proof (cases "limit_cfg route")
    case None
    with assms show ?thesis unfolding step by (simp add: limit_step_def finish_pick checkRateLimit_eq)
  next
    case (Some lmt)
    obtain ans rl where a: "RL_redis (mo_redis mo) (s_rateLimiter s) (rt_ID route) (client_id r' route) lmt =
        (ans, rl)" by fastforce
    obtain b rl' where b: "RL_fallback (mo_limit_now mo) (mo_limit_until mo) rl (rt_ID route)
        (client_id r' route) lmt = (b, rl')" by fastforce
    have fallback: "finish x mo (s\<lparr>s_rateLimiter := rl\<rparr>, t\<lparr>tk_phase := AtFallback route lmt r'\<rparr>) =
        finish x mo (limit_result x mo route lmt r' b
          (s\<lparr>s_rateLimiter := rl'\<rparr>, t\<lparr>tk_phase := AtFallback route lmt r'\<rparr>))"
      using b by (simp add: finish_step advance_def fallback_step_def)
    show ?thesis
    proof (cases ans)
      case None
      then show ?thesis
        using assms Some a b unfolding step checkRateLimit_parts [OF Some]
        by (simp add: limit_step_def fallback finish_limit_result)
    next
      case (Some ans)
      then show ?thesis
        using assms \<open>limit_cfg route = Some lmt\<close> a unfolding step checkRateLimit_parts [OF \<open>limit_cfg route = Some lmt\<close>]
        by (simp add: limit_step_def finish_limit_result)
    qed
  qed
qed

lemma finish_route:
  assumes "tk_phase t = AtRoute" "tk_start t = mo_start mo" "tk_forwarded t = None" "tk_route t = None"
  shows "served_of (finish x mo (s, t)) =
    serve_rest x mo (Match (s_router s) (tk_request t)) (tk_request t)
      (serve_admit x mo s (tk_w t) (tk_request t))"
proof -
  have step: "finish x mo (s, t) = finish x mo (s, route_step x s t)"
    using assms(1) by (simp add: finish_step advance_def)
  show ?thesis
  proof (cases "Match (s_router s) (tk_request t)")
    case None
    with assms show ?thesis unfolding step
      by (simp add: route_step_def reject_def finish_defer serve_admit_def serve_rest_def)
  next
    case (Some route)
    obtain ok w r' where a: "authenticate x s (tk_w t) (tk_request t) route = (ok, w, r')"
      by (metis prod_cases3)
    show ?thesis
      using assms Some a unfolding step
      by (cases ok) (simp_all add: route_step_def finish_defer finish_limit serve_admit_def serve_rest_def)
  qed
qed

lemma finish_finishes: "finished (snd (finish x mo c))"
proof (induction x mo c rule: finish.induct)
  case (1 x mo c)
  then show ?case by (subst finish.simps) simp
qed

lemma finish_serveRoute: "served_of (finish x mo (s, new_task w r)) = serveRoute x mo s w r"
proof -
  let ?t = "(new_task w r)\<lparr>tk_start := mo_start mo, tk_phase := AtRoute\<rparr>"
  have "finish x mo (s, new_task w r) = finish x mo (serve_begin s, ?t)"
    by (simp add: finish_step new_task_def advance_def)
  then show ?thesis
    using finish_route [of ?t mo x "serve_begin s"] by (simp add: serveRoute_rest new_task_def)
qed

text \<open>
  The goroutine's steps, run without interruption, are \<open>serveRoute\<close>: the same server, the
  same writes, the same outgoing request and the same outcome, panics included; and it always
  comes to its end.
\<close>

theorem handler_is_serveRoute:
  "served_of (finish x mo (s, new_task w r)) = serveRoute x mo s w r \<and>
   finished (snd (finish x mo (s, new_task w r)))"
  by (simp add: finish_serveRoute finish_finishes)

end
