(* ===== verification/Gateway_Concurrent.thy ===== *)
theory Gateway_Concurrent
  imports Gateway_Handler
begin

text \<open>
  The gateway with all its goroutines: any number of handlers (theory \<open>Gateway_Handler\<close>), the
  breaker loop, the ticks of the limiter's cleanup, and \<open>Shutdown\<close>, interleaved in any
  way. A state \<open>gateway\<close> holds the server, the handlers by number (finished ones stay, as a
  record of what was served), the place of the breaker loop, the last clock reading made under
  the in-memory limiter's mutex, the Redis server's clock when it last ran the limiter's script
  and, as ghosts, the logs of the limiter's two back ends, of the load balancers, and of all
  calls of the limiter and the breakers with what they answered.

  The rest of a moment is whatever \<open>env\<close> allows: clocks, Redis answers and upstream exchanges.
\<close>

subsection \<open>States and steps\<close>

text \<open>A handler's turn at a load balancer: which handler, for which route, and what it got.\<close>

record pick_entry =
  pe_task :: nat
  pe_route :: string
  pe_target :: URL

text \<open>A handler's call of the limiter or of a breaker, and the answer (true if it has none).\<close>

datatype gate_call = AskLimit string string | CallBreaker string breaker_event

record call_entry =
  ce_task :: nat
  ce_call :: gate_call
  ce_answer :: bool

text \<open>
  The breaker loop at a tick: the breakers of \<open>Snapshot\<close> it has still to read, under the mutex of
  each, and the states read; then the gauges it has still to set, under theirs.
\<close>

datatype breaker_loop =
    LoopIdle
  | LoopRead "string list" "(string \<times> CircuitState) list"
  | LoopWrite "(string \<times> CircuitState) list"

record ('k, 'r) gateway =
  gw_server :: "('k, 'r) Server"
  gw_tasks :: "nat \<rightharpoonup> task"
  gw_clock :: instant
  gw_log :: "limit_entry list"
  gw_redis_clock :: int
  gw_redis_log :: "limit_entry list"
  gw_picks :: "pick_entry list"
  gw_calls :: "call_entry list"
  gw_loop :: breaker_loop

definition new_gateway :: "('k, 'r) Server \<Rightarrow> instant \<Rightarrow> int \<Rightarrow> ('k, 'r) gateway" where
  "new_gateway s now ms = \<lparr>gw_server = s, gw_tasks = Map.empty, gw_clock = now, gw_log = [],
     gw_redis_clock = ms, gw_redis_log = [], gw_picks = [], gw_calls = [],
     gw_loop = LoopIdle\<rparr>"

text \<open>What the logs keep of a step at the limiter: a call of Redis that reached it, a fallback.\<close>

definition limit_hit ::
  "(string \<Rightarrow> string \<Rightarrow> string) \<Rightarrow> Route \<Rightarrow> RateLimitCfg \<Rightarrow> Request \<Rightarrow> int \<Rightarrow> request_hit" where
  "limit_hit key route lmt r now = \<lparr>rh_key = key (rt_ID route) (client_id r route),
     rh_limit = rl_Requests lmt, rh_window = rl_Window lmt, rh_time = now\<rparr>"

definition logged :: "('e, 'r) moment \<Rightarrow> nat \<Rightarrow> task \<Rightarrow> task \<Rightarrow> limit_entry list" where
  "logged mo i t t' =
     (case tk_phase t of
        AtFallback route lmt r \<Rightarrow>
          [\<lparr>le_task = i, le_hit = limit_hit memory_key route lmt r (mo_limit_now mo),
            le_allowed = (tk_phase t' = AtPick route r)\<rparr>]
      | _ \<Rightarrow> [])"

definition at_memory :: "task \<Rightarrow> bool" where
  "at_memory t = (case tk_phase t of AtFallback route lmt r \<Rightarrow> True | _ \<Rightarrow> False)"

definition at_redis :: "('k, 'r) Server \<Rightarrow> task \<Rightarrow> bool" where
  "at_redis s t =
     (case tk_phase t of
        AtLimit route r \<Rightarrow> limit_cfg route \<noteq> None \<and> rlm_redis (s_rateLimiter s) \<noteq> None
      | _ \<Rightarrow> False)"

definition redis_logged :: "('e, 'r) moment \<Rightarrow> nat \<Rightarrow> ('k, 'r) Server \<Rightarrow> task \<Rightarrow> task \<Rightarrow> limit_entry list" where
  "redis_logged mo i s t t' =
     (if at_redis s t \<and> mo_net mo \<noteq> NetDown then
        (case tk_phase t of
           AtLimit route r \<Rightarrow>
             (case limit_cfg route of
                None \<Rightarrow> []
              | Some lmt \<Rightarrow> [\<lparr>le_task = i, le_hit = limit_hit redis_key route lmt r (mo_redis_ms mo),
                  le_allowed = (tk_phase t' = AtPick route r)\<rparr>])
         | _ \<Rightarrow> [])
      else [])"

definition picked :: "nat \<Rightarrow> task \<Rightarrow> task \<Rightarrow> pick_entry list" where
  "picked i t t' =
     (case tk_phase t of
        AtPick route r \<Rightarrow>
          (case tk_phase t' of
             AtBreaker rt target r' \<Rightarrow> [\<lparr>pe_task = i, pe_route = rt_ID route, pe_target = target\<rparr>]
           | AtProxy rt target r' \<Rightarrow> [\<lparr>pe_task = i, pe_route = rt_ID route, pe_target = target\<rparr>]
           | _ \<Rightarrow> [])
      | _ \<Rightarrow> [])"

text \<open>The calls of a step, with what the limiter or the breaker itself answers in that state.\<close>

definition limit_call :: "nat \<Rightarrow> Route \<Rightarrow> Request \<Rightarrow> bool \<Rightarrow> call_entry" where
  "limit_call i route r ans =
     \<lparr>ce_task = i, ce_call = AskLimit (rt_ID route) (client_id r route), ce_answer = ans\<rparr>"

definition breaker_call ::
  "('k, 'pe) externals \<Rightarrow> nat \<Rightarrow> Route \<Rightarrow> URL \<Rightarrow> bool \<Rightarrow> breaker_event \<Rightarrow> call_entry" where
  "breaker_call x i route target ans ev =
     \<lparr>ce_task = i, ce_call = CallBreaker (breaker_key (rt_ID route) (x_url_string x target)) ev,
      ce_answer = ans\<rparr>"

definition told_events :: "instant \<Rightarrow> instant \<Rightarrow> int \<Rightarrow> breaker_event list" where
  "told_events now1 now2 status =
     (if 500 \<le> status then [EvFailure now1 now2]
      else if 0 < status then [EvSuccess] else [])"

definition called ::
  "('k, 'pe) externals \<Rightarrow> ('e, 'r) moment \<Rightarrow> nat \<Rightarrow> ('k, 'r) Server \<Rightarrow> task \<Rightarrow> call_entry list" where
  "called x mo i s t =
     (case tk_phase t of
        AtLimit route r \<Rightarrow>
          (case limit_cfg route of
             None \<Rightarrow> []
           | Some lmt \<Rightarrow>
               (case fst (RL_redis (mo_redis mo) (s_rateLimiter s) (rt_ID route) (client_id r route) lmt) of
                  None \<Rightarrow> []
                | Some (allowed, remaining, reset) \<Rightarrow> [limit_call i route r allowed]))
      | AtFallback route lmt r \<Rightarrow>
          [limit_call i route r (fst (fst (RL_fallback (mo_limit_now mo) (mo_limit_until mo)
             (s_rateLimiter s) (rt_ID route) (client_id r route) lmt)))]
      | AtAllow route target r \<Rightarrow>
          (case pointed_breaker x route target s of
             None \<Rightarrow> []
           | Some cb \<Rightarrow> [breaker_call x i route target (fst (Breaker_Allow (mo_allow_now mo) cb))
               (EvAllow (mo_allow_now mo))])
      | AtTell route target \<Rightarrow>
          map (breaker_call x i route target True) (told_events (mo_failure1 mo) (mo_failure2 mo) (Rec_Status (tk_w t)))
      | _ \<Rightarrow> [])"

text \<open>The gateway after a step of handler \<open>i\<close>.\<close>

definition run_gateway ::
  "('k, 'pe) externals \<Rightarrow> ('e, 'r) moment \<Rightarrow> nat \<Rightarrow> task \<Rightarrow> ('k, 'r) Server \<Rightarrow> task \<Rightarrow> ('k, 'r) gateway \<Rightarrow> ('k, 'r) gateway" where
  "run_gateway x mo i t s' t' g =
     \<lparr>gw_server = s', gw_tasks = (gw_tasks g)(i \<mapsto> t'),
      gw_clock = (if at_memory t then mo_limit_now mo else gw_clock g),
      gw_log = gw_log g @ logged mo i t t',
      gw_redis_clock = (if at_redis (gw_server g) t then mo_redis_ms mo else gw_redis_clock g),
      gw_redis_log = gw_redis_log g @ redis_logged mo i (gw_server g) t t',
      gw_picks = gw_picks g @ picked i t t',
      gw_calls = gw_calls g @ called x mo i (gw_server g) t,
      gw_loop = gw_loop g\<rparr>"

lemma run_gateway_simps [simp]:
  "gw_server (run_gateway x mo i t s' t' g) = s'"
  "gw_tasks (run_gateway x mo i t s' t' g) = (gw_tasks g)(i \<mapsto> t')"
  "gw_clock (run_gateway x mo i t s' t' g) = (if at_memory t then mo_limit_now mo else gw_clock g)"
  "gw_log (run_gateway x mo i t s' t' g) = gw_log g @ logged mo i t t'"
  "gw_redis_clock (run_gateway x mo i t s' t' g) =
     (if at_redis (gw_server g) t then mo_redis_ms mo else gw_redis_clock g)"
  "gw_redis_log (run_gateway x mo i t s' t' g) = gw_redis_log g @ redis_logged mo i (gw_server g) t t'"
  "gw_picks (run_gateway x mo i t s' t' g) = gw_picks g @ picked i t t'"
  "gw_calls (run_gateway x mo i t s' t' g) = gw_calls g @ called x mo i (gw_server g) t"
  "gw_loop (run_gateway x mo i t s' t' g) = gw_loop g"
  by (simp_all add: run_gateway_def)

text \<open>
  A step of the breaker loop. At a tick, \<open>ks\<close> is the order in which \<open>Snapshot\<close> ranges over the
  store. While it reads, no breaker is created in the code; the model allows it.
\<close>

fun loop_step :: "string list \<Rightarrow> ('k, 'r) Server \<times> breaker_loop \<Rightarrow> ('k, 'r) Server \<times> breaker_loop" where
  "loop_step ks (s, LoopIdle) = (s, if s_breakerDone s then LoopIdle else LoopRead ks [])"
| "loop_step ks (s, LoopRead (k # todo) snap) =
     (case breaker_at s k of
        None \<Rightarrow> (s, LoopRead todo snap)
      | Some cb \<Rightarrow> (s, LoopRead todo (snap @ [(k, fst (StateSnapshot cb))])))"
| "loop_step ks (s, LoopRead [] snap) =
     (s\<lparr>s_metrics := (s_metrics s)
         \<lparr>m_CircuitBreakerState := GaugeVec_Reset (m_CircuitBreakerState (s_metrics s))\<rparr>\<rparr>,
      LoopWrite snap)"
| "loop_step ks (s, LoopWrite ((k, st) # snap)) =
     (s\<lparr>s_metrics := (s_metrics s)
         \<lparr>m_CircuitBreakerState :=
            GaugeVec_Set (state_int st) [k, ''''] (m_CircuitBreakerState (s_metrics s))\<rparr>\<rparr>,
      LoopWrite snap)"
| "loop_step ks (s, LoopWrite []) = (s, LoopIdle)"

text \<open>It touches the gauges of the breaker states only.\<close>

lemma loop_step_frame:
  assumes "loop_step ks (s, l) = (s', l')"
  obtains v where "s' = s\<lparr>s_metrics := (s_metrics s)\<lparr>m_CircuitBreakerState := v\<rparr>\<rparr>"
proof -
  have "\<exists>v. fst (loop_step ks (s, l)) = s\<lparr>s_metrics := (s_metrics s)\<lparr>m_CircuitBreakerState := v\<rparr>\<rparr>"
  proof (cases "(ks, s, l)" rule: loop_step.cases)
    case (1 ks s)
    then show ?thesis by (intro exI [of _ "m_CircuitBreakerState (s_metrics s)"]) simp
  next
    case (2 ks s k todo snap)
    then show ?thesis
      by (intro exI [of _ "m_CircuitBreakerState (s_metrics s)"]) (simp split: option.split)
  next
    case (5 ks s)
    then show ?thesis by (intro exI [of _ "m_CircuitBreakerState (s_metrics s)"]) simp
  qed auto
  with assms that show thesis by auto
qed

lemma loop_step_kept:
  assumes "loop_step ks (s, l) = (s', l')"
  shows "s_rateLimiter s' = s_rateLimiter s" "s_balancers s' = s_balancers s"
    "s_breakerStore s' = s_breakerStore s" "s_breakerDone s' = s_breakerDone s"
    "breaker_at s' k = breaker_at s k"
  by (rule loop_step_frame [OF assms], simp add: breaker_at_def)+

text \<open>Alone, a tick's steps are \<open>export_breakers\<close>.\<close>

lemma loop_reads:
  "(\<And>k. k \<in> set todo \<Longrightarrow> breaker_at s k \<noteq> None) \<Longrightarrow>
   (loop_step ks ^^ length todo) (s, LoopRead todo snap) =
     (s, LoopRead [] (snap @ map (\<lambda>k. (k, cb_State (the (breaker_at s k)))) todo))"
proof (induction todo arbitrary: snap)
  case (Cons k todo)
  then obtain cb where "breaker_at s k = Some cb" by fastforce
  with Cons show ?case by (simp add: funpow_swap1 StateSnapshot_def)
qed simp

lemma loop_writes:
  "(loop_step ks ^^ length snap) (s, LoopWrite snap) =
     (s\<lparr>s_metrics := (s_metrics s)\<lparr>m_CircuitBreakerState :=
        fold (\<lambda>(k, st). GaugeVec_Set (state_int st) [k, '''']) snap (m_CircuitBreakerState (s_metrics s))\<rparr>\<rparr>,
      LoopWrite [])"
proof (induction snap arbitrary: s)
  case (Cons p snap)
  then show ?case by (cases p) (simp add: funpow_swap1)
qed simp

lemma loop_alone:
  assumes "\<not> s_breakerDone s" "finite (Mapping.keys (bs_breakers (s_breakerStore s)))"
    and "ks = Mapping.ordered_keys (bs_breakers (s_breakerStore s))"
  shows "(loop_step ks ^^ (2 * length ks + 3)) (s, LoopIdle) = (export_breakers s, LoopIdle)"
proof -
  let ?read = "map (\<lambda>k. (k, cb_State (the (breaker_at s k)))) ks"
  let ?m = "s_metrics s"
  have keys: "set ks = Mapping.keys (bs_breakers (s_breakerStore s))"
    using assms(2,3) by (simp add: ordered_keys_finite)
  then have at: "breaker_at s k \<noteq> None" if "k \<in> set ks" for k
    using that by (simp add: breaker_at_def keys_is_none_rep Option.is_none_def)
  have reads: "(loop_step ks ^^ length ks) (s, LoopRead ks []) = (s, LoopRead [] ?read)"
    using loop_reads [OF at, of ks] by simp
  have gauges: "fold (\<lambda>(k, st). GaugeVec_Set (state_int st) [k, '''']) ?read v =
      fold (\<lambda>k. GaugeVec_Set (Mapping.lookup_default 0 (BreakerStates (s_breakerStore s)) k) [k, '''']) ks v" for v
    unfolding fold_map
    by (intro fold_cong) (auto simp: lookup_default_def lookup_BreakerStates breaker_at_def dest!: at
        split: option.splits)
  have order: "Mapping.ordered_keys (BreakerStates (s_breakerStore s)) = ks"
    by (simp add: assms(3) Mapping.ordered_keys_def keys_BreakerStates)
  have writes: "(loop_step ks ^^ length ks) (loop_step ks (s, LoopRead [] ?read)) = (export_breakers s, LoopWrite [])"
    using loop_writes [where ks = ks and snap = ?read and s = "s\<lparr>s_metrics := ?m
        \<lparr>m_CircuitBreakerState := GaugeVec_Reset (m_CircuitBreakerState ?m)\<rparr>\<rparr>"] assms(1)
    by (simp add: gauges export_breakers_def SetBreakerStates_def order)
  have "2 * length ks + 3 = 1 + (length ks + (1 + (length ks + 1)))" by simp
  then have "(loop_step ks ^^ (2 * length ks + 3)) (s, LoopIdle) =
      loop_step ks ((loop_step ks ^^ length ks) (loop_step ks ((loop_step ks ^^ length ks) (loop_step ks (s, LoopIdle)))))"
    by (simp only: funpow_add One_nat_def funpow.simps comp_apply id_apply)
  also have "loop_step ks (s, LoopIdle) = (s, LoopRead ks [])" using assms(1) by simp
  finally show ?thesis unfolding reads writes by (simp only: loop_step.simps)
qed

inductive gateway_step ::
  "('k, 'pe) externals \<Rightarrow> (('e, 'r) moment \<Rightarrow> bool) \<Rightarrow> ('k, 'r) gateway \<Rightarrow> ('k, 'r) gateway \<Rightarrow> bool"
  for x :: "('k, 'pe) externals" and env :: "('e, 'r) moment \<Rightarrow> bool" where
  arrive: "gw_tasks g i = None \<Longrightarrow> w_ops w = [] \<Longrightarrow>
    gateway_step x env g (g\<lparr>gw_tasks := (gw_tasks g)(i \<mapsto> new_task w r)\<rparr>)"
| run: "gw_tasks g i = Some t \<Longrightarrow> env mo \<Longrightarrow> (at_memory t \<Longrightarrow> gw_clock g \<le> mo_limit_now mo) \<Longrightarrow>
    (at_redis (gw_server g) t \<Longrightarrow> gw_redis_clock g \<le> mo_redis_ms mo) \<Longrightarrow>
    advance x mo (gw_server g, t) = (s', t') \<Longrightarrow>
    gateway_step x env g (run_gateway x mo i t s' t' g)"
| export: "distinct ks \<Longrightarrow> set ks = Mapping.keys (bs_breakers (s_breakerStore (gw_server g))) \<Longrightarrow>
    loop_step ks (gw_server g, gw_loop g) = (s', l') \<Longrightarrow>
    gateway_step x env g (g\<lparr>gw_server := s', gw_loop := l'\<rparr>)"
| clean: "gw_clock g \<le> now \<Longrightarrow>
    gateway_step x env g (g\<lparr>gw_server := clean_limiter now (gw_server g), gw_clock := now\<rparr>)"
| stop: "gateway_step x env g
    (g\<lparr>gw_server := snd (Server_Shutdown stop_metrics stop_main close_main
       (is_deadline :: 'e \<Rightarrow> bool) (gw_server g))\<rparr>)"

inductive gateway_reach ::
  "('k, 'pe) externals \<Rightarrow> (('e, 'r) moment \<Rightarrow> bool) \<Rightarrow> ('k, 'r) Server \<Rightarrow> ('k, 'r) gateway \<Rightarrow> bool"
  for x :: "('k, 'pe) externals" and env :: "('e, 'r) moment \<Rightarrow> bool" and s :: "('k, 'r) Server" where
  start: "gateway_reach x env s (new_gateway s now ms)"
| step: "gateway_reach x env s g \<Longrightarrow> gateway_step x env g g' \<Longrightarrow> gateway_reach x env s g'"

subsection \<open>What no step changes\<close>

definition grows :: "('k, 'r) Server \<Rightarrow> ('k, 'r) Server \<Rightarrow> bool" where
  "grows s s' \<longleftrightarrow>
     s_router s' = s_router s \<and> s_registry s' = s_registry s \<and>
     s_jwtAuth s' = s_jwtAuth s \<and> s_apiKeyAuth s' = s_apiKeyAuth s \<and>
     (\<forall>k. s_balancers s k \<noteq> None \<longrightarrow> s_balancers s' k \<noteq> None) \<and>
     (\<forall>k. breaker_at s k \<noteq> None \<longrightarrow> breaker_at s' k \<noteq> None)"

lemma grows_refl [simp, intro]: "grows s s"
  by (simp add: grows_def)

lemma grows_trans: "grows s s' \<Longrightarrow> grows s' s'' \<Longrightarrow> grows s s''"
  by (simp add: grows_def)

lemma grows_fields:
  "grows s (s\<lparr>s_metrics := m\<rparr>)" "grows s (s\<lparr>s_rateLimiter := rl\<rparr>)" "grows s (s\<lparr>s_breakerDone := b\<rparr>)"
  "grows s (s\<lparr>s_rateLimiter := rl, s_metrics := m\<rparr>)" "grows s (s\<lparr>s_balancers := (s_balancers s)(k \<mapsto> lb)\<rparr>)"
  by (simp_all add: grows_def breaker_at_def)

lemma grows_set_breaker: "grows s (set_breaker x route target cb s)"
  by (simp add: grows_def set_breaker_def breaker_at_def put_breaker_def lookup_update')

lemma grows_create_breaker: "grows s (create_breaker x route target s)"
proof (cases "breaker_cfg route")
  case (Some cfg)
  have "breaker_at (create_breaker x route target s) k \<noteq> None" if "breaker_at s k \<noteq> None" for k
    using that Some GetOrCreate_breaker(2,3) [where rid = "rt_ID route" and url = "x_url_string x target"
        and cfg = cfg and bs = "s_breakerStore s"]
    by (cases "k = breaker_key (rt_ID route) (x_url_string x target)")
      (simp_all add: create_breaker_def breaker_at_def)
  with Some show ?thesis by (simp add: grows_def create_breaker_def)
qed (simp add: create_breaker_def)

lemma grows_begin: "grows s (serve_begin s)"
  unfolding serve_begin_def by (rule grows_fields)

lemma grows_deferred: "grows s (serve_deferred x mo route r w s)"
  unfolding serve_deferred_def Let_def by (rule grows_fields)

lemma grows_loop: "loop_step ks (s, l) = (s', l') \<Longrightarrow> grows s s'"
  by (elim loop_step_frame) (simp add: grows_fields)

lemma grows_clean: "grows s (clean_limiter now s)"
  by (simp add: clean_limiter_def grows_fields)

lemma grows_stop: "grows s (snd (Server_Shutdown stop_metrics stop_main close_main is_deadline s))"
  by (simp add: Server_Shutdown_def Let_def grows_fields)

lemma grows_limit_result: "limit_result x mo route lmt r a (s\<lparr>s_rateLimiter := rl\<rparr>, t) = (s', t') \<Longrightarrow> grows s s'"
  by (auto simp: limit_result_def Let_def grows_fields split: prod.splits if_splits)

lemma grows_advance: "advance x mo (s, t) = (s', t') \<Longrightarrow> grows s s'"
proof (cases "tk_phase t")
  case (AtLimit route r)
  then show "advance x mo (s, t) = (s', t') \<Longrightarrow> grows s s'"
    by (auto simp: advance_def limit_step_def grows_fields dest: grows_limit_result
        split: prod.splits option.splits)
next
  case (AtFallback route lmt r)
  then show "advance x mo (s, t) = (s', t') \<Longrightarrow> grows s s'"
    by (auto simp: advance_def fallback_step_def dest: grows_limit_result split: prod.splits)
next
  case (AtPick route r)
  then show "advance x mo (s, t) = (s', t') \<Longrightarrow> grows s s'"
    by (auto simp: advance_def pick_step_def Let_def grows_fields
        split: sum.splits option.splits prod.splits if_splits)
next
  case (AtAllow route target r)
  then show "advance x mo (s, t) = (s', t') \<Longrightarrow> grows s s'"
    by (auto simp: advance_def allow_step_def Let_def grows_set_breaker split: option.splits prod.splits if_splits)
next
  case (AtTell route target)
  then show "advance x mo (s, t) = (s', t') \<Longrightarrow> grows s s'"
    by (auto simp: advance_def tell_step_def grows_set_breaker split: option.splits)
qed (auto simp: advance_def defer_step_def grows_begin grows_create_breaker grows_deferred)

lemma grows_step: "gateway_step x env g g' \<Longrightarrow> grows (gw_server g) (gw_server g')"
  by (induction rule: gateway_step.induct)
    (auto intro: grows_advance grows_loop grows_clean grows_stop)

lemma grows_reach: "gateway_reach x env s g \<Longrightarrow> grows s (gw_server g)"
  by (induction rule: gateway_reach.induct)
    (auto simp: new_gateway_def intro: grows_trans grows_step)

lemma grows_ok: "grows s s' \<Longrightarrow> server_ok s \<Longrightarrow> server_ok s'"
  by (rule server_ok_cong) (auto simp: grows_def)

lemma grows_authenticate: "grows s s' \<Longrightarrow> authenticate x s' w r route = authenticate x s w r route"
proof -
  assume g: "grows s s'"
  then have key: "auth_apikey x s' w r = auth_apikey x s w r" for w r
    by (simp add: grows_def auth_apikey_def)
  have jwt: "s_jwtAuth s' = s_jwtAuth s" using g by (simp add: grows_def)
  show "authenticate x s' w r route = authenticate x s w r route"
    unfolding authenticate_def key jwt ..
qed

lemma grows_endpoint: "grows s s' \<Longrightarrow> is_endpoint s' route target = is_endpoint s route target"
  by (simp add: grows_def is_endpoint_def)

subsection \<open>What every handler keeps\<close>

text \<open>The gates a handler has passed, by the data of the server it started on.\<close>

definition cleared :: "('k, 'pe) externals \<Rightarrow> ('k, 'r) Server \<Rightarrow> task \<Rightarrow> Route \<Rightarrow> Request \<Rightarrow> bool" where
  "cleared x s t route r \<longleftrightarrow>
     Match (s_router s) (tk_request t) = Some route \<and> authorized x s (tk_request t) route \<and>
     r = auth_request x s (tk_request t) route \<and> tk_route t = Some route"

definition unsent :: "task \<Rightarrow> bool" where
  "unsent t \<longleftrightarrow> fresh (tk_w t) \<and> tk_forwarded t = None"

text \<open>A handler past the proxy: it sent the proxy's request, or the proxy answered 502 by itself.\<close>

definition sent :: "('k, 'pe) externals \<Rightarrow> ('k, 'r) Server \<Rightarrow> task \<Rightarrow> Route \<Rightarrow> URL \<Rightarrow> bool" where
  "sent x s t route target \<longleftrightarrow> is_endpoint s route target \<and>
     (\<exists>r. cleared x s t route r \<and> tk_forwarded t = proxy_request (r\<lparr>rq_target := Some target\<rparr>)) \<and>
     (tk_forwarded t = None \<longrightarrow> written_status (w_ops (tk_w t)) = 502)"

definition gone :: "('k, 'pe) externals \<Rightarrow> ('k, 'r) Server \<Rightarrow> task \<Rightarrow> bool" where
  "gone x s t \<longleftrightarrow> (\<exists>route target. sent x s t route target)"

lemma sent_gone: "sent x s t route target \<Longrightarrow> gone x s t"
  by (auto simp: gone_def)

definition answered :: "task \<Rightarrow> bool" where
  "answered t \<longleftrightarrow> tk_forwarded t = None \<and> written_status (w_ops (tk_w t)) \<in> {404, 401, 429, 503}"

definition ended_well :: "('k, 'pe) externals \<Rightarrow> ('k, 'r) Server \<Rightarrow> task \<Rightarrow> outcome \<Rightarrow> bool" where
  "ended_well x s t res \<longleftrightarrow>
     answered t \<and> res = Returned \<or>
     gone x s t \<and> res \<in> {Returned, Panicked AbortHandler, Panicked InvalidWriteHeaderCode} \<and>
     (tk_forwarded t = None \<longrightarrow> res = Returned)"

fun task_ok :: "('k, 'pe) externals \<Rightarrow> ('k, 'r) Server \<Rightarrow> ('k, 'r) Server \<Rightarrow> task \<Rightarrow> phase \<Rightarrow> bool" where
  "task_ok x s s' t AtEntry \<longleftrightarrow> unsent t"
| "task_ok x s s' t AtRoute \<longleftrightarrow> unsent t"
| "task_ok x s s' t (AtLimit route r) \<longleftrightarrow> unsent t \<and> cleared x s t route r"
| "task_ok x s s' t (AtFallback route lmt r) \<longleftrightarrow>
     unsent t \<and> cleared x s t route r \<and> limit_cfg route = Some lmt"
| "task_ok x s s' t (AtPick route r) \<longleftrightarrow> unsent t \<and> cleared x s t route r"
| "task_ok x s s' t (AtBreaker route target r) \<longleftrightarrow>
     unsent t \<and> cleared x s t route r \<and> is_endpoint s route target \<and> breaker_cfg route \<noteq> None"
| "task_ok x s s' t (AtAllow route target r) \<longleftrightarrow>
     unsent t \<and> cleared x s t route r \<and> is_endpoint s route target \<and>
     pointed_breaker x route target s' \<noteq> None"
| "task_ok x s s' t (AtProxy route target r') \<longleftrightarrow>
     unsent t \<and> is_endpoint s route target \<and>
     (\<exists>r. cleared x s t route r \<and> r' = r\<lparr>rq_target := Some target\<rparr>)"
| "task_ok x s s' t (AtRecord route target) \<longleftrightarrow> sent x s t route target \<and> breaker_cfg route \<noteq> None"
| "task_ok x s s' t (AtTell route target) \<longleftrightarrow>
     sent x s t route target \<and> pointed_breaker x route target s' \<noteq> None"
| "task_ok x s s' t (AtDefer res) \<longleftrightarrow>
     ended_well x s t res"
| "task_ok x s s' t (Finished res) \<longleftrightarrow>
     ended_well x s t res"

text \<open>Other goroutines cannot break it.\<close>

lemma task_ok_grows: "task_ok x s s' t ph \<Longrightarrow> grows s' s'' \<Longrightarrow> task_ok x s s'' t ph"
  by (cases ph) (auto simp: grows_def pointed_breaker_def)

lemma task_phase_simps [simp]:
  "cleared x s (t\<lparr>tk_phase := ph\<rparr>) route r = cleared x s t route r"
  "cleared x s (t\<lparr>tk_w := w\<rparr>) route r = cleared x s t route r"
  "cleared x s (t\<lparr>tk_start := n\<rparr>) route r = cleared x s t route r"
  "cleared x s (t\<lparr>tk_forwarded := f\<rparr>) route r = cleared x s t route r"
  "unsent (t\<lparr>tk_phase := ph\<rparr>) = unsent t" "unsent (t\<lparr>tk_start := n\<rparr>) = unsent t"
  "unsent (t\<lparr>tk_route := rt\<rparr>) = unsent t"
  "sent x s (t\<lparr>tk_phase := ph\<rparr>) route target = sent x s t route target"
  "gone x s (t\<lparr>tk_phase := ph\<rparr>) = gone x s t"
  "answered (t\<lparr>tk_phase := ph\<rparr>) = answered t"
  "ended_well x s (t\<lparr>tk_phase := ph\<rparr>) res = ended_well x s t res"
  by (simp_all add: cleared_def unsent_def sent_def gone_def answered_def ended_well_def)

lemma ended_wellI:
  "answered t \<Longrightarrow> ended_well x s t Returned"
  "sent x s t route target \<Longrightarrow> ended_well x s t Returned"
  by (auto simp: ended_well_def dest: sent_gone)

lemma reject_ok:
  assumes "unsent t" "status \<in> {404, 401, 429, 503}"
  shows "task_ok x s s' (reject status b t) (tk_phase (reject status b t))"
proof -
  have "\<not> informational status" using assms(2) by (auto simp: informational_def)
  with assms writeJSON_status [of "tk_w t" status b] show ?thesis
    by (simp add: reject_def answered_def unsent_def ended_wellI)
qed

lemma reject_simps [simp]:
  "tk_request (reject status b t) = tk_request t" "tk_forwarded (reject status b t) = tk_forwarded t"
  by (simp_all add: reject_def)

lemma reject_status:
  "unsent t \<Longrightarrow> status \<in> {404, 401, 429, 503} \<Longrightarrow> written_status (w_ops (tk_w (reject status b t))) = status"
  using writeJSON_status [of "tk_w t" status b] by (auto simp: reject_def unsent_def informational_def)

lemma route_step_ok:
  assumes "grows s s'" "unsent t"
  shows "task_ok x s s'' (route_step x s' t) (tk_phase (route_step x s' t))"
proof (cases "Match (s_router s) (tk_request t)")
  case None
  with assms show ?thesis by (simp add: route_step_def grows_def reject_ok)
next
  case (Some route)
  obtain ok w r where a: "authenticate x s (tk_w t) (tk_request t) route = (ok, w, r)"
    by (metis prod_cases3)
  have step: "route_step x s' t =
      (if ok then t\<lparr>tk_route := Some route, tk_w := w, tk_phase := AtLimit route r\<rparr>
       else t\<lparr>tk_route := Some route, tk_w := w, tk_phase := AtDefer Returned\<rparr>)"
    using Some assms(1) a grows_authenticate [OF assms(1), of x "tk_w t" "tk_request t" route]
    by (simp add: route_step_def grows_def)
  show ?thesis
  proof (cases ok)
    case True
    with a have a': "authenticate x s (tk_w t) (tk_request t) route = (True, w, r)" by simp
    have "r = auth_request x s (tk_request t) route" using auth_request [of x s "tk_w t"] a by (metis snd_conv)
    with authenticate_True [OF a'] True assms(2) Some show ?thesis
      by (simp add: step cleared_def unsent_def)
  next
    case False
    with a have "authenticate x s (tk_w t) (tk_request t) route = (False, w, r)" by simp
    from authenticate_False(1) [OF this] obtain b where "w = writeJSON (tk_w t) 401 b" by blast
    with False assms(2) writeJSON_status [of "tk_w t" 401 b] show ?thesis
      by (simp add: step answered_def unsent_def informational_def ended_wellI)
  qed
qed

lemma limit_result_ok:
  assumes "unsent t" "cleared x s t route r" "limit_result x mo route lmt r a (s', t) = (s'', t')"
  shows "task_ok x s s'' t' (tk_phase t')"
proof -
  obtain allowed remaining reset where a: "a = (allowed, remaining, reset)" by (metis prod_cases3)
  let ?w = "limit_headers (rl_Requests lmt) remaining (unix_seconds (mo_reset_now mo + reset)) (tk_w t)"
  show ?thesis
  proof (cases allowed)
    case True
    with assms a show ?thesis by (auto simp: limit_result_def unsent_def)
  next
    case False
    have "unsent (t\<lparr>tk_w := Rec_SetHeader ?w ''Retry-After'' v\<rparr>)" for v
      using assms(1) by (simp add: unsent_def)
    from reject_ok [OF this, of 429 x s s'' body_rate_limited] False assms(3) a show ?thesis
      by (auto simp: limit_result_def Let_def)
  qed
qed

lemma pick_step_ok:
  assumes "unsent t" "cleared x s t route r" "server_ok s" "grows s s'"
    and "pick_step route r (s', t) = (s'', t')"
  shows "task_ok x s s'' t' (tk_phase t')"
proof -
  have "Match (s_router s') (tk_request t) = Some route"
    using assms(2,4) by (simp add: cleared_def grows_def)
  from server_ok_route [OF grows_ok [OF assms(4,3)] this] obtain eps lb where
    e: "GetEndpoints (s_registry s') (rt_ID route) = Inr eps" "eps \<noteq> []" "s_balancers s' (rt_ID route) = Some lb"
    by auto
  let ?t = "eps ! (unat (rr_counter lb) mod length eps)"
  have "is_endpoint s' route ?t" using e by (simp add: is_endpoint_def)
  then have "is_endpoint s route ?t" by (simp add: grows_endpoint [OF assms(4)])
  with e assms(1,2,5) show ?thesis by (auto simp: pick_step_def RR_Next_simp)
qed

lemma allow_step_ok:
  assumes "task_ok x s s' t (AtAllow route target r)" "allow_step x mo route target r (s', t) = (s'', t')"
  shows "task_ok x s s'' t' (tk_phase t')"
  using assms
  by (auto simp: allow_step_def Let_def reject_ok split: option.splits prod.splits if_splits)

lemma proxy_step_ok:
  assumes "task_ok x s s' t (AtProxy route target r)"
  shows "task_ok x s s'' (proxy_step mo route target r t) (tk_phase (proxy_step mo route target r t))"
proof -
  let ?t = "t\<lparr>tk_w := rec_run (fst (proxy_exchange mo r)) (tk_w t), tk_forwarded := proxy_request r\<rparr>"
  from assms have "sent x s ?t route target"
    using proxy_exchange_unsent(2) [of r "tk_w t" mo] by (auto simp: sent_def unsent_def)
  moreover from this have "ended_well x s ?t (snd (proxy_exchange mo r))"
    using assms proxy_exchange_outcome [of mo r] proxy_exchange_unsent(1) [of r "tk_w t" mo]
    by (auto simp: ended_well_def unsent_def dest: sent_gone)
  ultimately show ?thesis
    by (simp add: proxy_step_def proxy_eq)
qed

lemma advance_ok:
  assumes "server_ok s" "grows s s'" "task_ok x s s' t (tk_phase t)" "advance x mo (s', t) = (s'', t')"
  shows "task_ok x s s'' t' (tk_phase t')"
proof (cases "tk_phase t")
  case AtEntry
  with assms(3,4) show ?thesis by (auto simp: advance_def)
next
  case AtRoute
  with assms(3,4) route_step_ok [OF assms(2), of t x s''] show ?thesis by (auto simp: advance_def)
next
  case (AtLimit route r)
  with assms(3,4) show ?thesis
    by (auto simp: advance_def limit_step_def intro: limit_result_ok split: option.splits prod.splits)
next
  case (AtFallback route lmt r)
  with assms(3,4) show ?thesis
    by (auto simp: advance_def fallback_step_def intro: limit_result_ok split: prod.splits)
next
  case (AtPick route r)
  with assms(3,4) show ?thesis by (auto simp: advance_def intro: pick_step_ok [OF _ _ assms(1,2)])
next
  case (AtBreaker route target r)
  with assms(3,4) show ?thesis by (auto simp: advance_def pointed_create)
next
  case (AtAllow route target r)
  with assms(3,4) show ?thesis by (auto simp: advance_def intro: allow_step_ok simp del: task_ok.simps)
next
  case (AtProxy route target r)
  with assms(3,4) show ?thesis by (auto simp: advance_def intro: proxy_step_ok simp del: task_ok.simps)
next
  case (AtRecord route target)
  with assms(3,4) show ?thesis by (auto simp: advance_def pointed_create)
next
  case (AtTell route target)
  with assms(3,4) ended_wellI(2) [of x s t route target] show ?thesis
    by (auto simp: advance_def tell_step_def)
next
  case (AtDefer res)
  with assms(3,4) show ?thesis by (auto simp: advance_def defer_step_def)
next
  case (Finished res)
  with assms(3,4) show ?thesis by (auto simp: advance_def)
qed

lemma new_task_ok: "w_ops w = [] \<Longrightarrow> task_ok x s s' (new_task w r) (tk_phase (new_task w r))"
  by (simp add: new_task_def unsent_def)

lemma tasks_ok_step:
  assumes "gateway_step x env g g'" "server_ok s" "grows s (gw_server g)"
    and "\<And>i t. gw_tasks g i = Some t \<Longrightarrow> task_ok x s (gw_server g) t (tk_phase t)"
    and "gw_tasks g' i = Some t'"
  shows "task_ok x s (gw_server g') t' (tk_phase t')"
  using assms(1)
proof cases
  case (arrive j w r)
  with assms(4,5) show ?thesis by (cases "j = i") (auto simp: new_task_ok)
next
  case (run j t mo s' u)
  show ?thesis
  proof (cases "j = i")
    case True
    with run assms show ?thesis by (auto intro: advance_ok)
  next
    case False
    with run assms(4,5) show ?thesis by (auto intro: task_ok_grows grows_advance)
  qed
qed (use assms in \<open>auto intro: task_ok_grows grows_loop grows_clean grows_stop\<close>)

lemma tasks_ok_reach:
  assumes "gateway_reach x env s g" "server_ok s"
  shows "gw_tasks g i = Some t \<Longrightarrow> task_ok x s (gw_server g) t (tk_phase t)"
  using assms(1)
proof (induction arbitrary: i t rule: gateway_reach.induct)
  case (step g g')
  then show ?case by (metis tasks_ok_step grows_reach assms(2))
qed (simp add: new_gateway_def)

lemma forwarded_gone:
  "task_ok x s s' t (tk_phase t) \<Longrightarrow> tk_forwarded t = Some out \<Longrightarrow> gone x s t"
  by (cases "tk_phase t") (auto simp: unsent_def ended_well_def answered_def dest: sent_gone)

subsection \<open>Counting handlers\<close>

definition tasks_with :: "(task \<Rightarrow> bool) \<Rightarrow> (nat \<rightharpoonup> task) \<Rightarrow> nat" where
  "tasks_with P m = card {i. \<exists>t. m i = Some t \<and> P t}"

lemma tasks_with_subset: "{i. \<exists>t. m i = Some t \<and> P t} \<subseteq> dom m"
  by auto

lemma tasks_with_le: "finite (dom m) \<Longrightarrow> tasks_with P m \<le> card (dom m)"
  unfolding tasks_with_def by (rule card_mono [OF _ tasks_with_subset])

lemma tasks_with_new:
  assumes "finite (dom m)" "m i = None"
  shows "tasks_with P (m(i \<mapsto> t)) = (if P t then Suc (tasks_with P m) else tasks_with P m)"
proof -
  let ?S = "{i. \<exists>t. m i = Some t \<and> P t}"
  have "{j. \<exists>t'. (m(i \<mapsto> t)) j = Some t' \<and> P t'} = (if P t then insert i ?S else ?S)"
    using assms(2) by auto
  moreover have "finite ?S" "i \<notin> ?S"
    using finite_subset [OF tasks_with_subset assms(1)] assms(2) by auto
  ultimately show ?thesis by (simp add: tasks_with_def)
qed

lemma tasks_with_update:
  assumes "finite (dom m)" "m i = Some t"
  shows "tasks_with P (m(i \<mapsto> t')) + (if P t then 1 else 0) = tasks_with P m + (if P t' then 1 else 0)"
proof -
  have fin: "finite (dom (m(i := None)))" using assms(1) by (simp add: dom_fun_upd)
  have "tasks_with P (m(i \<mapsto> u)) = (if P u then Suc (tasks_with P (m(i := None))) else tasks_with P (m(i := None)))" for u
    using tasks_with_new [OF fin, of i P u] by simp
  from this [of t'] this [of t] show ?thesis using assms(2) by (simp add: fun_upd_idem)
qed

lemma tasks_with_room:
  assumes "finite (dom m)" "m i = Some t" "\<not> P t"
  shows "tasks_with P m < card (dom m)"
  unfolding tasks_with_def
proof (rule psubset_card_mono [OF assms(1)])
  have "i \<in> dom m" "i \<notin> {i. \<exists>t. m i = Some t \<and> P t}" using assms(2,3) by auto
  then show "{i. \<exists>t. m i = Some t \<and> P t} \<subset> dom m" using tasks_with_subset [of m P] by blast
qed

lemma finite_tasks: "gateway_reach x env s g \<Longrightarrow> finite (dom (gw_tasks g))"
proof (induction rule: gateway_reach.induct)
  case (step g g')
  from step(2) show ?case by cases (use step(3) in \<open>auto simp del: fun_upd_apply\<close>)
qed (simp add: new_gateway_def)

lemma dom_step: "gateway_step x env g g' \<Longrightarrow> dom (gw_tasks g) \<subseteq> dom (gw_tasks g')"
  by (induction rule: gateway_step.induct) auto

subsection \<open>The metrics of a busy gateway\<close>

definition in_flight :: "task \<Rightarrow> bool" where
  "in_flight t \<longleftrightarrow> tk_phase t \<noteq> AtEntry \<and> \<not> finished t"

definition labels_of :: "task \<Rightarrow> string list" where
  "labels_of t = [routeLabel (tk_route t), rq_Method (tk_request t), Itoa (Rec_Status (tk_w t))]"

definition counted :: "string \<Rightarrow> task \<Rightarrow> bool" where
  "counted key t \<longleftrightarrow> finished t \<and> key = Join (labels_of t) [NUL]"

lemma checkRateLimit_frame_metrics:
  "checkRateLimit x mo s w r route = (ok, w', s') \<Longrightarrow>
     m_ActiveConnections (s_metrics s') = m_ActiveConnections (s_metrics s) \<and>
     m_RequestsTotal (s_metrics s') = m_RequestsTotal (s_metrics s)"
  by (auto simp: checkRateLimit_eq Let_def split: option.splits prod.splits if_splits)

lemma set_create_metrics [simp]:
  "s_metrics (set_breaker x route target cb s) = s_metrics s"
  "s_metrics (create_breaker x route target s) = s_metrics s"
  by (simp_all add: set_breaker_def create_breaker_def split: option.splits)

text \<open>What a step does to the metrics and to its handler's place in them.\<close>

lemma advance_metrics:
  assumes "advance x mo (s, t) = (s', t')"
  shows "m_ActiveConnections (s_metrics s') =
      (case tk_phase t of AtEntry \<Rightarrow> Gauge_Inc (m_ActiveConnections (s_metrics s))
       | AtDefer res \<Rightarrow> Gauge_Dec (m_ActiveConnections (s_metrics s))
       | _ \<Rightarrow> m_ActiveConnections (s_metrics s))"
    and "m_RequestsTotal (s_metrics s') =
      (case tk_phase t of AtDefer res \<Rightarrow> Counter_Inc (labels_of t) (m_RequestsTotal (s_metrics s))
       | _ \<Rightarrow> m_RequestsTotal (s_metrics s))"
    and "in_flight t' \<longleftrightarrow> (in_flight t \<or> tk_phase t = AtEntry) \<and> (\<forall>res. tk_phase t \<noteq> AtDefer res)"
    and "finished t' \<longleftrightarrow> finished t \<or> (\<exists>res. tk_phase t = AtDefer res)"
    and "(\<exists>res. tk_phase t = AtDefer res) \<or> finished t \<Longrightarrow> labels_of t' = labels_of t"
proof -
  show "m_ActiveConnections (s_metrics s') =
      (case tk_phase t of AtEntry \<Rightarrow> Gauge_Inc (m_ActiveConnections (s_metrics s))
       | AtDefer res \<Rightarrow> Gauge_Dec (m_ActiveConnections (s_metrics s))
       | _ \<Rightarrow> m_ActiveConnections (s_metrics s))"
    "m_RequestsTotal (s_metrics s') =
      (case tk_phase t of AtDefer res \<Rightarrow> Counter_Inc (labels_of t) (m_RequestsTotal (s_metrics s))
       | _ \<Rightarrow> m_RequestsTotal (s_metrics s))"
    using assms
    by (cases "tk_phase t";
        auto simp: advance_def steps serve_begin_def serve_deferred_def RecordRequest_def
          RecordRateLimitRejection_def labels_of_def Let_def dest: checkRateLimit_frame_metrics
          split: option.splits sum.splits prod.splits bool.splits if_splits)+
  show "in_flight t' \<longleftrightarrow> (in_flight t \<or> tk_phase t = AtEntry) \<and> (\<forall>res. tk_phase t \<noteq> AtDefer res)"
    "finished t' \<longleftrightarrow> finished t \<or> (\<exists>res. tk_phase t = AtDefer res)"
    using assms
    by (cases "tk_phase t";
        auto simp: advance_def steps Let_def in_flight_def finished_def
          split: option.splits sum.splits prod.splits bool.splits if_splits)+
  show "(\<exists>res. tk_phase t = AtDefer res) \<or> finished t \<Longrightarrow> labels_of t' = labels_of t"
    using assms by (auto simp: advance_def defer_step_def labels_of_def finished_iff)
qed

definition metrics_agree :: "('k, 'r) gateway \<Rightarrow> bool" where
  "metrics_agree g \<longleftrightarrow>
     g_value (m_ActiveConnections (s_metrics (gw_server g))) = int (tasks_with in_flight (gw_tasks g)) \<and>
     (\<forall>key. Mapping.lookup_default 0 (cv_values (m_RequestsTotal (s_metrics (gw_server g)))) key =
        int (tasks_with (counted key) (gw_tasks g)))"



lemma Counter_Inc_default:
  "Mapping.lookup_default 0 (cv_values (Counter_Inc lvs v)) key =
     (if key = Join lvs [NUL] then float_inc (Mapping.lookup_default 0 (cv_values v) key)
      else Mapping.lookup_default 0 (cv_values v) key)"
  by (simp add: lookup_default_def [of _ "cv_values (Counter_Inc lvs v)"])
     (simp add: lookup_default_def)

lemma float_inc_room: "n < card A \<Longrightarrow> card A \<le> 9007199254740992 \<Longrightarrow> float_inc (int n) = int (Suc n)"
  by (simp add: float_inc_def)

lemma metrics_agree_run:
  assumes "metrics_agree g" "finite (dom (gw_tasks g))" "card (dom (gw_tasks g)) \<le> 9007199254740992"
    and "gw_tasks g i = Some t" "advance x mo (gw_server g, t) = (s', t')"
    and "gw_server g' = s'" "gw_tasks g' = (gw_tasks g)(i \<mapsto> t')"
  shows "metrics_agree g'"
proof -
  note adv = advance_metrics [OF assms(5)]
  note upd = tasks_with_update [OF assms(2,4), where t' = t']
  note room = tasks_with_room [OF assms(2,4)]
  have gauge: "g_value (m_ActiveConnections (s_metrics s')) = int (tasks_with in_flight (gw_tasks g'))"
  proof (cases "tk_phase t")
    case AtEntry
    then have "\<not> in_flight t" by (simp add: in_flight_def)
    with AtEntry have "in_flight t'" by (simp add: adv(3))
    with AtEntry \<open>\<not> in_flight t\<close> upd [of in_flight] float_inc_room [OF room [of in_flight] assms(3)] assms(1,7)
    show ?thesis by (simp add: adv(1) Gauge_Inc_def metrics_agree_def)
  next
    case (AtDefer res)
    then have "in_flight t" by (simp add: in_flight_def finished_def)
    moreover from AtDefer have "\<not> in_flight t'" by (simp add: adv(3))
    ultimately show ?thesis using AtDefer upd [of in_flight] assms(1,7)
      by (auto simp: adv(1) Gauge_Dec_def float_dec_def metrics_agree_def)
  qed (use upd [of in_flight] assms(1,7) in \<open>simp_all add: adv(1,3) metrics_agree_def\<close>)
  have "Mapping.lookup_default 0 (cv_values (m_RequestsTotal (s_metrics s'))) key =
      int (tasks_with (counted key) (gw_tasks g'))" for key
  proof (cases "\<exists>res. tk_phase t = AtDefer res")
    case True
    then have "\<not> counted key t" "counted key t' \<longleftrightarrow> key = Join (labels_of t) [NUL]"
      using adv(5) by (auto simp: counted_def finished_iff) (auto simp: adv(4) finished_iff [symmetric])
    with True upd [of "counted key"] float_inc_room [OF room [of "counted key"] assms(3)] assms(1,7)
    show ?thesis by (auto simp: adv(2) Counter_Inc_default metrics_agree_def)
  next
    case False
    then have "counted key t' = counted key t" using adv(5) by (auto simp: counted_def adv(4))
    moreover have "m_RequestsTotal (s_metrics s') = m_RequestsTotal (s_metrics (gw_server g))"
      using False by (cases "tk_phase t") (simp_all add: adv(2))
    ultimately show ?thesis using upd [of "counted key"] assms(1,7) by (simp add: metrics_agree_def)
  qed
  with gauge assms(6) show ?thesis by (simp add: metrics_agree_def)
qed

lemma background_metrics:
  "s_metrics (clean_limiter now s) = s_metrics s"
  "s_metrics (snd (Server_Shutdown stop_metrics stop_main close_main is_deadline s)) = s_metrics s"
  by (simp_all add: clean_limiter_def Server_Shutdown_def Let_def)

lemma metrics_agree_server:
  assumes "m_ActiveConnections (s_metrics s) = m_ActiveConnections (s_metrics (gw_server g))"
    and "m_RequestsTotal (s_metrics s) = m_RequestsTotal (s_metrics (gw_server g))"
  shows "metrics_agree (g\<lparr>gw_server := s\<rparr>) = metrics_agree g"
    and "metrics_agree (g\<lparr>gw_server := s, gw_clock := c\<rparr>) = metrics_agree g"
    and "metrics_agree (g\<lparr>gw_server := s, gw_loop := l\<rparr>) = metrics_agree g"
  using assms by (simp_all add: metrics_agree_def)

lemma metrics_agree_step:
  assumes "gateway_step x env g g'" "metrics_agree g" "finite (dom (gw_tasks g))"
    and "card (dom (gw_tasks g)) \<le> 9007199254740992"
  shows "metrics_agree g'"
  using assms(1)
proof cases
  case (arrive i w r)
  with tasks_with_new [OF assms(3) arrive(2)] assms(2) show ?thesis
    by (simp add: metrics_agree_def new_task_def in_flight_def counted_def finished_def del: fun_upd_apply)
next
  case (run i t mo s' t')
  show ?thesis by (rule metrics_agree_run [OF assms(2-4) run(2,6)]) (simp_all add: run(1))
next
  case (export ks s' l')
  from export(4) obtain v where "s' = (gw_server g)\<lparr>s_metrics := (s_metrics (gw_server g))\<lparr>m_CircuitBreakerState := v\<rparr>\<rparr>"
    by (rule loop_step_frame)
  with export(1) assms(2) show ?thesis by (simp add: metrics_agree_server(3))
next
  case (clean now)
  with assms(2) show ?thesis by (simp add: metrics_agree_server(2) background_metrics)
next
  case (stop stop_metrics stop_main close_main is_deadline)
  with assms(2) show ?thesis by (simp add: metrics_agree_server(1) background_metrics)
qed

text \<open>
  C14: The metrics of a busy gateway are exact: with up to \<open>2 ^ 53\<close> requests so far, the gauge
  of active connections is the number of handlers that have started and not finished, so 0 once
  all have, and the request counter of each label triple is the number of finished handlers
  with those labels.
\<close>

theorem concurrent_metrics:
  assumes "gateway_reach x env s g" "s_metrics s = NewMetrics rnd"
    and "card (dom (gw_tasks g)) \<le> 9007199254740992"
  shows "g_value (m_ActiveConnections (s_metrics (gw_server g))) = int (tasks_with in_flight (gw_tasks g)) \<and>
    Mapping.lookup_default 0 (cv_values (m_RequestsTotal (s_metrics (gw_server g)))) (Join labels [NUL]) =
      int (tasks_with (counted (Join labels [NUL])) (gw_tasks g))"
proof -
  have "card (dom (gw_tasks g)) \<le> 9007199254740992 \<Longrightarrow> metrics_agree g"
    using assms(1)
  proof (induction rule: gateway_reach.induct)
    case (start now)
    then show ?case
      using assms(2) by (simp add: metrics_agree_def new_gateway_def tasks_with_def NewMetrics_def NewCounterVec_def
          lookup_default_def)
  next
    case (step g g')
    have "card (dom (gw_tasks g)) \<le> card (dom (gw_tasks g'))"
      using dom_step [OF step(2)] finite_tasks [OF gateway_reach.step [OF step(1,2)]] by (rule card_mono [rotated])
    with step.prems step.IH show ?case
      by (intro metrics_agree_step [OF step(2) _ finite_tasks [OF step(1)]]) simp_all
  qed
  with assms(3) show ?thesis by (simp add: metrics_agree_def)
qed

subsection \<open>Every handler finishes\<close>

text \<open>
  A step here is a critical section, a call of Redis or an exchange with the upstream, and is
  taken whole: this section says what the code does of its own once these return. That the
  mutexes are not waited for forever is theory \<open>Gateway_Locks\<close>; that Redis and the upstream
  answer is not the program's (its transport has no response timeout, \<open>server.go\<close>).
\<close>

text \<open>The steps the handlers still have to make.\<close>

definition work :: "('k, 'r) gateway \<Rightarrow> nat" where
  "work g = (\<Sum>i \<in> dom (gw_tasks g). phase_rank (tk_phase (the (gw_tasks g i))))"

lemma rank_le: "phase_rank ph \<le> 11"
  by (cases ph) simp_all

lemma work_le: "work g \<le> 11 * card (dom (gw_tasks g))"
  using sum_bounded_above [of "dom (gw_tasks g)" "\<lambda>i. phase_rank (tk_phase (the (gw_tasks g i)))" 11]
    rank_le
  by (simp add: work_def mult.commute)

lemma work_run:
  assumes "finite (dom (gw_tasks g))" "gw_tasks g i = Some t" "gw_tasks g' = (gw_tasks g)(i \<mapsto> t')"
    and "phase_rank (tk_phase t') < phase_rank (tk_phase t)"
  shows "work g' < work g"
proof -
  have "dom (gw_tasks g') = dom (gw_tasks g)" using assms(2,3) by auto
  then show ?thesis
    unfolding work_def using assms by (auto intro!: sum_strict_mono_ex1)
qed

lemma unfinished_step:
  assumes "finite (dom (gw_tasks g))" "gw_tasks g i = Some t" "\<not> finished t"
    and "env mo" "gw_clock g \<le> mo_limit_now mo" "gw_redis_clock g \<le> mo_redis_ms mo"
  shows "\<exists>g'. gateway_step x env g g' \<and> work g' < work g \<and> dom (gw_tasks g') = dom (gw_tasks g)"
proof -
  obtain s' t' where adv: "advance x mo (gw_server g, t) = (s', t')" by fastforce
  let ?g = "run_gateway x mo i t s' t' g"
  have "gateway_step x env g ?g" by (rule gateway_step.run) (use assms adv in simp_all)
  moreover have "work ?g < work g"
    using advance_rank [OF assms(3), of x mo "gw_server g"] adv
    by (intro work_run [OF assms(1,2)]) simp_all
  moreover have "dom (gw_tasks ?g) = dom (gw_tasks g)" using assms(2) by auto
  ultimately show ?thesis by blast
qed

lemma drains_within_work:
  assumes "finite (dom (gw_tasks g))" "\<And>now ms. \<exists>mo. env mo \<and> now \<le> mo_limit_now mo \<and> ms \<le> mo_redis_ms mo"
  shows "\<exists>n g'. n \<le> work g \<and> (gateway_step x env ^^ n) g g' \<and>
    dom (gw_tasks g') = dom (gw_tasks g) \<and> (\<forall>i t. gw_tasks g' i = Some t \<longrightarrow> finished t)"
  using assms(1)
proof (induction "work g" arbitrary: g rule: less_induct)
  case less
  show ?case
  proof (cases "\<forall>i t. gw_tasks g i = Some t \<longrightarrow> finished t")
    case True
    then show ?thesis by (intro exI [of _ 0] exI [of _ g]) simp
  next
    case False
    then obtain i t where t: "gw_tasks g i = Some t" "\<not> finished t" by blast
    obtain mo where mo: "env mo" "gw_clock g \<le> mo_limit_now mo" "gw_redis_clock g \<le> mo_redis_ms mo"
      using assms(2) by blast
    from unfinished_step [OF less.prems t, of env mo, OF mo] obtain g1 where
      step: "gateway_step x env g g1" "work g1 < work g" "dom (gw_tasks g1) = dom (gw_tasks g)" by blast
    have fin: "finite (dom (gw_tasks g1))" unfolding step(3) by (rule less.prems)
    from less.hyps [OF step(2) fin] obtain n g' where r: "n \<le> work g1" "(gateway_step x env ^^ n) g1 g'"
      "dom (gw_tasks g') = dom (gw_tasks g1)" "\<forall>i t. gw_tasks g' i = Some t \<longrightarrow> finished t"
      by blast
    have "(gateway_step x env ^^ Suc n) g g'" by (rule relpowp_Suc_I2, rule step(1), rule r(2))
    moreover have "Suc n \<le> work g" using r(1) step(2) by simp
    ultimately show ?thesis using r(3,4) unfolding step(3) by blast
  qed
qed

text \<open>A turn of handler \<open>i\<close>, and any schedule that gives it \<open>n\<close> turns among other steps.\<close>

definition turn ::
  "('k, 'pe) externals \<Rightarrow> (('e, 'r) moment \<Rightarrow> bool) \<Rightarrow> nat \<Rightarrow> ('k, 'r) gateway \<Rightarrow> ('k, 'r) gateway \<Rightarrow> bool" where
  "turn x env i g g' \<longleftrightarrow> (\<exists>t mo s' t'. gw_tasks g i = Some t \<and> env mo \<and>
     (at_memory t \<longrightarrow> gw_clock g \<le> mo_limit_now mo) \<and>
     (at_redis (gw_server g) t \<longrightarrow> gw_redis_clock g \<le> mo_redis_ms mo) \<and>
     advance x mo (gw_server g, t) = (s', t') \<and> g' = run_gateway x mo i t s' t' g)"

inductive schedule ::
  "('k, 'pe) externals \<Rightarrow> (('e, 'r) moment \<Rightarrow> bool) \<Rightarrow> nat \<Rightarrow> ('k, 'r) gateway \<Rightarrow> nat \<Rightarrow> ('k, 'r) gateway \<Rightarrow> bool"
  for x :: "('k, 'pe) externals" and env :: "('e, 'r) moment \<Rightarrow> bool" and i :: nat
    and g :: "('k, 'r) gateway" where
  idle: "schedule x env i g 0 g"
| turn: "schedule x env i g n g' \<Longrightarrow> turn x env i g' g'' \<Longrightarrow> schedule x env i g (Suc n) g''"
| other: "schedule x env i g n g' \<Longrightarrow> gateway_step x env g' g'' \<Longrightarrow> schedule x env i g n g''"

lemma turn_step: "turn x env i g g' \<Longrightarrow> gateway_step x env g g'"
  unfolding turn_def by (blast intro: gateway_step.run)

lemma advance_rank_le: "phase_rank (tk_phase (snd (advance x mo (s, t)))) \<le> phase_rank (tk_phase t) - 1"
proof (cases "finished t")
  case True
  then show ?thesis by (simp add: advance_finished finished_def)
next
  case False
  from advance_rank [OF this, of x mo s] show ?thesis by simp
qed

lemma turn_rank:
  assumes "turn x env i g g'" "gw_tasks g i = Some t"
  shows "\<exists>t'. gw_tasks g' i = Some t' \<and> phase_rank (tk_phase t') \<le> phase_rank (tk_phase t) - 1"
proof -
  from assms(1) obtain u mo s' t' where "gw_tasks g i = Some u" "env mo" "advance x mo (gw_server g, u) = (s', t')"
    "g' = run_gateway x mo i u s' t' g"
    unfolding turn_def by blast
  with assms(2) advance_rank_le [of x mo "gw_server g" t] show ?thesis by simp
qed

lemma step_rank:
  assumes "gateway_step x env g g'" "gw_tasks g i = Some t"
  shows "\<exists>t'. gw_tasks g' i = Some t' \<and> phase_rank (tk_phase t') \<le> phase_rank (tk_phase t)"
  using assms(1)
proof cases
  case (run j u mo s' u')
  have "phase_rank (tk_phase u') \<le> phase_rank (tk_phase u)"
    using advance_rank_le [of x mo "gw_server g" u] by (simp add: run(6))
  with run(1,2) assms(2) show ?thesis by (cases "i = j") auto
qed (use assms(2) in auto)

lemma schedule_rank:
  assumes "schedule x env i g n g'" "gw_tasks g i = Some t"
  shows "\<exists>t'. gw_tasks g' i = Some t' \<and> phase_rank (tk_phase t') \<le> phase_rank (tk_phase t) - n"
  using assms(1)
proof (induction rule: schedule.induct)
  case idle
  with assms(2) show ?case by simp
next
  case (turn n g' g'')
  then show ?case by (fastforce dest: turn_rank)
next
  case (other n g' g'')
  then show ?case by (fastforce dest: step_rank)
qed

text \<open>
  The handlers finish, as far as locks, Redis and the transport answer. From every state, whatever
  requests are in flight and wherever they are, the handlers alone can all finish, within eleven
  steps each; and every schedule, whatever else it runs and in whatever order, has finished a
  handler once it has given it eleven turns.
\<close>

theorem gateway_drains:
  assumes "gateway_reach x env s g" "\<And>now ms. \<exists>mo. env mo \<and> now \<le> mo_limit_now mo \<and> ms \<le> mo_redis_ms mo"
  shows "(\<exists>n g'. n \<le> 11 * card (dom (gw_tasks g)) \<and> (gateway_step x env ^^ n) g g' \<and>
      dom (gw_tasks g') = dom (gw_tasks g) \<and> (\<forall>i t. gw_tasks g' i = Some t \<longrightarrow> finished t)) \<and>
    (\<forall>i \<in> dom (gw_tasks g). (\<exists>g'. turn x env i g g') \<and>
      (\<forall>n g'. schedule x env i g n g' \<and> 11 \<le> n \<longrightarrow> (\<exists>t. gw_tasks g' i = Some t \<and> finished t)))"
proof (intro conjI ballI allI impI)
  from drains_within_work [OF finite_tasks [OF assms(1)], of env x, OF assms(2)] obtain n g' where
    r: "n \<le> work g" "(gateway_step x env ^^ n) g g' \<and> dom (gw_tasks g') = dom (gw_tasks g) \<and>
      (\<forall>i t. gw_tasks g' i = Some t \<longrightarrow> finished t)"
    by metis
  have "n \<le> 11 * card (dom (gw_tasks g))" using r(1) work_le [of g] by simp
  with r(2) show "\<exists>n g'. n \<le> 11 * card (dom (gw_tasks g)) \<and> (gateway_step x env ^^ n) g g' \<and>
      dom (gw_tasks g') = dom (gw_tasks g) \<and> (\<forall>i t. gw_tasks g' i = Some t \<longrightarrow> finished t)"
    by (intro exI [of _ n] exI [of _ g']) simp
next
  fix i
  assume "i \<in> dom (gw_tasks g)"
  then obtain t where t: "gw_tasks g i = Some t" by blast
  obtain mo where mo: "env mo" "gw_clock g \<le> mo_limit_now mo" "gw_redis_clock g \<le> mo_redis_ms mo"
    using assms(2) by blast
  obtain s' t' where "advance x mo (gw_server g, t) = (s', t')" by fastforce
  with t mo have "turn x env i g (run_gateway x mo i t s' t' g)" unfolding turn_def by blast
  then show "\<exists>g'. turn x env i g g'" ..
  fix n g'
  assume n: "schedule x env i g n g' \<and> 11 \<le> n"
  from schedule_rank [OF conjunct1 [OF n] t] obtain t' where
    "gw_tasks g' i = Some t'" "phase_rank (tk_phase t') \<le> phase_rank (tk_phase t) - n" by blast
  with n rank_le [of "tk_phase t"] show "\<exists>t. gw_tasks g' i = Some t \<and> finished t"
    by (simp add: finished_def)
qed

subsection \<open>Requests served one at a time\<close>

text \<open>A handler may run to its end without interruption.\<close>

lemma gateway_finish:
  assumes "gateway_reach x env s g" "gw_tasks g i = Some t" "env mo"
    and "gw_clock g \<le> mo_limit_now mo" "gw_redis_clock g \<le> mo_redis_ms mo"
  shows "\<exists>g'. gateway_reach x env s g' \<and> gw_server g' = fst (finish x mo (gw_server g, t)) \<and>
    gw_tasks g' = (gw_tasks g)(i \<mapsto> snd (finish x mo (gw_server g, t))) \<and>
    gw_clock g' \<le> mo_limit_now mo \<and> gw_redis_clock g' \<le> mo_redis_ms mo"
  using assms(1,2,4,5)
proof (induction "phase_rank (tk_phase t)" arbitrary: g t rule: less_induct)
  case less
  show ?case
  proof (cases "finished t")
    case True
    with less.prems show ?thesis
      by (intro exI [of _ g]) (auto simp: finish.simps fun_upd_idem)
  next
    case False
    obtain s' t' where adv: "advance x mo (gw_server g, t) = (s', t')" by fastforce
    let ?g = "run_gateway x mo i t s' t' g"
    have "gateway_step x env g ?g" by (rule gateway_step.run) (use less.prems assms(3) adv in simp_all)
    then have reach: "gateway_reach x env s ?g" by (rule gateway_reach.step [OF less.prems(1)])
    have rank: "phase_rank (tk_phase t') < phase_rank (tk_phase t)"
      using advance_rank [OF False, of x mo "gw_server g"] adv by simp
    have fin: "finish x mo (gw_server g, t) = finish x mo (s', t')"
      using False adv by (subst finish.simps) simp
    show ?thesis
      using less.hyps [OF rank reach] less.prems(3,4) by (auto simp: fin)
  qed
qed

lemma advance_request: "tk_request (snd (advance x mo (s, t))) = tk_request t"
  by (cases "tk_phase t")
    (auto simp: advance_def steps Let_def split: option.splits sum.splits prod.splits bool.splits)

lemma finish_request: "tk_request (snd (finish x mo c)) = tk_request (snd c)"
proof (induction x mo c rule: finish.induct)
  case (1 x mo c)
  then show ?case
    using advance_request [of x mo "fst c" "snd c"] by (subst finish.simps) simp
qed

text \<open>A gateway that has served one request.\<close>

lemma gateway_serves:
  assumes "env mo" "w_ops w = []"
  shows "\<exists>g t. gateway_reach x env s g \<and> gw_tasks g = [0 \<mapsto> t] \<and>
    gw_server g = sv_server (serveRoute x mo s w r) \<and>
    finished t \<and> tk_forwarded t = sv_forwarded (serveRoute x mo s w r) \<and> tk_request t = r"
proof -
  let ?g = "new_gateway s (mo_limit_now mo) (mo_redis_ms mo)"
  let ?h = "?g\<lparr>gw_tasks := (gw_tasks ?g)(0 \<mapsto> new_task w r)\<rparr>"
  have "gateway_step x env ?g ?h"
    by (rule gateway_step.arrive) (simp_all add: new_gateway_def assms(2))
  then have "gateway_reach x env s ?h" by (rule gateway_reach.step [OF gateway_reach.start])
  from gateway_finish [OF this, of 0 "new_task w r" mo] obtain g' where
    "gateway_reach x env s g'" "gw_tasks g' = [0 \<mapsto> snd (finish x mo (s, new_task w r))]"
    "gw_server g' = fst (finish x mo (s, new_task w r))"
    using assms(1) by (auto simp: new_gateway_def)
  moreover have "fst (finish x mo (s, new_task w r)) = sv_server (serveRoute x mo s w r)"
    unfolding finish_serveRoute [symmetric] by (simp add: served_of_def split: prod.splits)
  moreover have "tk_forwarded (snd (finish x mo (s, new_task w r))) = sv_forwarded (serveRoute x mo s w r)"
    unfolding finish_serveRoute [symmetric] by (simp add: served_of_def split: prod.splits)
  moreover have "tk_request (snd (finish x mo (s, new_task w r))) = r"
    using finish_request [of x mo "(s, new_task w r)"] by (simp add: new_task_def)
  ultimately show ?thesis
    using finish_finishes [of x mo "(s, new_task w r)"]
    by (intro exI [of _ g'] exI [of _ "snd (finish x mo (s, new_task w r))"]) simp
qed

subsection \<open>Witnesses\<close>

lemma demo_forwards:
  "sv_forwarded (serveRoute demo_externals (demo_moment ok_exchange) demo_server new_writer open_request)
     \<noteq> None"
  using sv_forwarded_Admitted [OF demo_admit] demo_proxied by (metis option.distinct(1))

text \<open>The sample gateway after one forwarded request.\<close>

lemma demo_gateway_request:
  "\<exists>g t. gateway_reach demo_externals (\<lambda>mo :: (unit, redis_map) moment. True) demo_server g \<and>
     gw_tasks g = [0 \<mapsto> t] \<and> finished t \<and> tk_forwarded t \<noteq> None \<and>
     tk_request t = open_request \<and> tk_route t = Some open_route"
proof -
  obtain g t where g: "gateway_reach demo_externals (\<lambda>mo :: (unit, redis_map) moment. True) demo_server g"
    "gw_tasks g = [0 \<mapsto> t]" "finished t" "tk_forwarded t \<noteq> None" "tk_request t = open_request"
    using gateway_serves [of "\<lambda>mo. True" "demo_moment ok_exchange" new_writer demo_externals demo_server open_request]
    using demo_forwards by (auto simp: new_writer_def)
  have "task_ok demo_externals demo_server (gw_server g) t (tk_phase t)"
    by (rule tasks_ok_reach [OF g(1) demo_server_ok]) (simp add: g(2))
  with g(3,4) have "gone demo_externals demo_server t" by (auto simp: finished_iff answered_def ended_well_def)
  with g(5) demo_facts(1) have "tk_route t = Some open_route"
    by (auto simp: gone_def sent_def cleared_def)
  with g show ?thesis by blast
qed

lemma demo_gateway:
  "\<exists>g t. gateway_reach demo_externals (\<lambda>mo :: (unit, redis_map) moment. True) demo_server g \<and>
     gw_tasks g = [0 \<mapsto> t] \<and> finished t \<and> tk_forwarded t \<noteq> None"
  using demo_gateway_request by blast

lemma concurrent_metrics_witness:
  "\<exists>g t. gateway_reach demo_externals (\<lambda>mo :: (unit, redis_map) moment. True) demo_server g \<and>
     gw_tasks g 0 = Some t \<and> g_value (m_ActiveConnections (s_metrics (gw_server g))) = 0 \<and>
     Mapping.lookup_default 0 (cv_values (m_RequestsTotal (s_metrics (gw_server g)))) (Join (labels_of t) [NUL]) = 1"
proof -
  obtain g t where g: "gateway_reach demo_externals (\<lambda>mo :: (unit, redis_map) moment. True) demo_server g"
    "gw_tasks g = [0 \<mapsto> t]" "finished t"
    using demo_gateway by blast
  have "card (dom (gw_tasks g)) \<le> 9007199254740992" by (simp add: g(2))
  note c = concurrent_metrics [OF g(1) New_Server_simps(9) [OF demo_New] this, of "labels_of t"]
  have "{i. \<exists>u. gw_tasks g i = Some u \<and> in_flight u} = {}"
    "{i. \<exists>u. gw_tasks g i = Some u \<and> counted (Join (labels_of t) [NUL]) u} = {0}"
    using g(2,3) by (auto simp: in_flight_def counted_def split: if_splits)
  with c g show ?thesis
    by (intro exI [of _ g] exI [of _ t]) (simp add: tasks_with_def)
qed

lemma gateway_drains_witness:
  "\<exists>n g'. n \<le> 11 \<and> (gateway_step demo_externals (\<lambda>mo :: (unit, redis_map) moment. True) ^^ n)
     ((new_gateway demo_server 0 0)\<lparr>gw_tasks := [0 \<mapsto> new_task new_writer open_request]\<rparr>) g' \<and>
     (\<forall>t. gw_tasks g' 0 = Some t \<longrightarrow> finished t)"
proof -
  let ?env = "\<lambda>mo :: (unit, redis_map) moment. True"
  let ?g = "(new_gateway demo_server 0 0)\<lparr>gw_tasks := [0 \<mapsto> new_task new_writer open_request]\<rparr>"
  have "gateway_step demo_externals ?env (new_gateway demo_server 0 0) ?g"
    using gateway_step.arrive [of "new_gateway demo_server 0 0" 0 new_writer demo_externals ?env open_request]
    by (simp add: new_gateway_def new_writer_def)
  then have r: "gateway_reach demo_externals ?env demo_server ?g"
    by (rule gateway_reach.step [OF gateway_reach.start])
  have "\<exists>mo :: (unit, redis_map) moment. True \<and> now \<le> mo_limit_now mo \<and> ms \<le> mo_redis_ms mo" for now ms
    by (rule exI [of _ "(demo_moment ok_exchange)\<lparr>mo_limit_now := now, mo_redis_ms := ms\<rparr>"]) simp
  from gateway_drains [OF r this, THEN conjunct1] obtain n g' where
    "n \<le> 11 * card (dom (gw_tasks ?g)) \<and> (gateway_step demo_externals ?env ^^ n) ?g g' \<and>
     dom (gw_tasks g') = dom (gw_tasks ?g) \<and> (\<forall>i t. gw_tasks g' i = Some t \<longrightarrow> finished t)"
    by (elim exE) (rule that)
  then show ?thesis by (intro exI [of _ n] exI [of _ g']) auto
qed

end
