(* ===== verification/Gateway_Limits.thy ===== *)
theory Gateway_Limits
  imports Gateway_Concurrent
begin

text \<open>
  The rate limit under concurrency: in every interleaving of the goroutines of theory
  \<open>Gateway_Concurrent\<close> the log of each of the limiter's back ends is a run of the fixed-window
  counter of theory \<open>Window_Counter\<close>, and every forwarded request of a limited route stands in
  one of them, admitted. This theory holds what both back ends share and the bound without
  Redis; theory \<open>Gateway_Failover\<close> has the bound with it.
\<close>

subsection \<open>The two back ends\<close>

datatype backend = Memory | Redis

fun backend_log :: "backend \<Rightarrow> ('k, 'r) gateway \<Rightarrow> limit_entry list" where
  "backend_log Memory g = gw_log g"
| "backend_log Redis g = gw_redis_log g"

fun backend_key :: "backend \<Rightarrow> string \<Rightarrow> string \<Rightarrow> string" where
  "backend_key Memory = memory_key"
| "backend_key Redis = redis_key"

text \<open>A handler that has left a back end is below this rank.\<close>

fun backend_rank :: "backend \<Rightarrow> nat" where
  "backend_rank Memory = 8"
| "backend_rank Redis = 9"

fun new_entries :: "backend \<Rightarrow> ('e, 'r) moment \<Rightarrow> nat \<Rightarrow> ('k, 'r) Server \<Rightarrow> task \<Rightarrow> task \<Rightarrow> limit_entry list" where
  "new_entries Memory mo i s t t' = logged mo i t t'"
| "new_entries Redis mo i s t t' = redis_logged mo i s t t'"

lemma backend_log_run [simp]:
  "backend_log b (run_gateway x mo i t s' t' g) = backend_log b g @ new_entries b mo i (gw_server g) t t'"
  by (cases b) simp_all

lemma backend_log_other [simp]:
  "backend_log b (g\<lparr>gw_tasks := ts\<rparr>) = backend_log b g"
  "backend_log b (g\<lparr>gw_server := s\<rparr>) = backend_log b g"
  "backend_log b (g\<lparr>gw_server := s, gw_clock := c\<rparr>) = backend_log b g"
  "backend_log b (g\<lparr>gw_server := s, gw_loop := l\<rparr>) = backend_log b g"
  "backend_log b (new_gateway s now ms) = []"
  by (cases b; simp add: new_gateway_def)+

subsection \<open>Past the limiter\<close>

definition past_limiter :: "task \<Rightarrow> bool" where
  "past_limiter t \<longleftrightarrow> tk_forwarded t \<noteq> None \<or>
     (case tk_phase t of
        AtPick route r \<Rightarrow> True | AtBreaker route target r \<Rightarrow> True | AtAllow route target r \<Rightarrow> True
      | AtProxy route target r \<Rightarrow> True | AtRecord route target \<Rightarrow> True | AtTell route target \<Rightarrow> True
      | _ \<Rightarrow> False)"

lemma advance_task:
  assumes "advance x mo (s, t) = (s', t')"
  shows "tk_request t' = tk_request t"
    and "tk_phase t \<noteq> AtRoute \<Longrightarrow> tk_route t' = tk_route t"
    and "past_limiter t' \<Longrightarrow> past_limiter t \<or>
      (\<exists>route r. (tk_phase t = AtLimit route r \<or> (\<exists>lmt. tk_phase t = AtFallback route lmt r)) \<and>
         tk_phase t' = AtPick route r)"
    and "phase_rank (tk_phase t') \<le> phase_rank (tk_phase t)"
    and "\<not> finished t \<Longrightarrow> phase_rank (tk_phase t') < phase_rank (tk_phase t)"
proof -
  show "tk_request t' = tk_request t" using advance_request [of x mo s t] assms by simp
  show "tk_phase t \<noteq> AtRoute \<Longrightarrow> tk_route t' = tk_route t"
    "past_limiter t' \<Longrightarrow> past_limiter t \<or>
      (\<exists>route r. (tk_phase t = AtLimit route r \<or> (\<exists>lmt. tk_phase t = AtFallback route lmt r)) \<and>
         tk_phase t' = AtPick route r)"
    using assms
    by (cases "tk_phase t";
        auto simp: advance_def steps Let_def past_limiter_def
          split: option.splits sum.splits prod.splits bool.splits if_splits)+
  show less: "\<not> finished t \<Longrightarrow> phase_rank (tk_phase t') < phase_rank (tk_phase t)"
    using advance_rank [of t x mo s] assms by simp
  show "phase_rank (tk_phase t') \<le> phase_rank (tk_phase t)"
    using less advance_finished [of t x mo s] assms by (cases "finished t") auto
qed

subsection \<open>The limiter's state, step by step\<close>

lemma limit_result_limiter [simp]:
  "s_rateLimiter (fst (limit_result x mo route lmt r a (s, t))) = s_rateLimiter s"
  by (simp add: limit_result_def Let_def split: prod.splits)

lemma limit_result_passed:
  "tk_phase (snd (limit_result x mo route lmt r a (s, t))) = AtPick route r \<longleftrightarrow> fst a"
  by (simp add: limit_result_def reject_def Let_def split: prod.splits)

lemma advance_limiter:
  assumes "advance x mo (s, t) = (s', t')" "\<not> at_memory t" "\<not> (\<exists>route r. tk_phase t = AtLimit route r)"
  shows "s_rateLimiter s' = s_rateLimiter s"
  using assms
  by (cases "tk_phase t")
    (auto simp: advance_def steps at_memory_def set_breaker_def create_breaker_def
      serve_begin_def serve_deferred_def Let_def
      split: option.splits sum.splits prod.splits bool.splits if_splits)

lemma advance_at_limit:
  assumes "advance x mo (s, t) = (s', t')" "tk_phase t = AtLimit route r" "limit_cfg route = Some lmt"
  shows "s_rateLimiter s' =
      snd (RL_redis (mo_redis mo) (s_rateLimiter s) (rt_ID route) (client_id r route) lmt)"
    and "tk_phase t' = AtPick route r \<longleftrightarrow>
      (\<exists>a. fst (RL_redis (mo_redis mo) (s_rateLimiter s) (rt_ID route) (client_id r route) lmt) = Some a \<and> fst a)"
proof -
  obtain ans rl where a: "RL_redis (mo_redis mo) (s_rateLimiter s) (rt_ID route) (client_id r route) lmt = (ans, rl)"
    by fastforce
  have "(s', t') = (case ans of
      Some a \<Rightarrow> limit_result x mo route lmt r a (s\<lparr>s_rateLimiter := rl\<rparr>, t)
    | None \<Rightarrow> (s\<lparr>s_rateLimiter := rl\<rparr>, t\<lparr>tk_phase := AtFallback route lmt r\<rparr>))"
    using assms a by (simp add: advance_def limit_step_def)
  then have "s' = fst (case ans of
      Some a \<Rightarrow> limit_result x mo route lmt r a (s\<lparr>s_rateLimiter := rl\<rparr>, t)
    | None \<Rightarrow> (s\<lparr>s_rateLimiter := rl\<rparr>, t\<lparr>tk_phase := AtFallback route lmt r\<rparr>))"
    "t' = snd (case ans of
      Some a \<Rightarrow> limit_result x mo route lmt r a (s\<lparr>s_rateLimiter := rl\<rparr>, t)
    | None \<Rightarrow> (s\<lparr>s_rateLimiter := rl\<rparr>, t\<lparr>tk_phase := AtFallback route lmt r\<rparr>))"
    by (metis fst_conv, metis snd_conv)
  then show "s_rateLimiter s' =
      snd (RL_redis (mo_redis mo) (s_rateLimiter s) (rt_ID route) (client_id r route) lmt)"
    "tk_phase t' = AtPick route r \<longleftrightarrow>
      (\<exists>a. fst (RL_redis (mo_redis mo) (s_rateLimiter s) (rt_ID route) (client_id r route) lmt) = Some a \<and> fst a)"
    by (auto simp: a limit_result_passed split: option.split)
qed

lemma advance_at_fallback:
  assumes "advance x mo (s, t) = (s', t')" "tk_phase t = AtFallback route lmt r"
  shows "s_rateLimiter s' = snd (RL_fallback (mo_limit_now mo) (mo_limit_until mo) (s_rateLimiter s)
      (rt_ID route) (client_id r route) lmt)"
    and "tk_phase t' = AtPick route r \<longleftrightarrow> fst (fst (RL_fallback (mo_limit_now mo) (mo_limit_until mo)
      (s_rateLimiter s) (rt_ID route) (client_id r route) lmt))"
proof -
  obtain a rl where a: "RL_fallback (mo_limit_now mo) (mo_limit_until mo) (s_rateLimiter s)
      (rt_ID route) (client_id r route) lmt = (a, rl)" by fastforce
  have "limit_result x mo route lmt r a (s\<lparr>s_rateLimiter := rl\<rparr>, t) = (s', t')"
    using assms a by (simp add: advance_def fallback_step_def)
  with limit_result_limiter [of x mo route lmt r a "s\<lparr>s_rateLimiter := rl\<rparr>" t]
    limit_result_passed [of x mo route lmt r a "s\<lparr>s_rateLimiter := rl\<rparr>" t]
  show "s_rateLimiter s' = snd (RL_fallback (mo_limit_now mo) (mo_limit_until mo) (s_rateLimiter s)
      (rt_ID route) (client_id r route) lmt)"
    "tk_phase t' = AtPick route r \<longleftrightarrow> fst (fst (RL_fallback (mo_limit_now mo) (mo_limit_until mo)
      (s_rateLimiter s) (rt_ID route) (client_id r route) lmt))"
    by (simp_all add: a)
qed

lemma RL_redis_memory [simp]: "rlm_memory (snd (RL_redis run rl rid client lmt)) = rlm_memory rl"
  by (simp add: RL_redis_def split: option.split sum.split prod.split)

lemma RL_redis_none [simp]:
  "rlm_redis (snd (RL_redis run rl rid client lmt)) = None \<longleftrightarrow> rlm_redis rl = None"
  by (simp add: RL_redis_def split: option.split sum.split prod.split)

lemma RL_fallback_redis [simp]:
  "rlm_redis (snd (RL_fallback now until rl rid client lmt)) = rlm_redis rl"
  by (simp add: RL_fallback_def split: prod.split)

text \<open>Only the fallback moves the counters in memory, and only the round trip the ones in Redis.\<close>

lemma advance_memory:
  assumes "advance x mo (s, t) = (s', t')" "\<not> at_memory t"
  shows "rlm_memory (s_rateLimiter s') = rlm_memory (s_rateLimiter s)"
proof (cases "\<exists>route r. tk_phase t = AtLimit route r")
  case True
  then obtain route r where at: "tk_phase t = AtLimit route r" by blast
  show ?thesis
  proof (cases "limit_cfg route")
    case None
    with assms(1) at show ?thesis by (auto simp: advance_def limit_step_def)
  next
    case (Some lmt)
    with advance_at_limit(1) [OF assms(1) at] show ?thesis by simp
  qed
qed (use advance_limiter [OF assms] in simp)

lemma advance_redis:
  assumes "advance x mo (s, t) = (s', t')"
  shows "\<not> at_redis s t \<Longrightarrow> rlm_redis (s_rateLimiter s') = rlm_redis (s_rateLimiter s)"
    and "rlm_redis (s_rateLimiter s') = None \<longleftrightarrow> rlm_redis (s_rateLimiter s) = None"
proof -
  show none: "rlm_redis (s_rateLimiter s') = None \<longleftrightarrow> rlm_redis (s_rateLimiter s) = None"
  proof (cases "tk_phase t")
    case (AtLimit route r)
    show ?thesis
    proof (cases "limit_cfg route")
      case None
      with assms AtLimit show ?thesis by (auto simp: advance_def limit_step_def)
    next
      case (Some lmt)
      with advance_at_limit(1) [OF assms AtLimit] show ?thesis by simp
    qed
  next
    case (AtFallback route lmt r)
    with advance_at_fallback(1) [OF assms] show ?thesis by simp
  qed (use advance_limiter [OF assms] in \<open>auto simp: at_memory_def\<close>)
  assume no: "\<not> at_redis s t"
  show "rlm_redis (s_rateLimiter s') = rlm_redis (s_rateLimiter s)"
  proof (cases "tk_phase t")
    case (AtLimit route r)
    show ?thesis
    proof (cases "limit_cfg route")
      case None
      with assms AtLimit show ?thesis by (auto simp: advance_def limit_step_def)
    next
      case (Some lmt)
      with AtLimit no have "rlm_redis (s_rateLimiter s) = None" by (simp add: at_redis_def)
      with none show ?thesis by simp
    qed
  next
    case (AtFallback route lmt r)
    with advance_at_fallback(1) [OF assms] show ?thesis by simp
  qed (use advance_limiter [OF assms] in \<open>auto simp: at_memory_def\<close>)
qed

subsection \<open>The log of the fallback\<close>

definition log_hits :: "limit_entry list \<Rightarrow> request_hit list" where
  "log_hits es = map le_hit es"

text \<open>A log in the order of its back end's clock, up to now.\<close>

definition timed :: "limit_entry list \<Rightarrow> int \<Rightarrow> bool" where
  "timed es now \<longleftrightarrow> sorted (map (\<lambda>e. rh_time (le_hit e)) es) \<and> (\<forall>e \<in> set es. rh_time (le_hit e) \<le> now)"

lemma timed_later: "timed es now \<Longrightarrow> now \<le> now' \<Longrightarrow> timed es now'"
  by (auto simp: timed_def)

lemma timed_snoc: "timed es now \<Longrightarrow> now \<le> rh_time (le_hit e) \<Longrightarrow> timed (es @ [e]) (rh_time (le_hit e))"
  by (auto simp: timed_def sorted_append)

text \<open>The limiter's state in memory is the one the log leaves, cleanups aside.\<close>

definition log_run :: "memoryLimiter \<Rightarrow> ('k, 'r) gateway \<Rightarrow> bool" where
  "log_run m g \<longleftrightarrow>
     cleaned (gw_clock g) (snd (run_hits mem_hit (log_hits (gw_log g)) m)) (rlm_memory (s_rateLimiter (gw_server g))) \<and>
     log_agrees mem_hit (gw_log g) m \<and> timed (gw_log g) (gw_clock g)"

text \<open>A fallback is one hit of the counter, on any state cleaned of expired entries.\<close>

lemma fallback_cleaned:
  assumes "cleaned c m (rlm_memory rl)" "c \<le> now"
  shows "cleaned now (snd (mem_hit (memory_key rid client) (rl_Requests lmt) (rl_Window lmt) now m))
      (rlm_memory (snd (RL_fallback now until rl rid client lmt)))"
    and "fst (fst (RL_fallback now until rl rid client lmt)) \<longleftrightarrow>
      fst (fst (mem_hit (memory_key rid client) (rl_Requests lmt) (rl_Window lmt) now m))"
proof -
  let ?allow = "memory_allow rid client (rl_Requests lmt) (rl_Window lmt) now until"
  have cl: "cleaned now m (rlm_memory rl)" by (rule cleaned_mono [OF assms])
  obtain allowed remaining reset m1 where a: "?allow m = ((allowed, remaining, reset), m1)"
    by (metis prod.collapse)
  obtain m2 where b: "?allow (rlm_memory rl) = ((allowed, remaining, reset), m2)" and cl': "cleaned now m1 m2"
    using cleaned_allow [OF cl, of rid client "rl_Requests lmt" "rl_Window lmt" until] a
    by (cases "?allow (rlm_memory rl)") auto
  have hit: "mem_hit (memory_key rid client) (rl_Requests lmt) (rl_Window lmt) now m = ((allowed, remaining), m1)"
    using a by (intro mem_hit_answer_any_clock) (simp add: memory_allow_def memory_key_def)
  have "RL_fallback now until rl rid client lmt = ((allowed, remaining, reset), rl\<lparr>rlm_memory := m2\<rparr>)"
    by (simp add: RL_fallback_def b)
  with hit cl' show "cleaned now (snd (mem_hit (memory_key rid client) (rl_Requests lmt) (rl_Window lmt) now m))
      (rlm_memory (snd (RL_fallback now until rl rid client lmt)))"
    "fst (fst (RL_fallback now until rl rid client lmt)) \<longleftrightarrow>
      fst (fst (mem_hit (memory_key rid client) (rl_Requests lmt) (rl_Window lmt) now m))"
    by simp_all
qed

lemma log_run_hit:
  assumes inv: "log_run m g" and adv: "advance x mo (gw_server g, t) = (s', t')"
    and at: "tk_phase t = AtFallback route lmt r" and now: "gw_clock g \<le> mo_limit_now mo"
  shows "log_run m (run_gateway x mo i t s' t' g)"
proof -
  let ?e = "\<lparr>le_task = i, le_hit = limit_hit memory_key route lmt r (mo_limit_now mo),
    le_allowed = (tk_phase t' = AtPick route r)\<rparr>"
  have entry: "logged mo i t t' = [?e]" "at_memory t" using at by (simp_all add: logged_def at_memory_def)
  from inv have inv: "cleaned (gw_clock g) (snd (run_hits mem_hit (log_hits (gw_log g)) m))
      (rlm_memory (s_rateLimiter (gw_server g)))"
    "log_agrees mem_hit (gw_log g) m" "timed (gw_log g) (gw_clock g)"
    by (simp_all add: log_run_def)
  note f = fallback_cleaned [OF inv(1) now, where rid = "rt_ID route" and client = "client_id r route"
      and lmt = lmt and until = "mo_limit_until mo"]
  have "timed (gw_log g @ [?e]) (mo_limit_now mo)"
    using timed_snoc [OF inv(3), of ?e] now by (simp add: limit_hit_def)
  moreover have "log_agrees mem_hit (gw_log g @ [?e]) m"
    using inv(2) f(2) advance_at_fallback(2) [OF adv at]
    by (simp add: log_agrees_append log_agrees_Cons log_agrees_def [of _ "[]"] limit_hit_def log_hits_def Let_def)
  ultimately show ?thesis
    using f(1) advance_at_fallback(1) [OF adv at]
    by (simp add: log_run_def entry log_hits_def run_hits_append limit_hit_def)
qed

lemma log_run_step:
  assumes "gateway_step x env g g'" "log_run m g"
  shows "log_run m g'"
  using assms(1)
proof cases
  case (run i t mo s' t')
  show ?thesis
  proof (cases "at_memory t")
    case True
    then obtain route lmt r where "tk_phase t = AtFallback route lmt r"
      by (auto simp: at_memory_def split: phase.splits)
    from log_run_hit [OF assms(2) run(6) this run(4) [OF True]] show ?thesis by (simp add: run(1))
  next
    case False
    then have "logged mo i t t' = []" by (auto simp: at_memory_def logged_def split: phase.splits)
    with advance_memory [OF run(6) False] assms(2) False show ?thesis by (simp add: log_run_def run(1))
  qed
next
  case (clean now)
  with assms(2) show ?thesis
    by (auto simp: log_run_def clean_limiter_def RL_clean_def
        intro: cleaned_clean cleaned_mono timed_later order_trans)
qed (use assms(2) in \<open>simp_all add: log_run_def loop_step_kept(1) Server_Shutdown_def Let_def\<close>)

lemma log_run_reach:
  "gateway_reach x env s g \<Longrightarrow> log_run (rlm_memory (s_rateLimiter s)) g"
proof (induction rule: gateway_reach.induct)
  case (start now ms)
  then show ?case by (simp add: log_run_def log_hits_def log_agrees_def timed_def new_gateway_def)
next
  case (step g g')
  show ?case by (rule log_run_step [OF step(2,3)])
qed

text \<open>Without Redis, Redis stays out of it.\<close>

lemma no_redis_reach:
  assumes "gateway_reach x env s g"
  shows "(rlm_redis (s_rateLimiter (gw_server g)) = None \<longleftrightarrow> rlm_redis (s_rateLimiter s) = None) \<and>
    (rlm_redis (s_rateLimiter s) = None \<longrightarrow> gw_redis_log g = [])"
  using assms
proof (induction rule: gateway_reach.induct)
  case (step g g')
  from step(2) show ?case
  proof cases
    case (run i t mo s' t')
    with step(3) advance_redis(2) [OF run(6)] show ?thesis
      by (auto simp: redis_logged_def at_redis_def split: phase.splits)
  qed (use step(3) in \<open>simp_all add: loop_step_kept(1) clean_limiter_def RL_clean_def Server_Shutdown_def Let_def\<close>)
qed (simp add: new_gateway_def)

subsection \<open>The handlers behind the logs\<close>

text \<open>A handler is at each back end once.\<close>

definition logged_once :: "('k, 'r) gateway \<Rightarrow> bool" where
  "logged_once g \<longleftrightarrow> (\<forall>b. distinct (map le_task (backend_log b g)))"

text \<open>Every entry is the hit of a handler that has left the back end.\<close>

definition entry_source ::
  "('k, 'pe) externals \<Rightarrow> ('k, 'r) Server \<Rightarrow> ('k, 'r) gateway \<Rightarrow> backend \<Rightarrow> limit_entry \<Rightarrow> bool" where
  "entry_source x s g b e \<longleftrightarrow> (\<exists>t route lmt now.
     gw_tasks g (le_task e) = Some t \<and> phase_rank (tk_phase t) < backend_rank b \<and>
     tk_route t = Some route \<and> route \<in> set (ro_routes (s_router s)) \<and> limit_cfg route = Some lmt \<and>
     le_hit e = limit_hit (backend_key b) route lmt (auth_request x s (tk_request t) route) now)"

text \<open>Every handler past the limiter of a limited route has an admitted entry.\<close>

definition has_entry :: "('k, 'pe) externals \<Rightarrow> ('k, 'r) Server \<Rightarrow> ('k, 'r) gateway \<Rightarrow> nat \<Rightarrow> task \<Rightarrow> bool" where
  "has_entry x s g i t \<longleftrightarrow> (\<forall>route lmt.
     past_limiter t \<and> tk_route t = Some route \<and> limit_cfg route = Some lmt \<longrightarrow>
     (\<exists>b now. \<lparr>le_task = i, le_hit = limit_hit (backend_key b) route lmt (auth_request x s (tk_request t) route) now,
             le_allowed = True\<rparr> \<in> set (backend_log b g)))"

definition log_tasks :: "('k, 'pe) externals \<Rightarrow> ('k, 'r) Server \<Rightarrow> ('k, 'r) gateway \<Rightarrow> bool" where
  "log_tasks x s g \<longleftrightarrow> logged_once g \<and> (\<forall>b. \<forall>e \<in> set (backend_log b g). entry_source x s g b e) \<and>
     (\<forall>i t. gw_tasks g i = Some t \<longrightarrow> has_entry x s g i t)"

lemma log_tasksD:
  assumes "log_tasks x s g"
  shows "distinct (map le_task (backend_log b g))"
    and "e \<in> set (backend_log b g) \<Longrightarrow> entry_source x s g b e"
    and "e \<in> set (backend_log b g) \<Longrightarrow> \<exists>t. gw_tasks g (le_task e) = Some t \<and> phase_rank (tk_phase t) < backend_rank b"
    and "gw_tasks g i = Some t \<Longrightarrow> has_entry x s g i t"
proof -
  show "distinct (map le_task (backend_log b g))" "gw_tasks g i = Some t \<Longrightarrow> has_entry x s g i t"
    using assms by (simp_all add: log_tasks_def logged_once_def)
  show source: "e \<in> set (backend_log b g) \<Longrightarrow> entry_source x s g b e"
    using assms by (simp add: log_tasks_def)
  assume "e \<in> set (backend_log b g)"
  then have "entry_source x s g b e" by (rule source)
  then show "\<exists>t. gw_tasks g (le_task e) = Some t \<and> phase_rank (tk_phase t) < backend_rank b"
    unfolding entry_source_def by blast
qed

text \<open>A call that does not reach Redis has no answer.\<close>

definition down_fails :: "(('e, 'r) moment \<Rightarrow> bool) \<Rightarrow> bool" where
  "down_fails env \<longleftrightarrow> (\<forall>mo key limit window r. env mo \<and> mo_net mo = NetDown \<longrightarrow>
     isl (fst (mo_redis mo key limit window r)))"

lemma RL_redis_answer:
  assumes "fst (RL_redis run rl rid client lmt) = Some a"
  shows "rlm_redis rl \<noteq> None" "\<exists>key limit window r. \<not> isl (fst (run key limit window r))"
  using assms
  by (auto simp: RL_redis_def CheckRateLimit_def CheckRateLimit_key_def Let_def
      split: option.splits sum.splits prod.splits) (metis fst_conv sum.disc(2))+

lemma new_entry:
  assumes "e \<in> set (new_entries b mo i s0 t t')" "task_ok x s s0 t (tk_phase t)"
    and "advance x mo (s0, t) = (s', t')"
  shows "le_task e = i" "phase_rank (tk_phase t) = backend_rank b"
    and "\<exists>route lmt now. limit_cfg route = Some lmt \<and> tk_route t' = Some route \<and> route \<in> set (ro_routes (s_router s)) \<and>
      le_hit e = limit_hit (backend_key b) route lmt (auth_request x s (tk_request t') route) now"
proof -
  from assms(1) have at: "le_task e = i \<and> phase_rank (tk_phase t) = backend_rank b \<and>
      (\<exists>route lmt now r. (tk_phase t = AtLimit route r \<or> tk_phase t = AtFallback route lmt r) \<and>
        (tk_phase t = AtLimit route r \<longrightarrow> limit_cfg route = Some lmt) \<and>
        le_hit e = limit_hit (backend_key b) route lmt r now)"
  proof (cases b)
    case Memory
    with assms(1) obtain route lmt r where "tk_phase t = AtFallback route lmt r"
      "e = \<lparr>le_task = i, le_hit = limit_hit memory_key route lmt r (mo_limit_now mo),
        le_allowed = (tk_phase t' = AtPick route r)\<rparr>"
      by (cases "tk_phase t") (auto simp: logged_def)
    with Memory show ?thesis by auto
  next
    case Redis
    with assms(1) have e: "e \<in> set (redis_logged mo i s0 t t')" by simp
    have "at_redis s0 t" by (rule ccontr) (use e in \<open>simp add: redis_logged_def\<close>)
    then obtain route r lmt where at: "tk_phase t = AtLimit route r" "limit_cfg route = Some lmt"
      by (cases "tk_phase t") (auto simp: at_redis_def)
    with e have "e = \<lparr>le_task = i, le_hit = limit_hit redis_key route lmt r (mo_redis_ms mo),
        le_allowed = (tk_phase t' = AtPick route r)\<rparr>"
      by (cases "mo_net mo = NetDown") (simp_all add: redis_logged_def \<open>at_redis s0 t\<close>)
    with at have "tk_phase t = AtLimit route r" "limit_cfg route = Some lmt" "le_task e = i"
      "le_hit e = limit_hit redis_key route lmt r (mo_redis_ms mo)" by simp_all
    with Redis show ?thesis by auto
  qed
  then show "le_task e = i" "phase_rank (tk_phase t) = backend_rank b" by blast+
  from at obtain route lmt now r where e: "tk_phase t = AtLimit route r \<or> tk_phase t = AtFallback route lmt r"
    "tk_phase t = AtLimit route r \<longrightarrow> limit_cfg route = Some lmt"
    "le_hit e = limit_hit (backend_key b) route lmt r now" by blast
  with assms(2) have c: "cleared x s t route r" "limit_cfg route = Some lmt" by auto
  then have "route \<in> set (ro_routes (s_router s))" "r = auth_request x s (tk_request t') route"
    using Match_in_table [of "s_router s" "tk_request t" route] advance_task(1) [OF assms(3)]
    by (simp_all add: cleared_def)
  moreover have "tk_route t' = Some route"
    using c(1) e(1) advance_task(2) [OF assms(3)] by (auto simp: cleared_def)
  ultimately show "\<exists>route lmt now. limit_cfg route = Some lmt \<and> tk_route t' = Some route \<and> route \<in> set (ro_routes (s_router s)) \<and>
      le_hit e = limit_hit (backend_key b) route lmt (auth_request x s (tk_request t') route) now"
    using c(2) e(3) by blast
qed

lemma new_entries_at_most_one: "new_entries b mo i s t t' = [] \<or> (\<exists>e. new_entries b mo i s t t' = [e] \<and> le_task e = i)"
  by (cases b) (auto simp: logged_def redis_logged_def split: phase.splits option.splits)

lemma logged_once_run:
  assumes "log_tasks x s g" "gw_tasks g i = Some t" "task_ok x s (gw_server g) t (tk_phase t)"
    and "advance x mo (gw_server g, t) = (s', t')"
  shows "logged_once (run_gateway x mo i t s' t' g)"
proof -
  have "distinct (map le_task (backend_log b g @ new_entries b mo i (gw_server g) t t'))" for b
  proof (cases "new_entries b mo i (gw_server g) t t'")
    case Nil
    with assms(1) show ?thesis by (simp add: log_tasks_def logged_once_def)
  next
    case (Cons e es)
    then have rank: "phase_rank (tk_phase t) = backend_rank b" using new_entry(2) [OF _ assms(3,4), of e b i] by simp
    have "i \<notin> set (map le_task (backend_log b g))"
      using log_tasksD(3) [OF assms(1), of _ b] assms(2) rank by fastforce
    moreover have "es = []" "le_task e = i" using new_entries_at_most_one [of b mo i "gw_server g" t t'] Cons by auto
    ultimately show ?thesis using assms(1) Cons by (auto simp: log_tasks_def logged_once_def)
  qed
  then show ?thesis by (simp add: logged_once_def)
qed

lemma entry_source_run:
  assumes "log_tasks x s g" "gw_tasks g i = Some t" "task_ok x s (gw_server g) t (tk_phase t)"
    and "advance x mo (gw_server g, t) = (s', t')" "e \<in> set (backend_log b (run_gateway x mo i t s' t' g))"
  shows "entry_source x s (run_gateway x mo i t s' t' g) b e"
proof -
  note adv = advance_task [OF assms(4)]
  consider "e \<in> set (backend_log b g)" | "e \<in> set (new_entries b mo i (gw_server g) t t')"
    using assms(5) by auto
  then show ?thesis
  proof cases
    case 1
    with assms(1) obtain u route lmt now where e: "gw_tasks g (le_task e) = Some u"
      "phase_rank (tk_phase u) < backend_rank b" "tk_route u = Some route"
      "route \<in> set (ro_routes (s_router s))" "limit_cfg route = Some lmt"
      "le_hit e = limit_hit (backend_key b) route lmt (auth_request x s (tk_request u) route) now"
      unfolding log_tasks_def entry_source_def by blast
    have "tk_phase u \<noteq> AtRoute" using e(2) by (cases b) auto
    show ?thesis
      unfolding entry_source_def
      by (rule exI [of _ "if le_task e = i then t' else u"], rule exI [of _ route], rule exI [of _ lmt],
          rule exI [of _ now]) (use e assms(2) adv(1,2,4) \<open>tk_phase u \<noteq> AtRoute\<close> in auto)
  next
    case 2
    note e = new_entry [OF 2 assms(3,4)]
    from e(3) obtain route lmt now where r: "limit_cfg route = Some lmt" "tk_route t' = Some route" "route \<in> set (ro_routes (s_router s))"
      "le_hit e = limit_hit (backend_key b) route lmt (auth_request x s (tk_request t') route) now" by blast
    have "\<not> finished t" using e(2) by (cases b) (simp_all add: finished_def)
    then have "phase_rank (tk_phase t') < backend_rank b" using adv(5) e(2) by simp
    with r e(1) show ?thesis
      unfolding entry_source_def
      by (intro exI [of _ t'] exI [of _ route] exI [of _ lmt] exI [of _ now]) simp
  qed
qed

lemma has_entry_run:
  assumes "has_entry x s g i t" "task_ok x s (gw_server g) t (tk_phase t)"
    and "advance x mo (gw_server g, t) = (s', t')"
    and "mo_net mo = NetDown \<Longrightarrow> rlm_redis (s_rateLimiter (gw_server g)) = None \<or>
      (\<forall>key limit window r. isl (fst (mo_redis mo key limit window r)))"
  shows "has_entry x s (run_gateway x mo i t s' t' g) i t'"
  unfolding has_entry_def
proof (intro allI impI)
  fix route lmt
  assume u: "past_limiter t' \<and> tk_route t' = Some route \<and> limit_cfg route = Some lmt"
  note adv = advance_task [OF assms(3)]
  let ?E = "\<lambda>b now. \<lparr>le_task = i, le_hit = limit_hit (backend_key b) route lmt
      (auth_request x s (tk_request t') route) now, le_allowed = True\<rparr>"
  show "\<exists>b now. ?E b now \<in> set (backend_log b (run_gateway x mo i t s' t' g))"
  proof (cases "past_limiter t")
    case True
    then have "tk_phase t \<noteq> AtRoute" using assms(2) by (auto simp: past_limiter_def unsent_def)
    with True u adv(2) assms(1) obtain b now where
      "\<lparr>le_task = i, le_hit = limit_hit (backend_key b) route lmt (auth_request x s (tk_request t) route) now,
        le_allowed = True\<rparr> \<in> set (backend_log b g)"
      unfolding has_entry_def by metis
    then show ?thesis using adv(1) by (intro exI [of _ b] exI [of _ now]) simp
  next
    case False
    with adv(3) u obtain rt r where r: "tk_phase t = AtLimit rt r \<or> (\<exists>l. tk_phase t = AtFallback rt l r)"
      "tk_phase t' = AtPick rt r" by auto
    then have c: "cleared x s t rt r" using assms(2) by auto
    with r adv(2) u have rt: "rt = route" "r = auth_request x s (tk_request t') route"
      using adv(1) by (auto simp: cleared_def)
    from r(1) show ?thesis
    proof (elim disjE exE)
      fix l assume at: "tk_phase t = AtFallback rt l r"
      then have "l = lmt" using assms(2) u rt by simp
      then have "?E Memory (mo_limit_now mo) \<in> set (logged mo i t t')"
        using at r(2) rt by (simp add: logged_def)
      then show ?thesis by (intro exI [of _ Memory] exI [of _ "mo_limit_now mo"]) simp
    next
      assume at: "tk_phase t = AtLimit rt r"
      with u rt have cfg: "limit_cfg rt = Some lmt" by simp
      from advance_at_limit(2) [OF assms(3) at cfg] r(2) obtain a where
        "fst (RL_redis (mo_redis mo) (s_rateLimiter (gw_server g)) (rt_ID rt) (client_id r rt) lmt) = Some a"
        by blast
      note a = RL_redis_answer [OF this]
      with assms(4) have "mo_net mo \<noteq> NetDown" by blast
      with at a(1) cfg r(2) rt have "?E Redis (mo_redis_ms mo) \<in> set (redis_logged mo i (gw_server g) t t')"
        by (simp add: redis_logged_def at_redis_def)
      then show ?thesis by (intro exI [of _ Redis] exI [of _ "mo_redis_ms mo"]) simp
    qed
  qed
qed

lemma log_tasks_step:
  assumes "gateway_step x env g g'" "log_tasks x s g"
    and "\<And>i t. gw_tasks g i = Some t \<Longrightarrow> task_ok x s (gw_server g) t (tk_phase t)"
    and "down_fails env \<or> rlm_redis (s_rateLimiter (gw_server g)) = None"
  shows "log_tasks x s g'"
  using assms(1)
proof cases
  case (arrive i w r)
  have "gw_tasks g' (le_task e) = gw_tasks g (le_task e)" if "e \<in> set (backend_log b g)" for b e
    using log_tasksD(3) [OF assms(2) that] arrive(1,2) by auto
  moreover have "\<not> past_limiter (new_task w r)" by (simp add: past_limiter_def new_task_def)
  ultimately show ?thesis
    using assms(2) arrive(1)
    by (auto simp: log_tasks_def logged_once_def entry_source_def has_entry_def split: if_splits)
next
  case (run i t mo s' t')
  note ok = assms(3) [OF run(2)]
  show ?thesis
    unfolding log_tasks_def
  proof (intro conjI allI impI ballI)
    show "logged_once g'" unfolding run(1) by (rule logged_once_run [OF assms(2) run(2) ok run(6)])
    show "entry_source x s g' b e" if "e \<in> set (backend_log b g')" for b e
      using that unfolding run(1) by (rule entry_source_run [OF assms(2) run(2) ok run(6)])
    show "has_entry x s g' j u" if u: "gw_tasks g' j = Some u" for j u
    proof (cases "j = i")
      case True
      have "has_entry x s g i t" using assms(2) run(2) by (simp add: log_tasks_def)
      from has_entry_run [OF this ok run(6)] assms(4) run(3) True u show ?thesis
        by (auto simp: run(1) down_fails_def)
    next
      case False
      with assms(2) u have "has_entry x s g j u" by (simp add: log_tasks_def run(1))
      then show ?thesis unfolding has_entry_def run(1) by fastforce
    qed
  qed
qed (use assms(2) in \<open>simp_all add: log_tasks_def logged_once_def entry_source_def has_entry_def\<close>)

lemma log_tasks_reach:
  assumes "gateway_reach x env s g" "server_ok s" "down_fails env \<or> rlm_redis (s_rateLimiter s) = None"
  shows "log_tasks x s g"
  using assms(1)
proof (induction rule: gateway_reach.induct)
  case (start now ms)
  have "gw_tasks (new_gateway s now ms) = Map.empty" by (simp add: new_gateway_def)
  then show ?case by (simp add: log_tasks_def logged_once_def)
next
  case (step g g')
  show ?case
  proof (rule log_tasks_step [OF step(2,3)])
    show "down_fails env \<or> rlm_redis (s_rateLimiter (gw_server g)) = None"
      using assms(3) no_redis_reach [OF step(1)] by auto
  qed (rule tasks_ok_reach [OF step(1) assms(2)])
qed

subsection \<open>The limit\<close>

text \<open>The forwarded requests of a client of a route that a back end admitted in an interval.\<close>

definition forwarded_between ::
  "backend \<Rightarrow> ('k, 'pe) externals \<Rightarrow> ('k, 'r) Server \<Rightarrow> ('k, 'r) gateway \<Rightarrow> Route \<Rightarrow> string \<Rightarrow> int \<Rightarrow> int
     \<Rightarrow> nat set" where
  "forwarded_between b x s g route client t T =
     {i. \<exists>u e. gw_tasks g i = Some u \<and> tk_forwarded u \<noteq> None \<and> tk_route u = Some route \<and>
        client_id (auth_request x s (tk_request u) route) route = client \<and>
        e \<in> set (backend_log b g) \<and> le_task e = i \<and> le_allowed e \<and>
        t \<le> rh_time (le_hit e) \<and> rh_time (le_hit e) < T}"

text \<open>Route IDs that tell the counters of different routes apart.\<close>

definition plain_ids :: "Route list \<Rightarrow> bool" where
  "plain_ids routes \<longleftrightarrow> distinct (map rt_ID routes) \<and> list_all (\<lambda>r. CHR '':'' \<notin> set (rt_ID r)) routes"

lemma plain_ids_key:
  assumes "plain_ids routes" "r \<in> set routes" "r' \<in> set routes"
    and "backend_key b (rt_ID r) c = backend_key b (rt_ID r') c'"
  shows "r = r'"
proof -
  have "rt_ID r = rt_ID r'"
    using rate_key_inj [of "rt_ID r" c "rt_ID r'" c'] assms
    by (cases b) (auto simp: memory_key_def redis_key_def plain_ids_def list_all_iff)
  with assms(1-3) show ?thesis by (auto simp: plain_ids_def distinct_map dest: inj_onD)
qed

lemma entry_of_task:
  assumes "log_tasks x s g" "e \<in> set (backend_log b g)" "gw_tasks g (le_task e) = Some u" "tk_route u = Some route"
  shows "rh_key (le_hit e) = backend_key b (rt_ID route) (client_id (auth_request x s (tk_request u) route) route)"
  using assms unfolding log_tasks_def entry_source_def by (fastforce simp: limit_hit_def)

lemma forwarded_logged:
  assumes "log_tasks x s g" "gw_tasks g i = Some u" "tk_forwarded u \<noteq> None" "tk_route u = Some route"
    and "limit_cfg route = Some lmt"
  shows "\<exists>b. \<exists>e \<in> set (backend_log b g). le_task e = i \<and> le_allowed e"
proof -
  have "past_limiter u" using assms(3) by (simp add: past_limiter_def)
  with assms obtain b now where
    "\<lparr>le_task = i, le_hit = limit_hit (backend_key b) route lmt (auth_request x s (tk_request u) route) now,
      le_allowed = True\<rparr> \<in> set (backend_log b g)"
    unfolding log_tasks_def has_entry_def by blast
  then show ?thesis by (intro exI [of _ b], elim bexI [rotated]) simp
qed

text \<open>The entries of a client of a route carry the route's limit.\<close>

lemma entries_of_route:
  assumes "log_tasks x s g" "plain_ids (ro_routes (s_router s))"
    and "route \<in> set (ro_routes (s_router s))" "limit_cfg route = Some lmt"
  shows "\<forall>e \<in> set (backend_log b g). rh_key (le_hit e) = backend_key b (rt_ID route) client \<longrightarrow>
    rh_limit (le_hit e) = rl_Requests lmt \<and> rh_window (le_hit e) = rl_Window lmt"
proof (intro ballI impI)
  fix e
  assume e: "e \<in> set (backend_log b g)" "rh_key (le_hit e) = backend_key b (rt_ID route) client"
  with assms(1) obtain u :: task and route' lmt' now where
    o: "route' \<in> set (ro_routes (s_router s))" "limit_cfg route' = Some lmt'"
    "le_hit e = limit_hit (backend_key b) route' lmt' (auth_request x s (tk_request u) route') now"
    unfolding log_tasks_def entry_source_def by blast
  with e(2) plain_ids_key [OF assms(2) o(1) assms(3)] have "route' = route"
    by (simp add: limit_hit_def)
  with o assms(4) show "rh_limit (le_hit e) = rl_Requests lmt \<and> rh_window (le_hit e) = rl_Window lmt"
    by (simp add: limit_hit_def)
qed

lemma log_length:
  assumes "log_tasks x s g" "finite (dom (gw_tasks g))"
  shows "length (backend_log b g) \<le> card (dom (gw_tasks g))"
proof -
  have "length (backend_log b g) = card (set (map le_task (backend_log b g)))"
    using log_tasksD(1) [OF assms(1)] distinct_card [of "map le_task (backend_log b g)"] by simp
  also have "\<dots> \<le> card (dom (gw_tasks g))"
    using assms(2) log_tasksD(3) [OF assms(1)] by (intro card_mono) auto
  finally show ?thesis .
qed

text \<open>The forwarded requests of a client in an interval are among its admitted entries there.\<close>

lemma forwarded_between_card:
  assumes "log_tasks x s g" "limit_cfg route = Some lmt"
  shows "card (forwarded_between b x s g route client t T) \<le>
    length (filter (\<lambda>e. (rh_key (le_hit e) = backend_key b (rt_ID route) client \<and> le_allowed e) \<and>
      t \<le> rh_time (le_hit e) \<and> rh_time (le_hit e) < T) (backend_log b g))" (is "_ \<le> length ?es")
proof -
  have "forwarded_between b x s g route client t T \<subseteq> le_task ` set ?es"
  proof
    fix i
    assume "i \<in> forwarded_between b x s g route client t T"
    then obtain u e where u: "gw_tasks g i = Some u" "tk_forwarded u \<noteq> None" "tk_route u = Some route"
      "client_id (auth_request x s (tk_request u) route) route = client"
      "e \<in> set (backend_log b g)" "le_task e = i" "le_allowed e"
      "t \<le> rh_time (le_hit e)" "rh_time (le_hit e) < T"
      by (auto simp: forwarded_between_def)
    have "rh_key (le_hit e) = backend_key b (rt_ID route) client"
      using entry_of_task [OF assms(1) u(5)] u assms(2) by auto
    with u show "i \<in> le_task ` set ?es" by (intro image_eqI [of _ _ e]) auto
  qed
  then have "card (forwarded_between b x s g route client t T) \<le> card (le_task ` set ?es)"
    by (rule card_mono [rotated]) simp
  also have "\<dots> \<le> length ?es" by (rule order_trans [OF card_image_le card_length]) simp
  finally show ?thesis .
qed

text \<open>The bound for one back end whose log is a run of a window counter.\<close>

lemma forwarded_bound:
  assumes "log_tasks x s g" "plain_ids (ro_routes (s_router s))" "card (dom (gw_tasks g)) \<le> n"
    and "finite (dom (gw_tasks g))" "route \<in> set (ro_routes (s_router s))" "limit_cfg route = Some lmt"
    and "limit_ok (rl_Requests lmt)" "0 < win (rl_Window lmt)"
    and "window_counter hit live until room win" "room n st"
    and "log_agrees hit (backend_log b g) st" "timed (backend_log b g) now"
  shows "int (card (forwarded_between b x s g route client t (t + win (rl_Window lmt)))) \<le> 2 * rl_Requests lmt"
proof -
  have "length (backend_log b g) \<le> n" using log_length [OF assms(1,4), of b] assms(3) by simp
  then have "room (length (backend_log b g)) st" by (rule window_counter.inv_less [OF assms(9,10)])
  from window_counter.log_bound [OF assms(9,11) _ this assms(7,8) entries_of_route [OF assms(1,2,5,6)], of client t]
    assms(12) forwarded_between_card [OF assms(1,6), of b client t "t + win (rl_Window lmt)"]
  show ?thesis by (simp add: timed_def)
qed

text \<open>
  C10: The rate limit holds under concurrency. On a server without Redis whose route IDs are
  distinct and have no colon, however the goroutines and the cleanup are interleaved: every
  forwarded request of a limited route was admitted by the in-memory limiter, and of the
  requests of one client that it admitted within one window's length, at most twice the limit
  are forwarded.
\<close>

theorem concurrent_limit:
  assumes "gateway_reach x env s g" "server_ok s" "s_rateLimiter s = NewRateLimiter None"
    and "plain_ids (ro_routes (s_router s))" "card (dom (gw_tasks g)) \<le> 9007199254740992"
    and "route \<in> set (ro_routes (s_router s))" "limit_cfg route = Some lmt"
    and "limit_ok (rl_Requests lmt)" "0 < rl_Window lmt"
  shows "(\<forall>i u. gw_tasks g i = Some u \<and> tk_forwarded u \<noteq> None \<and> tk_route u = Some route \<longrightarrow>
      (\<exists>e \<in> set (gw_log g). le_task e = i \<and> le_allowed e)) \<and>
    int (card (forwarded_between Memory x s g route client t (t + rl_Window lmt))) \<le> 2 * rl_Requests lmt"
proof -
  have redis: "rlm_redis (s_rateLimiter s) = None" "rlm_memory (s_rateLimiter s) = Map.empty"
    using assms(3) by (simp_all add: NewRateLimiter_def newMemoryLimiter_def)
  have run: "log_agrees mem_hit (gw_log g) Map.empty" "timed (gw_log g) (gw_clock g)"
    using log_run_reach [OF assms(1)] by (simp_all add: log_run_def redis(2))
  have tasks: "log_tasks x s g" by (rule log_tasks_reach [OF assms(1,2)]) (simp add: redis(1))
  have "gw_redis_log g = []" using no_redis_reach [OF assms(1)] redis(1) by simp
  then have "\<exists>e \<in> set (gw_log g). le_task e = i \<and> le_allowed e"
    if "gw_tasks g i = Some u" "tk_forwarded u \<noteq> None" "tk_route u = Some route" for i u
    using forwarded_logged [OF tasks that assms(7)] by (metis backend.exhaust backend_log.simps empty_iff empty_set)
  moreover have "mem_inv 9007199254740992 Map.empty" by (simp add: mem_inv_def max_int64_def)
  note forwarded_bound [OF tasks assms(4,5) finite_tasks [OF assms(1)] assms(6,7,8), where win = "\<lambda>w. w" and b = Memory
        and hit = mem_hit and live = mem_count and until = mem_ends and room = mem_inv and st = Map.empty,
      OF assms(9) mem.window_counter_axioms this, unfolded backend_log.simps, OF run]
  ultimately show ?thesis by blast
qed

lemma concurrent_limit_witness:
  "\<exists>g v. gateway_reach demo_externals (\<lambda>mo :: (unit, redis_map) moment. True) demo_server g \<and>
     (let F = forwarded_between Memory demo_externals demo_server g open_route
        (client_id (auth_request demo_externals demo_server open_request open_route) open_route)
        v (v + 60000000000)
      in 0 \<in> F \<and> card F \<le> 2)"
proof -
  let ?client = "client_id (auth_request demo_externals demo_server open_request open_route) open_route"
  obtain g t where g: "gateway_reach demo_externals (\<lambda>mo :: (unit, redis_map) moment. True) demo_server g"
    "gw_tasks g = [0 \<mapsto> t]" "tk_forwarded t \<noteq> None" "tk_request t = open_request" "tk_route t = Some open_route"
    using demo_gateway_request by blast
  have "plain_ids [open_route, closed_route]" by code_simp
  then have "plain_ids (ro_routes (s_router demo_server))" "open_route \<in> set (ro_routes (s_router demo_server))"
    by (simp_all add: New_Server_simps [OF demo_New] New_Router_def demo_config_def)
  moreover have "card (dom (gw_tasks g)) \<le> 9007199254740992" by (simp add: g(2))
  moreover have "s_rateLimiter demo_server = NewRateLimiter None"
    by (simp add: demo_facts(4) NewRateLimiter_def)
  moreover have "limit_cfg open_route =
      Some \<lparr>rl_Enabled = True, rl_Requests = 1, rl_Window = 60000000000, rl_PerClient = True\<rparr>"
    by (simp add: limit_cfg_def open_route_def sample_route_def)
  ultimately have limit: "(\<forall>i u. gw_tasks g i = Some u \<and> tk_forwarded u \<noteq> None \<and> tk_route u = Some open_route \<longrightarrow>
        (\<exists>e \<in> set (gw_log g). le_task e = i \<and> le_allowed e)) \<and>
      card (forwarded_between Memory demo_externals demo_server g open_route ?client v (v + 60000000000)) \<le> 2" for v
    using concurrent_limit [OF g(1) demo_server_ok, of open_route
        "\<lparr>rl_Enabled = True, rl_Requests = 1, rl_Window = 60000000000, rl_PerClient = True\<rparr>" ?client v]
    by (simp add: limit_ok_def)
  from limit [of 0, THEN conjunct1, rule_format, of 0 t] g(2,3,5) obtain e where
    e: "e \<in> set (gw_log g)" "le_task e = 0" "le_allowed e" by auto
  let ?v = "rh_time (le_hit e)"
  have "0 \<in> forwarded_between Memory demo_externals demo_server g open_route ?client ?v (?v + 60000000000)"
    unfolding forwarded_between_def
    by (intro CollectI exI [of _ t] exI [of _ e]) (simp add: g(2-5) e)
  then show ?thesis
    unfolding Let_def using g(1) limit [of ?v] by (intro exI [of _ g] exI [of _ ?v] conjI) (elim conjE, assumption)+
qed

end
