(* ===== verification/Gateway_Failover.thy ===== *)
theory Gateway_Failover
  imports Gateway_Limits
begin

text \<open>
  The rate limit under concurrency while the Redis connection comes and goes: calls are answered,
  executed without an answer, or never sent, in any order and interleaved in any way with the
  fallbacks of other requests. \<open>redis_env\<close> says that the moments describe such a connection;
  what the Redis server promises is \<open>redis_laws\<close> of theory \<open>Redis_Limit\<close>.
\<close>

definition redis_env :: "'r redis_cmds \<Rightarrow> ((unit, 'r) moment \<Rightarrow> bool) \<Rightarrow> bool" where
  "redis_env cmds env \<longleftrightarrow> (\<forall>mo. env mo \<longrightarrow> mo_redis mo = net_run cmds (mo_redis_ms mo) (mo_net mo))"

lemma redis_env_down: "redis_env cmds env \<Longrightarrow> down_fails env"
  by (auto simp: redis_env_def down_fails_def)

subsection \<open>The log of Redis\<close>

text \<open>A call that reaches the server is one hit of its counter, and admits only what the counter admits.\<close>

lemma RL_redis_hit:
  assumes "rlm_redis rl = Some r" "net \<noteq> NetDown"
  shows "rlm_redis (snd (RL_redis (net_run cmds ms net) rl rid client lmt)) =
      Some (snd (redis_hit cmds (redis_key rid client) (rl_Requests lmt) (rl_Window lmt) ms r))"
    and "fst (RL_redis (net_run cmds ms net) rl rid client lmt) = Some a \<Longrightarrow> fst a \<Longrightarrow>
      fst (fst (redis_hit cmds (redis_key rid client) (rl_Requests lmt) (rl_Window lmt) ms r))"
proof -
  let ?check = "CheckRateLimit (net_run cmds ms net) rid client (rl_Requests lmt) (rl_Window lmt) r"
  let ?hit = "redis_hit cmds (redis_key rid client) (rl_Requests lmt) (rl_Window lmt) ms r"
  have "snd ?check = snd ?hit \<and> (\<forall>a. fst ?check = Inr a \<longrightarrow> fst ?hit = (fst a, fst (snd a)))"
  proof (cases net)
    case NetOk
    then have "?check = CheckRateLimit_key (script_run cmds ms) (redis_key rid client) (rl_Requests lmt) (rl_Window lmt) r"
      by (simp add: CheckRateLimit_def CheckRateLimit_key_def redis_key_def)
    then show ?thesis by (auto simp: redis_hit_def split: prod.split sum.split)
  next
    case NetLost
    then show ?thesis by (simp add: check_lost)
  qed (use assms(2) in simp)
  then show "rlm_redis (snd (RL_redis (net_run cmds ms net) rl rid client lmt)) = Some (snd ?hit)"
    "fst (RL_redis (net_run cmds ms net) rl rid client lmt) = Some a \<Longrightarrow> fst a \<Longrightarrow> fst (fst ?hit)"
    using assms(1) by (auto simp: RL_redis_def split: prod.splits sum.splits)
qed

lemma RL_redis_down:
  "rlm_redis (snd (RL_redis (net_run cmds ms NetDown) rl rid client lmt)) = rlm_redis rl"
  by (simp add: RL_redis_def check_down split: option.split)

definition redis_run :: "'r redis_cmds \<Rightarrow> 'r \<Rightarrow> ('k, 'r) gateway \<Rightarrow> bool" where
  "redis_run cmds r g \<longleftrightarrow>
     rlm_redis (s_rateLimiter (gw_server g)) = Some (snd (run_hits (redis_hit cmds) (log_hits (gw_redis_log g)) r)) \<and>
     log_agrees (redis_hit cmds) (gw_redis_log g) r \<and> timed (gw_redis_log g) (gw_redis_clock g)"

lemma redis_run_hit:
  assumes inv: "redis_run cmds r g" and adv: "advance x mo (gw_server g, t) = (s', t')"
    and at: "at_redis (gw_server g) t" and now: "gw_redis_clock g \<le> mo_redis_ms mo"
    and net: "mo_redis mo = net_run cmds (mo_redis_ms mo) (mo_net mo)"
  shows "redis_run cmds r (run_gateway x mo i t s' t' g)"
proof -
  from at obtain route rq lmt where ph: "tk_phase t = AtLimit route rq" "limit_cfg route = Some lmt"
    by (cases "tk_phase t") (auto simp: at_redis_def)
  let ?r = "snd (run_hits (redis_hit cmds) (log_hits (gw_redis_log g)) r)"
  from inv have inv: "rlm_redis (s_rateLimiter (gw_server g)) = Some ?r"
    "log_agrees (redis_hit cmds) (gw_redis_log g) r" "timed (gw_redis_log g) (gw_redis_clock g)"
    by (simp_all add: redis_run_def)
  note step = advance_at_limit [OF adv ph, unfolded net]
  show ?thesis
  proof (cases "mo_net mo = NetDown")
    case True
    with at step(1) inv timed_later [OF inv(3) now] show ?thesis
      by (simp add: redis_run_def redis_logged_def RL_redis_down)
  next
    case False
    let ?e = "\<lparr>le_task = i, le_hit = limit_hit redis_key route lmt rq (mo_redis_ms mo),
      le_allowed = (tk_phase t' = AtPick route rq)\<rparr>"
    have entry: "redis_logged mo i (gw_server g) t t' = [?e]" using at ph False by (simp add: redis_logged_def)
    note hit = RL_redis_hit [OF inv(1) False, where cmds = cmds and ms = "mo_redis_ms mo"
        and rid = "rt_ID route" and client = "client_id rq route" and lmt = lmt]
    have "timed (gw_redis_log g @ [?e]) (mo_redis_ms mo)"
      using timed_snoc [OF inv(3), of ?e] now by (simp add: limit_hit_def)
    moreover have "log_agrees (redis_hit cmds) (gw_redis_log g @ [?e]) r"
      using inv(2) hit(2) step(2)
      by (auto simp: log_agrees_append log_agrees_Cons log_agrees_def [of _ "[]"] limit_hit_def log_hits_def Let_def)
    ultimately show ?thesis
      using hit(1) step(1) at
      by (simp add: redis_run_def entry log_hits_def run_hits_append limit_hit_def)
  qed
qed

lemma redis_run_step:
  assumes "gateway_step x env g g'" "redis_run cmds r g" "redis_env cmds env"
  shows "redis_run cmds r g'"
  using assms(1)
proof cases
  case (run i t mo s' t')
  show ?thesis
  proof (cases "at_redis (gw_server g) t")
    case True
    have "mo_redis mo = net_run cmds (mo_redis_ms mo) (mo_net mo)"
      using assms(3) run(3) by (simp add: redis_env_def)
    from redis_run_hit [OF assms(2) run(6) True run(5) [OF True] this] show ?thesis by (simp add: run(1))
  next
    case False
    with advance_redis(1) [OF run(6)] assms(2) show ?thesis
      by (simp add: redis_run_def run(1) redis_logged_def)
  qed
qed (use assms(2) in \<open>simp_all add: redis_run_def loop_step_kept(1) clean_limiter_def RL_clean_def
    Server_Shutdown_def Let_def\<close>)

lemma redis_run_reach:
  assumes "gateway_reach x env s g" "redis_env cmds env" "rlm_redis (s_rateLimiter s) = Some r"
  shows "redis_run cmds r g"
  using assms(1)
proof (induction rule: gateway_reach.induct)
  case (start now ms)
  then show ?case by (simp add: redis_run_def log_hits_def log_agrees_def timed_def new_gateway_def assms(3))
next
  case (step g g')
  show ?case by (rule redis_run_step [OF step(2,3) assms(2)])
qed

subsection \<open>The limit\<close>

text \<open>
  C11: The rate limit while Redis comes and goes, under concurrency. On a server with Redis whose
  route IDs are distinct and have no colon, however the goroutines are interleaved and whichever
  calls of Redis are answered, lost or never sent: every forwarded request of a limited route
  was admitted by one of the back ends, and of one client's requests that Redis admitted within
  one window of its clock, or the fallback within one window of the gateway's, at most four
  times the limit are forwarded, twice the limit by each.
\<close>

theorem concurrent_failover:
  assumes "gateway_reach x env s g" "server_ok s" "s_rateLimiter s = NewRateLimiter (Some r)"
    and "redis_laws cmds db expired" "redis_env cmds env" "red_inv db n r" "card (dom (gw_tasks g)) \<le> n"
    and "plain_ids (ro_routes (s_router s))"
    and "route \<in> set (ro_routes (s_router s))" "limit_cfg route = Some lmt"
    and "limit_ok (rl_Requests lmt)" "0 < rl_Window lmt" "0 < window_ms (rl_Window lmt)"
  shows "let F = forwarded_between Memory x s g route client t (t + rl_Window lmt);
      R = forwarded_between Redis x s g route client u (u + window_ms (rl_Window lmt)) in
    (\<forall>i v. gw_tasks g i = Some v \<and> tk_forwarded v \<noteq> None \<and> tk_route v = Some route \<longrightarrow>
      (\<exists>b. \<exists>e \<in> set (backend_log b g). le_task e = i \<and> le_allowed e)) \<and>
    int (card F) \<le> 2 * rl_Requests lmt \<and> int (card R) \<le> 2 * rl_Requests lmt \<and>
    int (card (F \<union> R)) \<le> 4 * rl_Requests lmt"
proof -
  let ?F = "forwarded_between Memory x s g route client t (t + rl_Window lmt)"
  let ?R = "forwarded_between Redis x s g route client u (u + window_ms (rl_Window lmt))"
  have init: "rlm_redis (s_rateLimiter s) = Some r" "rlm_memory (s_rateLimiter s) = Map.empty"
    using assms(3) by (simp_all add: NewRateLimiter_def newMemoryLimiter_def)
  have tasks: "log_tasks x s g"
    by (rule log_tasks_reach [OF assms(1,2)]) (simp add: redis_env_down [OF assms(5)])
  have mem: "log_agrees mem_hit (gw_log g) Map.empty" "timed (gw_log g) (gw_clock g)"
    using log_run_reach [OF assms(1)] by (simp_all add: log_run_def init(2))
  have red: "log_agrees (redis_hit cmds) (gw_redis_log g) r" "timed (gw_redis_log g) (gw_redis_clock g)"
    using redis_run_reach [OF assms(1,5) init(1)] by (simp_all add: redis_run_def)
  have "int n \<le> 9007199254740992" using assms(6) by (simp add: red_inv_def)
  then have "mem_inv n Map.empty" by (simp add: mem_inv_def max_int64_def)
  note fin = finite_tasks [OF assms(1)]
  have F: "int (card ?F) \<le> 2 * rl_Requests lmt"
    by (rule forwarded_bound [OF tasks assms(8,7) fin assms(9,10,11), where win = "\<lambda>w. w" and b = Memory
          and hit = mem_hit and live = mem_count and until = mem_ends and room = mem_inv and st = Map.empty,
          OF assms(12) mem.window_counter_axioms \<open>mem_inv n Map.empty\<close>, unfolded backend_log.simps, OF mem])
  have R: "int (card ?R) \<le> 2 * rl_Requests lmt"
    by (rule forwarded_bound [OF tasks assms(8,7) fin assms(9,10,11), where win = window_ms and b = Redis
          and hit = "redis_hit cmds" and live = "red_count db expired" and until = "red_ends db"
          and room = "red_inv db" and st = r,
          OF assms(13) redis_window_counter [OF assms(4)] assms(6), unfolded backend_log.simps, OF red])
  have "card (?F \<union> ?R) \<le> card ?F + card ?R" by (rule card_Un_le)
  with F R have "int (card (?F \<union> ?R)) \<le> 4 * rl_Requests lmt" by linarith
  moreover have "\<exists>b. \<exists>e \<in> set (backend_log b g). le_task e = i \<and> le_allowed e"
    if "gw_tasks g i = Some v" "tk_forwarded v \<noteq> None" "tk_route v = Some route" for i v
    by (rule forwarded_logged [OF tasks that assms(10)])
  ultimately show ?thesis using F R unfolding Let_def by blast
qed

subsection \<open>Witness\<close>

text \<open>The sample server with an empty Redis, one request, and a call that is answered.\<close>

definition redis_server :: "(nat, redis_map) Server" where
  "redis_server = demo_server\<lparr>s_rateLimiter := NewRateLimiter (Some Map.empty)\<rparr>"

definition redis_moment :: "(unit, redis_map) moment" where
  "redis_moment = (demo_moment ok_exchange)
     \<lparr>mo_redis := net_run map_redis 0 NetOk, mo_redis_ms := 0, mo_net := NetOk\<rparr>"

lemma redis_server_ok: "server_ok redis_server"
  by (rule server_ok_cong [OF _ _ _ demo_server_ok]) (simp_all add: redis_server_def)

lemma redis_admits:
  "fst (fst (RL_Allow (net_run map_redis 0 NetOk) 11 12 (NewRateLimiter (Some Map.empty)) open_route
     (client_id open_request open_route)))"
  by code_simp

lemma redis_admit:
  "fst (serve_admit demo_externals redis_moment (serve_begin redis_server) (new_recorder new_writer)
     open_request) =
   Admitted open_route (sample_url ''a'') (open_request\<lparr>rq_target := Some (sample_url ''a'')\<rparr>)"
proof -
  have route: "rt_Auth open_route = None" "rt_ID open_route = ''open''"
    "rt_CircuitBreaker open_route = Some sample_breaker_cfg"
    by (simp_all add: open_route_def sample_route_def)
  have mo: "mo_redis redis_moment = net_run map_redis 0 NetOk" "mo_limit_now redis_moment = 11"
    "mo_limit_until redis_moment = 12" "mo_allow_now redis_moment = 14"
    by (simp_all add: redis_moment_def demo_moment_def)
  have s: "s_router redis_server = s_router demo_server" "s_registry redis_server = s_registry demo_server"
    "s_balancers redis_server = s_balancers demo_server" "s_breakerStore redis_server = s_breakerStore demo_server"
    "s_rateLimiter redis_server = NewRateLimiter (Some Map.empty)"
    by (simp_all add: redis_server_def)
  have ans: "fst (fst (limiter_answer redis_moment (serve_begin redis_server) open_request open_route))"
    using redis_admits by (simp add: limiter_answer_def mo s)
  obtain ok w s' where l: "checkRateLimit demo_externals redis_moment (serve_begin redis_server)
      (new_recorder new_writer) open_request open_route = (ok, w, s')" by (metis prod_cases3)
  have ok using ans l by (auto simp: checkRateLimit_eq Let_def split: option.splits prod.splits if_splits)
  with l have l: "checkRateLimit demo_externals redis_moment (serve_begin redis_server)
      (new_recorder new_writer) open_request open_route = (True, w, s')" by simp
  note s' = checkRateLimit_True [OF l]
  show ?thesis
    using s'(2-4)
    by (simp add: serve_admit_def s demo_facts authenticate_def route l serve_target_def RR_Next_def
        NewRoundRobin_def breaker_check_def breaker_cfg_def sample_breaker_cfg_def GetOrCreate_def
        GetOrCreate_locked_def NewBreakerStore_def NewCircuitBreaker_def Breaker_Allow_def Let_def)
qed

lemma concurrent_failover_witness:
  "\<exists>g b e. gateway_reach demo_externals
       (\<lambda>mo. mo_redis mo = net_run map_redis (mo_redis_ms mo) (mo_net mo)) redis_server g \<and>
     e \<in> set (backend_log b g) \<and> le_task e = 0 \<and> le_allowed e"
proof -
  let ?env = "\<lambda>mo. mo_redis mo = net_run map_redis (mo_redis_ms mo) (mo_net mo)"
  let ?lmt = "\<lparr>rl_Enabled = True, rl_Requests = 1, rl_Window = 60000000000, rl_PerClient = True\<rparr>"
  have env: "?env redis_moment" by (simp add: redis_moment_def)
  have sent: "sv_forwarded (serveRoute demo_externals redis_moment redis_server new_writer open_request) \<noteq> None"
    using sv_forwarded_Admitted [OF redis_admit] demo_proxied by (metis option.distinct(1))
  obtain g t where g: "gateway_reach demo_externals ?env redis_server g" "gw_tasks g = [0 \<mapsto> t]"
    "finished t" "tk_forwarded t \<noteq> None" "tk_request t = open_request"
    using gateway_serves [of ?env redis_moment new_writer demo_externals redis_server open_request] env sent
    by (auto simp: new_writer_def)
  have "task_ok demo_externals redis_server (gw_server g) t (tk_phase t)"
    by (rule tasks_ok_reach [OF g(1) redis_server_ok]) (simp add: g(2))
  with g(3,4) have "gone demo_externals redis_server t" by (auto simp: finished_iff answered_def ended_well_def)
  with g(5) demo_facts(1) have route: "tk_route t = Some open_route"
    by (auto simp: gone_def sent_def cleared_def redis_server_def)
  have "plain_ids [open_route, closed_route]" by code_simp
  then have ids: "plain_ids (ro_routes (s_router redis_server))" "open_route \<in> set (ro_routes (s_router redis_server))"
    by (simp_all add: redis_server_def New_Server_simps [OF demo_New] New_Router_def demo_config_def)
  have cfg: "limit_cfg open_route = Some ?lmt" by (simp add: limit_cfg_def open_route_def sample_route_def)
  have limiter: "s_rateLimiter redis_server = NewRateLimiter (Some Map.empty)" by (simp add: redis_server_def)
  have renv: "redis_env map_redis ?env" by (simp add: redis_env_def)
  have room: "red_inv (\<lambda>r. r) 1 Map.empty" by (simp add: red_inv_def)
  have "\<exists>b. \<exists>e \<in> set (backend_log b g). le_task e = 0 \<and> le_allowed e"
    using concurrent_failover [OF g(1) redis_server_ok limiter map_redis_laws renv room _ ids cfg] g(2,4) route
    by (simp add: limit_ok_def window_ms_def tdiv_def Let_def)
  with g(1) show ?thesis by blast
qed

end
