(* ===== verification/Gateway_Calls.thy ===== *)
theory Gateway_Calls
  imports Gateway_Concurrent
begin

text \<open>
  The verdicts of the gates under concurrency. The log \<open>gw_calls\<close> of theory \<open>Gateway_Concurrent\<close>
  holds every call of the rate limiter and of a circuit breaker, in the order in which they
  happen, with what the limiter or the breaker answered in the state it was called in. Here each
  handler's part of it is tied to where the handler is and to how it ends.
\<close>

subsection \<open>The calls of a handler\<close>

definition calls_by :: "nat \<Rightarrow> ('k, 'r) gateway \<Rightarrow> call_entry list" where
  "calls_by i g = filter (\<lambda>e. ce_task e = i) (gw_calls g)"

text \<open>What a route with a limit, or with a breaker, leaves in the log.\<close>

definition limit_calls :: "nat \<Rightarrow> Route \<Rightarrow> Request \<Rightarrow> bool \<Rightarrow> call_entry list" where
  "limit_calls i route r ans = (if limit_cfg route = None then [] else [limit_call i route r ans])"

definition allow_calls ::
  "('k, 'pe) externals \<Rightarrow> nat \<Rightarrow> Route \<Rightarrow> URL \<Rightarrow> instant \<Rightarrow> bool \<Rightarrow> call_entry list" where
  "allow_calls x i route target now ans =
     (if breaker_cfg route = None then [] else [breaker_call x i route target ans (EvAllow now)])"

definition told_calls ::
  "('k, 'pe) externals \<Rightarrow> nat \<Rightarrow> Route \<Rightarrow> URL \<Rightarrow> instant \<Rightarrow> instant \<Rightarrow> outcome \<Rightarrow> task \<Rightarrow> call_entry list" where
  "told_calls x i route target now1 now2 res t =
     (if breaker_cfg route = None \<or> res \<noteq> Returned then []
      else map (breaker_call x i route target True) (told_events now1 now2 (Rec_Status (tk_w t))))"

lemmas call_defs = limit_calls_def allow_calls_def told_calls_def

text \<open>
  The log of a handler that has come to its end: no call before a 404 or 401; the limiter's
  refusal before a 429; the breaker's before a 503; or all gates passed, and the breaker told.
\<close>

definition calls_end ::
  "('k, 'pe) externals \<Rightarrow> ('k, 'r) Server \<Rightarrow> nat \<Rightarrow> task \<Rightarrow> outcome \<Rightarrow> call_entry list \<Rightarrow> bool" where
  "calls_end x s i t res L \<longleftrightarrow>
     L = [] \<and> tk_forwarded t = None \<and> written_status (w_ops (tk_w t)) \<in> {404, 401} \<or>
     (\<exists>route r. cleared x s t route r \<and> limit_cfg route \<noteq> None \<and> L = limit_calls i route r False \<and>
        tk_forwarded t = None \<and> written_status (w_ops (tk_w t)) = 429) \<or>
     (\<exists>route target r now. is_endpoint s route target \<and> cleared x s t route r \<and> breaker_cfg route \<noteq> None \<and>
        L = limit_calls i route r True @ allow_calls x i route target now False \<and>
        tk_forwarded t = None \<and> written_status (w_ops (tk_w t)) = 503) \<or>
     (\<exists>route target r now now1 now2. is_endpoint s route target \<and> cleared x s t route r \<and>
        (tk_forwarded t = None \<longrightarrow> written_status (w_ops (tk_w t)) = 502) \<and>
        tk_forwarded t = proxy_request (r\<lparr>rq_target := Some target\<rparr>) \<and>
        L = limit_calls i route r True @ allow_calls x i route target now True @
          told_calls x i route target now1 now2 res t)"

fun calls_ok :: "('k, 'pe) externals \<Rightarrow> ('k, 'r) Server \<Rightarrow> nat \<Rightarrow> task \<Rightarrow> call_entry list \<Rightarrow> phase \<Rightarrow> bool" where
  "calls_ok x s i t L (AtPick route r) \<longleftrightarrow> L = limit_calls i route r True"
| "calls_ok x s i t L (AtBreaker route target r) \<longleftrightarrow> L = limit_calls i route r True"
| "calls_ok x s i t L (AtAllow route target r) \<longleftrightarrow> L = limit_calls i route r True \<and> breaker_cfg route \<noteq> None"
| "calls_ok x s i t L (AtProxy route target r) \<longleftrightarrow>
     (\<exists>now. L = limit_calls i route r True @ allow_calls x i route target now True)"
| "calls_ok x s i t L (AtRecord route target) \<longleftrightarrow> breaker_cfg route \<noteq> None \<and>
     (\<exists>r now. cleared x s t route r \<and> tk_forwarded t = proxy_request (r\<lparr>rq_target := Some target\<rparr>) \<and>
        L = limit_calls i route r True @ allow_calls x i route target now True)"
| "calls_ok x s i t L (AtTell route target) \<longleftrightarrow> breaker_cfg route \<noteq> None \<and>
     (\<exists>r now. cleared x s t route r \<and> tk_forwarded t = proxy_request (r\<lparr>rq_target := Some target\<rparr>) \<and>
        L = limit_calls i route r True @ allow_calls x i route target now True)"
| "calls_ok x s i t L (AtDefer res) \<longleftrightarrow> calls_end x s i t res L"
| "calls_ok x s i t L (Finished res) \<longleftrightarrow> calls_end x s i t res L"
| "calls_ok x s i t L ph \<longleftrightarrow> L = []"

subsection \<open>Every step keeps the log\<close>

lemma limit_calls_target [simp]:
  "limit_calls i route (r\<lparr>rq_target := tg\<rparr>) ans = limit_calls i route r ans"
  by (simp add: limit_calls_def limit_call_def client_id_def)

lemma calls_end_phase [simp]: "calls_end x s i (t\<lparr>tk_phase := ph\<rparr>) res L = calls_end x s i t res L"
  by (simp add: calls_end_def told_calls_def)

lemma calls_end_gone:
  assumes "is_endpoint s route target" "cleared x s t route r"
    and "tk_forwarded t = None \<longrightarrow> written_status (w_ops (tk_w t)) = 502"
    and "tk_forwarded t = proxy_request (r\<lparr>rq_target := Some target\<rparr>)"
    and "L = limit_calls i route r True @ allow_calls x i route target now True @
      told_calls x i route target now1 now2 res t"
  shows "calls_end x s i t res L"
proof -
  have "\<exists>route target r now now1 now2. is_endpoint s route target \<and> cleared x s t route r \<and>
      (tk_forwarded t = None \<longrightarrow> written_status (w_ops (tk_w t)) = 502) \<and>
      tk_forwarded t = proxy_request (r\<lparr>rq_target := Some target\<rparr>) \<and>
      L = limit_calls i route r True @ allow_calls x i route target now True @
        told_calls x i route target now1 now2 res t"
    using assms
    by (intro exI [of _ route] exI [of _ target] exI [of _ r] exI [of _ now] exI [of _ now1] exI [of _ now2] conjI)
  then show ?thesis unfolding calls_end_def by (intro disjI2)
qed

lemma calls_end_reject:
  assumes "unsent t"
  shows "cleared x s t route r \<Longrightarrow> limit_cfg route \<noteq> None \<Longrightarrow>
      calls_end x s i (reject 429 b t) Returned (limit_calls i route r False)"
    and "is_endpoint s route target \<Longrightarrow> cleared x s t route r \<Longrightarrow> breaker_cfg route \<noteq> None \<Longrightarrow>
      calls_end x s i (reject 503 b t) Returned
        (limit_calls i route r True @ allow_calls x i route target now False)"
    and "calls_end x s i (reject 404 b t) Returned []"
proof -
  have c: "cleared x s (reject st b t) = cleared x s t" for st
    by (intro ext) (simp add: cleared_def reject_def)
  show "cleared x s t route r \<Longrightarrow> limit_cfg route \<noteq> None \<Longrightarrow>
      calls_end x s i (reject 429 b t) Returned (limit_calls i route r False)"
    "is_endpoint s route target \<Longrightarrow> cleared x s t route r \<Longrightarrow> breaker_cfg route \<noteq> None \<Longrightarrow>
      calls_end x s i (reject 503 b t) Returned
        (limit_calls i route r True @ allow_calls x i route target now False)"
    "calls_end x s i (reject 404 b t) Returned []"
    using assms reject_status [OF assms] unfolding calls_end_def c reject_simps unsent_def by fastforce+
qed

lemma calls_route:
  assumes "grows s s1" "unsent t"
  shows "calls_ok x s i (route_step x s1 t) [] (tk_phase (route_step x s1 t))"
proof (cases "Match (s_router s) (tk_request t)")
  case None
  with assms calls_end_reject(3) [OF assms(2)] show ?thesis
    by (simp add: route_step_def grows_def reject_def)
next
  case (Some route)
  obtain ok w r where a: "authenticate x s (tk_w t) (tk_request t) route = (ok, w, r)"
    by (metis prod_cases3)
  have step: "route_step x s1 t =
      (if ok then t\<lparr>tk_route := Some route, tk_w := w, tk_phase := AtLimit route r\<rparr>
       else t\<lparr>tk_route := Some route, tk_w := w, tk_phase := AtDefer Returned\<rparr>)"
    using Some assms(1) a grows_authenticate [OF assms(1), of x "tk_w t" "tk_request t" route]
    by (simp add: route_step_def grows_def)
  show ?thesis
  proof (cases ok)
    case False
    with a have "authenticate x s (tk_w t) (tk_request t) route = (False, w, r)" by simp
    from authenticate_False(1) [OF this] obtain b where "w = writeJSON (tk_w t) 401 b" by blast
    with False assms(2) writeJSON_status [of "tk_w t" 401 b] show ?thesis
      by (simp add: step calls_end_def unsent_def informational_def)
  qed (simp add: step)
qed

lemma calls_limit:
  assumes "limit_result x mo route lmt r (allowed, remaining, reset) (s1, t) = (s', t')"
    and "unsent t" "cleared x s t route r" "limit_cfg route = Some lmt"
  shows "calls_ok x s i t' [limit_call i route r allowed] (tk_phase t')"
proof (cases allowed)
  case True
  with assms(1,4) show ?thesis by (auto simp: limit_result_def limit_calls_def)
next
  case False
  let ?w = "limit_headers (rl_Requests lmt) remaining (unix_seconds (mo_reset_now mo + reset)) (tk_w t)"
  let ?t = "t\<lparr>tk_w := Rec_SetHeader ?w ''Retry-After'' (Itoa (retry_after (x_rnd x) reset))\<rparr>"
  have "unsent ?t" "cleared x s ?t route r" using assms(2,3) by (simp_all add: unsent_def)
  from calls_end_reject(1) [OF this, of i body_rate_limited] assms(1,4) False show ?thesis
    by (auto simp: limit_result_def limit_calls_def reject_def Let_def)
qed

lemma calls_advance:
  assumes "advance x mo (s1, t) = (s', t')" "task_ok x s s1 t (tk_phase t)" "grows s s1" "server_ok s"
    and "calls_ok x s i t L (tk_phase t)"
  shows "calls_ok x s i t' (L @ called x mo i s1 t) (tk_phase t')"
proof (cases "tk_phase t")
  case AtEntry
  with assms(1,5) show ?thesis by (auto simp: advance_def called_def)
next
  case AtRoute
  with calls_route [OF assms(3)] assms(1,2,5) show ?thesis by (auto simp: advance_def called_def)
next
  case (AtLimit route r)
  then have c: "unsent t" "cleared x s t route r" "L = []" using assms(2,5) by simp_all
  show ?thesis
  proof (cases "limit_cfg route")
    case None
    with AtLimit assms(1) c show ?thesis by (auto simp: advance_def limit_step_def called_def limit_calls_def)
  next
    case (Some lmt)
    with AtLimit assms(1) c show ?thesis
      by (auto simp: advance_def limit_step_def called_def dest: calls_limit [OF _ c(1,2) Some, where i = i]
          split: option.splits prod.splits)
  qed
next
  case (AtFallback route lmt r)
  then have c: "unsent t" "cleared x s t route r" "limit_cfg route = Some lmt" "L = []"
    using assms(2,5) by simp_all
  with AtFallback assms(1) show ?thesis
    by (auto simp: advance_def fallback_step_def called_def dest: calls_limit [OF _ c(1-3), where i = i]
        split: prod.splits)
next
  case (AtPick route r)
  then have c: "unsent t" "cleared x s t route r" using assms(2) by simp_all
  from c(2) assms(3) have m: "Match (s_router s1) (tk_request t) = Some route"
    by (simp add: cleared_def grows_def)
  from server_ok_route [OF grows_ok [OF assms(3,4)] m] obtain eps lb where
    e: "GetEndpoints (s_registry s1) (rt_ID route) = Inr eps" "eps \<noteq> []" "s_balancers s1 (rt_ID route) = Some lb"
    by auto
  with AtPick assms(1,5) show ?thesis
    by (auto simp: advance_def pick_step_def RR_Next_simp called_def allow_calls_def)
next
  case (AtBreaker route target r)
  with assms(1,2,5) show ?thesis by (auto simp: advance_def called_def)
next
  case (AtAllow route target r)
  then have c: "unsent t" "is_endpoint s route target" "cleared x s t route r" "breaker_cfg route \<noteq> None"
    "L = limit_calls i route r True"
    using assms(2,5) by simp_all
  from AtAllow assms(2) obtain cb where cb: "pointed_breaker x route target s1 = Some cb" by auto
  obtain ok cb' where a: "Breaker_Allow (mo_allow_now mo) cb = (ok, cb')" by fastforce
  have "called x mo i s1 t = allow_calls x i route target (mo_allow_now mo) ok"
    using AtAllow cb a c(4) by (simp add: called_def allow_calls_def)
  moreover have "t' = (if ok then t\<lparr>tk_phase := AtProxy route target (r\<lparr>rq_target := Some target\<rparr>)\<rparr>
      else reject 503 body_circuit_open t)"
    using AtAllow assms(1) cb a by (auto simp: advance_def allow_step_def split: if_splits)
  ultimately show ?thesis
    using c calls_end_reject(2) [OF c(1-4), of i body_circuit_open "mo_allow_now mo"]
    by (auto simp: reject_def)
next
  case (AtProxy route target r)
  then obtain r0 where c: "unsent t" "is_endpoint s route target" "cleared x s t route r0"
    "r = r0\<lparr>rq_target := Some target\<rparr>"
    using assms(2) by auto
  from AtProxy assms(5) c(4) obtain now where L: "L = limit_calls i route r0 True @ allow_calls x i route target now True"
    by auto
  obtain calls res where ex: "proxy_exchange mo r = (calls, res)" by fastforce
  have t': "t' = t\<lparr>tk_w := rec_run calls (tk_w t), tk_forwarded := proxy_request r,
      tk_phase := (if res = Returned \<and> breaker_cfg route \<noteq> None then AtRecord route target else AtDefer res)\<rparr>"
    using AtProxy assms(1) by (auto simp: advance_def proxy_step_def proxy_eq ex)
  have unsent502: "proxy_request r = None \<Longrightarrow> written_status (w_ops (rec_run calls (tk_w t))) = 502"
    using proxy_exchange_unsent(2) [of r "tk_w t" mo] c(1) by (simp add: ex unsent_def)
  have "called x mo i s1 t = []" using AtProxy by (simp add: called_def)
  then show ?thesis
  proof (cases "res = Returned \<and> breaker_cfg route \<noteq> None")
    case True
    with L c \<open>called x mo i s1 t = []\<close> show ?thesis by (auto simp: t')
  next
    case False
    then have "told_calls x i route target now1 now2 res t' = []" for now1 now2
      by (auto simp: told_calls_def)
    moreover have "cleared x s t' route r0" "tk_forwarded t' = proxy_request (r0\<lparr>rq_target := Some target\<rparr>)"
      "tk_forwarded t' = None \<longrightarrow> written_status (w_ops (tk_w t')) = 502"
      using c unsent502 by (simp_all add: t')
    ultimately have "calls_end x s i t' res L" using L by (intro calls_end_gone [OF c(2)]) simp_all
    moreover have "tk_phase t' = AtDefer res" using False by (auto simp: t')
    ultimately show ?thesis using \<open>called x mo i s1 t = []\<close> by simp
  qed
next
  case (AtRecord route target)
  then have "t' = t\<lparr>tk_phase := AtTell route target\<rparr>" "called x mo i s1 t = []"
    using assms(1) by (auto simp: advance_def called_def)
  moreover have "calls_ok x s i t L (AtRecord route target) =
      calls_ok x s i (t\<lparr>tk_phase := AtTell route target\<rparr>) L (AtTell route target)"
    by simp
  ultimately show ?thesis using AtRecord assms(5) by (simp del: calls_ok.simps)
next
  case (AtTell route target)
  then obtain r now where c: "breaker_cfg route \<noteq> None" "cleared x s t route r"
    "tk_forwarded t = proxy_request (r\<lparr>rq_target := Some target\<rparr>)"
    "L = limit_calls i route r True @ allow_calls x i route target now True"
    using assms(5) by auto
  from AtTell assms(2) obtain cb where cb: "pointed_breaker x route target s1 = Some cb" and snt: "sent x s t route target"
    by auto
  have t': "t' = t\<lparr>tk_phase := AtDefer Returned\<rparr>"
    using AtTell assms(1) cb by (auto simp: advance_def tell_step_def)
  have "called x mo i s1 t = told_calls x i route target (mo_failure1 mo) (mo_failure2 mo) Returned t"
    using AtTell c(1) by (auto simp add: called_def told_calls_def)
  with c snt have "calls_end x s i t Returned (L @ called x mo i s1 t)"
    by (intro calls_end_gone [of s route target x t r]) (auto simp: sent_def)
  then show ?thesis by (simp add: t')
next
  case (AtDefer res)
  with assms(1,5) show ?thesis by (auto simp: advance_def defer_step_def called_def)
next
  case (Finished res)
  with assms(1,5) show ?thesis by (auto simp: advance_def called_def)
qed

lemma called_task: "e \<in> set (called x mo i s t) \<Longrightarrow> ce_task e = i"
  by (auto simp: called_def limit_call_def breaker_call_def split: phase.splits option.splits)

lemma calls_by_run:
  "calls_by j (run_gateway x mo i t s' t' g) =
     (if j = i then calls_by j g @ called x mo i (gw_server g) t else calls_by j g)"
proof -
  have "filter (\<lambda>e. ce_task e = j) (called x mo i (gw_server g) t) =
      (if j = i then called x mo i (gw_server g) t else [])"
    by (auto simp: filter_empty_conv filter_id_conv dest: called_task)
  then show ?thesis by (simp add: calls_by_def)
qed

lemma calls_by_other [simp]:
  "calls_by i (g\<lparr>gw_tasks := ts\<rparr>) = calls_by i g"
  "calls_by i (g\<lparr>gw_server := s\<rparr>) = calls_by i g"
  "calls_by i (g\<lparr>gw_server := s, gw_clock := c\<rparr>) = calls_by i g"
  "calls_by i (g\<lparr>gw_server := s, gw_loop := l\<rparr>) = calls_by i g"
  "calls_by i (new_gateway s now ms) = []"
  by (simp_all add: calls_by_def new_gateway_def)

text \<open>Every handler's calls fit its place, and only handlers call.\<close>

lemma calls_reach:
  assumes "gateway_reach x env s g" "server_ok s"
  shows "(\<forall>i t. gw_tasks g i = Some t \<longrightarrow> calls_ok x s i t (calls_by i g) (tk_phase t)) \<and>
    (\<forall>i. gw_tasks g i = None \<longrightarrow> calls_by i g = [])"
  using assms(1)
proof (induction rule: gateway_reach.induct)
  case (start now ms)
  then show ?case by (simp add: new_gateway_def calls_by_def)
next
  case (step g g')
  from step(2) show ?case
  proof cases
    case (arrive j w r)
    with step.IH show ?thesis by (auto simp: new_task_def)
  next
    case (run j t mo s' t')
    have "calls_ok x s j t (calls_by j g) (tk_phase t)" using step.IH run(2) by blast
    note calls_advance [OF run(6) tasks_ok_reach [OF step(1) assms(2) run(2)] grows_reach [OF step(1)] assms(2) this]
    with step.IH run(1,2) show ?thesis by (auto simp: calls_by_run)
  qed (use step.IH in auto)
qed

lemma calls_finished:
  assumes "gateway_reach x env s g" "server_ok s" "gw_tasks g i = Some t" "tk_phase t = Finished res"
  shows "calls_end x s i t res (calls_by i g)"
  using calls_reach [OF assms(1,2)] assms(3,4) by force

text \<open>A handler that has forwarded has passed every gate of its route, and was refused by none.\<close>

lemma calls_forwarded:
  assumes "gateway_reach x env s g" "server_ok s" "gw_tasks g i = Some t" "tk_forwarded t = Some out"
  obtains route target r now L where "is_endpoint s route target" "cleared x s t route r"
    "proxy_request (r\<lparr>rq_target := Some target\<rparr>) = Some out"
    "calls_by i g = limit_calls i route r True @ allow_calls x i route target now True @ L"
    "\<forall>e \<in> set L. ce_answer e"
proof -
  note found = that
  have ok: "calls_ok x s i t (calls_by i g) (tk_phase t)" using calls_reach [OF assms(1,2)] assms(3) by blast
  have tk: "task_ok x s (gw_server g) t (tk_phase t)" by (rule tasks_ok_reach [OF assms(1,2,3)])
  have told: "\<forall>e \<in> set (told_calls x i route target now1 now2 res t). ce_answer e" for route target now1 now2 res
    by (auto simp: told_calls_def breaker_call_def)
  have ended: thesis if "calls_end x s i t res (calls_by i g)" for res
    using that assms(4) told unfolding calls_end_def by (auto intro: found)
  show thesis
  proof (cases "tk_phase t")
    case (AtRecord route target)
    with ok tk assms(4) that [of route target _ _ "[]"] show thesis by (auto simp: sent_def)
  next
    case (AtTell route target)
    with ok tk assms(4) that [of route target _ _ "[]"] show thesis by (auto simp: sent_def)
  qed (use ok tk assms(4) ended in \<open>auto simp: unsent_def\<close>)
qed

text \<open>What a handler that forwards nothing writes tells which gate refused it.\<close>

lemma calls_end_answers:
  assumes "calls_end x s i t res L" "tk_forwarded t = None"
  shows "written_status (w_ops (tk_w t)) \<in> {404, 401, 429, 503, 502}"
    and "written_status (w_ops (tk_w t)) = 429 \<longleftrightarrow>
      (\<exists>rid client. \<lparr>ce_task = i, ce_call = AskLimit rid client, ce_answer = False\<rparr> \<in> set L)"
    and "written_status (w_ops (tk_w t)) = 503 \<longleftrightarrow>
      (\<exists>key now. \<lparr>ce_task = i, ce_call = CallBreaker key (EvAllow now), ce_answer = False\<rparr> \<in> set L)"
proof -
  from assms consider "L = []" "written_status (w_ops (tk_w t)) \<in> {404, 401}"
    | route r where "limit_cfg route \<noteq> None" "L = limit_calls i route r False" "written_status (w_ops (tk_w t)) = 429"
    | route r target now where "breaker_cfg route \<noteq> None"
      "L = limit_calls i route r True @ allow_calls x i route target now False" "written_status (w_ops (tk_w t)) = 503"
    | route r target now now1 now2 where "L = limit_calls i route r True @ allow_calls x i route target now True @
        told_calls x i route target now1 now2 res t" "written_status (w_ops (tk_w t)) = 502"
    unfolding calls_end_def by blast
  then have "written_status (w_ops (tk_w t)) \<in> {404, 401, 429, 503, 502} \<and>
    (written_status (w_ops (tk_w t)) = 429 \<longleftrightarrow>
      (\<exists>rid client. \<lparr>ce_task = i, ce_call = AskLimit rid client, ce_answer = False\<rparr> \<in> set L)) \<and>
    (written_status (w_ops (tk_w t)) = 503 \<longleftrightarrow>
      (\<exists>key now. \<lparr>ce_task = i, ce_call = CallBreaker key (EvAllow now), ce_answer = False\<rparr> \<in> set L))"
    by cases (auto simp: call_defs limit_call_def breaker_call_def)
  then show "written_status (w_ops (tk_w t)) \<in> {404, 401, 429, 503, 502}"
    "written_status (w_ops (tk_w t)) = 429 \<longleftrightarrow>
      (\<exists>rid client. \<lparr>ce_task = i, ce_call = AskLimit rid client, ce_answer = False\<rparr> \<in> set L)"
    "written_status (w_ops (tk_w t)) = 503 \<longleftrightarrow>
      (\<exists>key now. \<lparr>ce_task = i, ce_call = CallBreaker key (EvAllow now), ce_answer = False\<rparr> \<in> set L)"
    by blast+
qed

subsection \<open>The gates\<close>

text \<open>
  C9: However the goroutines are interleaved, the gates hold and nothing breaks. The server
  stays sound. A handler that has finished without forwarding returned and wrote 404, 401, 429,
  503 or 502: 429 exactly when the limiter refused it, 503 exactly when the breaker of its
  target did. Whatever was forwarded had passed its route's authentication and went, as the
  proxy builds it, to an endpoint of the route the router matched; when the route has a limit
  the limiter, asked for its client, had admitted it, when it has a breaker that of its target
  had let it through, and no call it made of either was refused. No handler panics but where
  the proxy does, over a forwarded request.
\<close>

theorem concurrent_gates:
  assumes "gateway_reach x env s g" "server_ok s"
  shows "server_ok (gw_server g) \<and>
    (\<forall>i t. gw_tasks g i = Some t \<longrightarrow>
      (\<forall>res. tk_phase t = Finished res \<longrightarrow> res \<in> {Returned, Panicked AbortHandler, Panicked InvalidWriteHeaderCode} \<and>
        (tk_forwarded t = None \<longrightarrow> res = Returned \<and>
          (let status = written_status (w_ops (tk_w t)) in
            status \<in> {404, 401, 429, 503, 502} \<and>
            (status = 429 \<longleftrightarrow> (\<exists>rid client.
               \<lparr>ce_task = i, ce_call = AskLimit rid client, ce_answer = False\<rparr> \<in> set (gw_calls g))) \<and>
            (status = 503 \<longleftrightarrow> (\<exists>key now.
               \<lparr>ce_task = i, ce_call = CallBreaker key (EvAllow now), ce_answer = False\<rparr> \<in> set (gw_calls g)))))) \<and>
      (\<forall>out. tk_forwarded t = Some out \<longrightarrow>
        (\<exists>route target. Match (s_router s) (tk_request t) = Some route \<and>
          authorized x s (tk_request t) route \<and> is_endpoint s route target \<and>
          proxy_request ((auth_request x s (tk_request t) route)\<lparr>rq_target := Some target\<rparr>) = Some out \<and>
          (limit_cfg route \<noteq> None \<longrightarrow>
             \<lparr>ce_task = i, ce_call = AskLimit (rt_ID route)
                (client_id (auth_request x s (tk_request t) route) route), ce_answer = True\<rparr> \<in> set (gw_calls g)) \<and>
          (breaker_cfg route \<noteq> None \<longrightarrow>
             (\<exists>now. \<lparr>ce_task = i, ce_call = CallBreaker (breaker_key (rt_ID route) (x_url_string x target))
                (EvAllow now), ce_answer = True\<rparr> \<in> set (gw_calls g))) \<and>
          (\<forall>e \<in> set (gw_calls g). ce_task e = i \<longrightarrow> ce_answer e))))"
proof (intro conjI allI impI)
  show "server_ok (gw_server g)" using grows_ok [OF grows_reach [OF assms(1)] assms(2)] .
  have mine: "e \<in> set (gw_calls g) \<and> ce_task e = i \<longleftrightarrow> e \<in> set (calls_by i g)" for e i
    by (auto simp: calls_by_def)
  fix i t
  assume t: "gw_tasks g i = Some t"
  then have ok: "task_ok x s (gw_server g) t (tk_phase t)" by (rule tasks_ok_reach [OF assms])
  {
    fix res
    assume fin: "tk_phase t = Finished res"
    with ok show "res \<in> {Returned, Panicked AbortHandler, Panicked InvalidWriteHeaderCode}"
      by (auto simp: ended_well_def)
    assume none: "tk_forwarded t = None"
    with ok fin show "res = Returned" by (auto simp: ended_well_def)
    show "let status = written_status (w_ops (tk_w t)) in
            status \<in> {404, 401, 429, 503, 502} \<and>
            (status = 429 \<longleftrightarrow> (\<exists>rid client.
               \<lparr>ce_task = i, ce_call = AskLimit rid client, ce_answer = False\<rparr> \<in> set (gw_calls g))) \<and>
            (status = 503 \<longleftrightarrow> (\<exists>key now.
               \<lparr>ce_task = i, ce_call = CallBreaker key (EvAllow now), ce_answer = False\<rparr> \<in> set (gw_calls g)))"
      using calls_end_answers [OF calls_finished [OF assms t fin] none] mine [where i = i]
      by (simp add: Let_def) (metis call_entry.select_convs(1))
  }
  fix out
  assume "tk_forwarded t = Some out"
  from calls_forwarded [OF assms t this] obtain route target r now L where
    c: "is_endpoint s route target" "cleared x s t route r" "proxy_request (r\<lparr>rq_target := Some target\<rparr>) = Some out"
    "calls_by i g = limit_calls i route r True @ allow_calls x i route target now True @ L"
    "\<forall>e \<in> set L. ce_answer e" .
  have "\<forall>e \<in> set (calls_by i g). ce_answer e"
    using c(5) by (auto simp: c(4) call_defs limit_call_def breaker_call_def)
  then have all: "\<forall>e \<in> set (gw_calls g). ce_task e = i \<longrightarrow> ce_answer e" using mine by blast
  have "limit_cfg route \<noteq> None \<longrightarrow> limit_call i route r True \<in> set (calls_by i g)"
    "breaker_cfg route \<noteq> None \<longrightarrow> breaker_call x i route target True (EvAllow now) \<in> set (calls_by i g)"
    by (simp_all add: c(4) call_defs)
  then have "limit_cfg route \<noteq> None \<longrightarrow> limit_call i route r True \<in> set (gw_calls g)"
    "breaker_cfg route \<noteq> None \<longrightarrow> breaker_call x i route target True (EvAllow now) \<in> set (gw_calls g)"
    using mine by blast+
  with c(1-3) all show "\<exists>route target. Match (s_router s) (tk_request t) = Some route \<and>
          authorized x s (tk_request t) route \<and> is_endpoint s route target \<and>
          proxy_request ((auth_request x s (tk_request t) route)\<lparr>rq_target := Some target\<rparr>) = Some out \<and>
          (limit_cfg route \<noteq> None \<longrightarrow>
             \<lparr>ce_task = i, ce_call = AskLimit (rt_ID route)
                (client_id (auth_request x s (tk_request t) route) route), ce_answer = True\<rparr> \<in> set (gw_calls g)) \<and>
          (breaker_cfg route \<noteq> None \<longrightarrow>
             (\<exists>now. \<lparr>ce_task = i, ce_call = CallBreaker (breaker_key (rt_ID route) (x_url_string x target))
                (EvAllow now), ce_answer = True\<rparr> \<in> set (gw_calls g))) \<and>
          (\<forall>e \<in> set (gw_calls g). ce_task e = i \<longrightarrow> ce_answer e)"
    by (intro exI [of _ route] exI [of _ target]) (auto simp: cleared_def limit_call_def breaker_call_def)
qed

lemma concurrent_gates_witness:
  "\<exists>g t client key now. gateway_reach demo_externals (\<lambda>mo :: (unit, redis_map) moment. True) demo_server g \<and>
     gw_tasks g 0 = Some t \<and> finished t \<and> tk_forwarded t \<noteq> None \<and>
     \<lparr>ce_task = 0, ce_call = AskLimit ''open'' client, ce_answer = True\<rparr> \<in> set (gw_calls g) \<and>
     \<lparr>ce_task = 0, ce_call = CallBreaker key (EvAllow now), ce_answer = True\<rparr> \<in> set (gw_calls g)"
proof -
  obtain g t where g: "gateway_reach demo_externals (\<lambda>mo :: (unit, redis_map) moment. True) demo_server g"
    "gw_tasks g = [0 \<mapsto> t]" "finished t" "tk_forwarded t \<noteq> None" "tk_request t = open_request"
    using demo_gateway_request by blast
  from g(2) have t: "gw_tasks g 0 = Some t" by simp
  from g(4) obtain out where "tk_forwarded t = Some out" by blast
  with concurrent_gates [OF g(1) demo_server_ok] t obtain route where
    r: "Match (s_router demo_server) (tk_request t) = Some route"
    "limit_cfg route \<noteq> None \<longrightarrow> (\<exists>client.
       \<lparr>ce_task = 0, ce_call = AskLimit (rt_ID route) client, ce_answer = True\<rparr> \<in> set (gw_calls g))"
    "breaker_cfg route \<noteq> None \<longrightarrow> (\<exists>key now.
       \<lparr>ce_task = 0, ce_call = CallBreaker key (EvAllow now), ce_answer = True\<rparr> \<in> set (gw_calls g))"
    by blast
  have "route = open_route" using r(1) demo_facts(1) by (simp add: g(5))
  moreover have "limit_cfg open_route \<noteq> None" "breaker_cfg open_route \<noteq> None" "rt_ID open_route = ''open''"
    by (simp_all add: limit_cfg_def breaker_cfg_def open_route_def sample_breaker_cfg_def)
  ultimately show ?thesis using r(2,3) g(1,3,4) t by auto
qed

end
