(* ===== verification/Gateway_Breakers.thy ===== *)
theory Gateway_Breakers
  imports Gateway_Calls
begin

text \<open>
  The circuit breakers under concurrency: in every interleaving of the goroutines of theory
  \<open>Gateway_Concurrent\<close> each breaker of the store is the state machine of theory \<open>Circuit_Breaker\<close>
  run on the very calls the log \<open>gw_calls\<close> holds for its key, and an open one lets nothing
  through before its timeout.
\<close>

subsection \<open>What a step does to a breaker\<close>

lemma set_breaker_at:
  "breaker_at (set_breaker x route target cb s) k =
     (if k = breaker_key (rt_ID route) (x_url_string x target) then Some cb else breaker_at s k)"
  by (simp add: breaker_at_def set_breaker_def)

lemma create_breaker_cases:
  "breaker_at (create_breaker x route target s) k = breaker_at s k \<or>
     (\<exists>cfg. breaker_cfg route = Some cfg \<and> k = breaker_key (rt_ID route) (x_url_string x target) \<and>
        breaker_at s k = None \<and> breaker_at (create_breaker x route target s) k = Some (NewCircuitBreaker cfg))"
proof (cases "breaker_cfg route")
  case (Some cfg)
  then show ?thesis
    using GetOrCreate_breaker [where rid = "rt_ID route" and url = "x_url_string x target"
        and cfg = cfg and bs = "s_breakerStore s"]
    by (cases "k = breaker_key (rt_ID route) (x_url_string x target)"; cases "breaker_at s k")
      (simp_all add: breaker_at_def create_breaker_def breaker_or_new_def)
qed (simp add: create_breaker_def)

text \<open>The breaker events of a moment.\<close>

definition moment_events :: "('e, 'r) moment \<Rightarrow> breaker_event set" where
  "moment_events mo = {EvAllow (mo_allow_now mo), EvFailure (mo_failure1 mo) (mo_failure2 mo), EvSuccess}"

lemma tell_breaker_events:
  "told_events (mo_failure1 mo) (mo_failure2 mo) status = [] \<and>
     tell_breaker (mo_failure1 mo) (mo_failure2 mo) status cb = cb \<or>
   (\<exists>ev \<in> moment_events mo. told_events (mo_failure1 mo) (mo_failure2 mo) status = [ev] \<and>
     (\<forall>now. ev \<noteq> EvAllow now) \<and> tell_breaker (mo_failure1 mo) (mo_failure2 mo) status cb = breaker_step ev cb)"
  by (auto simp: tell_breaker_def told_events_def moment_events_def)

text \<open>The calls of the breaker under a key in a log, with their answers.\<close>

definition call_at :: "string \<Rightarrow> call_entry \<Rightarrow> (breaker_event \<times> bool) list" where
  "call_at k e = (case ce_call e of
     AskLimit rid client \<Rightarrow> []
   | CallBreaker k' ev \<Rightarrow> if k' = k then [(ev, ce_answer e)] else [])"

definition breaker_calls :: "string \<Rightarrow> call_entry list \<Rightarrow> (breaker_event \<times> bool) list" where
  "breaker_calls k L = concat (map (call_at k) L)"

definition allow_answers :: "(breaker_event \<times> bool) list \<Rightarrow> bool list" where
  "allow_answers calls = concat (map (\<lambda>(ev, ans). case ev of EvAllow now \<Rightarrow> [ans] | _ \<Rightarrow> []) calls)"

definition event_answer :: "breaker_event \<Rightarrow> CircuitBreaker \<Rightarrow> bool" where
  "event_answer ev cb = (case ev of EvAllow now \<Rightarrow> fst (Breaker_Allow now cb) | _ \<Rightarrow> True)"

lemma breaker_calls_simps [simp]:
  "breaker_calls k [] = []"
  "breaker_calls k (L @ L') = breaker_calls k L @ breaker_calls k L'"
  "breaker_calls k [limit_call i route r ans] = []"
  "breaker_calls k [breaker_call x i route target ans ev] =
     (if k = breaker_key (rt_ID route) (x_url_string x target) then [(ev, ans)] else [])"
  by (auto simp: breaker_calls_def call_at_def limit_call_def breaker_call_def)

text \<open>A step leaves a breaker alone, runs the one call it makes on it, or creates it.\<close>

definition breaker_created ::
  "('k, 'pe) externals \<Rightarrow> task \<Rightarrow> string \<Rightarrow> CircuitBreaker \<Rightarrow> bool" where
  "breaker_created x t k cb \<longleftrightarrow> (\<exists>route target cfg.
     ((\<exists>r. tk_phase t = AtBreaker route target r) \<or> tk_phase t = AtRecord route target) \<and>
     breaker_cfg route = Some cfg \<and> k = breaker_key (rt_ID route) (x_url_string x target) \<and>
     cb = NewCircuitBreaker cfg)"

lemma advance_breaker:
  assumes "advance x mo (s, t) = (s', t')" "task_ok x s0 s t (tk_phase t)"
  shows "breaker_at s' k = breaker_at s k \<and> breaker_calls k (called x mo i s t) = [] \<or>
    (\<exists>cb. \<exists>ev \<in> moment_events mo. breaker_at s k = Some cb \<and> breaker_at s' k = Some (breaker_step ev cb) \<and>
       breaker_calls k (called x mo i s t) = [(ev, event_answer ev cb)]) \<or>
    (\<exists>cb. breaker_at s k = None \<and> breaker_at s' k = Some cb \<and> breaker_created x t k cb \<and>
       called x mo i s t = [])"
proof (cases "tk_phase t")
  case AtEntry
  with assms(1) show ?thesis by (auto simp: advance_def called_def)
next
  case (AtLimit route r)
  with assms(1) show ?thesis
    by (auto simp: advance_def called_def limit_step_def limit_result_def breaker_at_def Let_def
        split: option.splits prod.splits bool.splits if_splits)
next
  case (AtFallback route lmt r)
  with assms(1) show ?thesis
    by (auto simp: advance_def called_def fallback_step_def limit_result_def breaker_at_def Let_def
        split: option.splits prod.splits bool.splits if_splits)
next
  case (AtPick route r)
  with assms(1) show ?thesis
    by (auto simp: advance_def called_def pick_step_def Let_def
        split: sum.splits option.splits prod.splits if_splits)
next
  case (AtBreaker route target r)
  with assms(1) create_breaker_cases [of x route target s k] show ?thesis
    by (auto simp: advance_def breaker_created_def called_def)
next
  case (AtAllow route target r)
  with assms(1) show ?thesis
    by (auto simp: advance_def called_def allow_step_def set_breaker_at pointed_breaker_def moment_events_def
        event_answer_def Let_def split: option.splits prod.splits if_splits)
next
  case (AtRecord route target)
  with assms(1) create_breaker_cases [of x route target s k] show ?thesis
    by (auto simp: advance_def breaker_created_def called_def)
next
  case (AtTell route target)
  with assms(2) obtain cb where cb: "pointed_breaker x route target s = Some cb" by auto
  from AtTell have "called x mo i s t = map (breaker_call x i route target True)
      (told_events (mo_failure1 mo) (mo_failure2 mo) (Rec_Status (tk_w t)))"
    by (simp add: called_def)
  with AtTell assms(1) cb tell_breaker_events [of mo "Rec_Status (tk_w t)" cb] show ?thesis
    by (cases "k = breaker_key (rt_ID route) (x_url_string x target)")
      (auto simp: advance_def tell_step_def set_breaker_at pointed_breaker_def event_answer_def
        split: breaker_event.splits)
next
  case (AtDefer res)
  with assms(1) show ?thesis by (auto simp: advance_def defer_step_def called_def)
qed (use assms(1) in \<open>auto simp: advance_def called_def\<close>)

lemma background_breaker:
  "breaker_at (clean_limiter now s) k = breaker_at s k"
  "breaker_at (snd (Server_Shutdown stop_metrics stop_main close_main is_deadline s)) k = breaker_at s k"
  by (simp_all add: breaker_at_def clean_limiter_def Server_Shutdown_def Let_def)

subsection \<open>Every breaker is a run\<close>

text \<open>
  The breaker under a key is a new breaker of a route of its, run on the calls logged for the key:
  the state they leave it in is its state, the answers they get are those in the log.
\<close>

definition breaker_run_of ::
  "('k, 'pe) externals \<Rightarrow> (('e, 'r) moment \<Rightarrow> bool) \<Rightarrow> ('k, 'r) Server \<Rightarrow> string \<Rightarrow>
     (breaker_event \<times> bool) list \<Rightarrow> CircuitBreaker \<Rightarrow> bool" where
  "breaker_run_of x env s k calls cb \<longleftrightarrow> (\<exists>route target cfg.
     route \<in> set (ro_routes (s_router s)) \<and> is_endpoint s route target \<and>
     breaker_cfg route = Some cfg \<and> k = breaker_key (rt_ID route) (x_url_string x target) \<and>
     (\<forall>ev \<in> fst ` set calls. \<exists>mo. env mo \<and> ev \<in> moment_events mo) \<and>
     breaker_run (map fst calls) (NewCircuitBreaker cfg) = (allow_answers calls, cb))"

definition breaker_replayed ::
  "('k, 'pe) externals \<Rightarrow> (('e, 'r) moment \<Rightarrow> bool) \<Rightarrow> ('k, 'r) Server \<Rightarrow> ('k, 'r) gateway \<Rightarrow> string \<Rightarrow> bool" where
  "breaker_replayed x env s g k \<longleftrightarrow>
     (case breaker_at (gw_server g) k of
        None \<Rightarrow> breaker_calls k (gw_calls g) = []
      | Some cb \<Rightarrow> breaker_run_of x env s k (breaker_calls k (gw_calls g)) cb)"

lemma breaker_run_snoc:
  "breaker_run (evs @ [ev]) cb =
     (fst (breaker_run evs cb) @ (case ev of EvAllow t \<Rightarrow> [event_answer ev (snd (breaker_run evs cb))] | _ \<Rightarrow> []),
      breaker_step ev (snd (breaker_run evs cb)))"
  by (induction evs arbitrary: cb) (simp_all add: split_beta event_answer_def split: breaker_event.split)

lemma breaker_run_of_step:
  assumes "breaker_run_of x env s k calls cb" "env mo" "ev \<in> moment_events mo"
  shows "breaker_run_of x env s k (calls @ [(ev, event_answer ev cb)]) (breaker_step ev cb)"
proof -
  from assms(1) obtain route target cfg where e:
    "route \<in> set (ro_routes (s_router s))" "is_endpoint s route target" "breaker_cfg route = Some cfg"
    "k = breaker_key (rt_ID route) (x_url_string x target)"
    "\<forall>ev \<in> fst ` set calls. \<exists>mo. env mo \<and> ev \<in> moment_events mo"
    "breaker_run (map fst calls) (NewCircuitBreaker cfg) = (allow_answers calls, cb)"
    unfolding breaker_run_of_def by blast
  then have "breaker_run (map fst (calls @ [(ev, event_answer ev cb)])) (NewCircuitBreaker cfg) =
      (allow_answers (calls @ [(ev, event_answer ev cb)]), breaker_step ev cb)"
    by (simp add: breaker_run_snoc allow_answers_def split: breaker_event.split)
  moreover have "\<forall>ev' \<in> fst ` set (calls @ [(ev, event_answer ev cb)]). \<exists>mo. env mo \<and> ev' \<in> moment_events mo"
    using e(5) assms(2,3) by auto
  ultimately show ?thesis using e(1-4) unfolding breaker_run_of_def by blast
qed

lemma breaker_created_run:
  assumes "breaker_created x t k cb" "task_ok x s s' t (tk_phase t)"
  shows "breaker_run_of x env s k [] cb"
proof -
  from assms(1) obtain route target cfg where c:
    "(\<exists>r. tk_phase t = AtBreaker route target r) \<or> tk_phase t = AtRecord route target"
    "breaker_cfg route = Some cfg" "k = breaker_key (rt_ID route) (x_url_string x target)"
    "cb = NewCircuitBreaker cfg"
    unfolding breaker_created_def by blast
  from c(1) assms(2) have "is_endpoint s route target" "\<exists>r. cleared x s t route r"
    by (auto simp: sent_def)
  then have "route \<in> set (ro_routes (s_router s))" by (auto simp: cleared_def Match_in_table)
  with \<open>is_endpoint s route target\<close> c(2-4) show ?thesis
    unfolding breaker_run_of_def
    by (intro exI [of _ route] exI [of _ target] exI [of _ cfg]) (simp add: allow_answers_def)
qed

lemma breaker_replayed_step:
  assumes "gateway_step x env g g'" "breaker_replayed x env s g k"
    and "\<And>i t. gw_tasks g i = Some t \<Longrightarrow> task_ok x s (gw_server g) t (tk_phase t)"
  shows "breaker_replayed x env s g' k"
  using assms(1)
proof cases
  case (run i t mo s' t')
  note ok = assms(3) [OF run(2)]
  from advance_breaker [OF run(6) ok, of k] consider
    "breaker_at s' k = breaker_at (gw_server g) k" "breaker_calls k (called x mo i (gw_server g) t) = []"
    | cb ev where "ev \<in> moment_events mo" "breaker_at (gw_server g) k = Some cb"
      "breaker_at s' k = Some (breaker_step ev cb)"
      "breaker_calls k (called x mo i (gw_server g) t) = [(ev, event_answer ev cb)]"
    | cb where "breaker_at (gw_server g) k = None" "breaker_at s' k = Some cb" "breaker_created x t k cb"
      "called x mo i (gw_server g) t = []"
    by blast
  then show ?thesis
  proof cases
    case 1
    with assms(2) show ?thesis by (simp add: breaker_replayed_def run(1) split: option.splits)
  next
    case 2
    from assms(2) 2(2) have "breaker_run_of x env s k (breaker_calls k (gw_calls g)) cb"
      by (simp add: breaker_replayed_def)
    from breaker_run_of_step [OF this run(3) 2(1)] 2 show ?thesis by (simp add: breaker_replayed_def run(1))
  next
    case 3
    from breaker_created_run [OF 3(3) ok] assms(2) 3 show ?thesis by (simp add: breaker_replayed_def run(1))
  qed
qed (use assms(2) in \<open>simp_all add: breaker_replayed_def background_breaker loop_step_kept(5) split: option.splits\<close>)

lemma breakers_replayed:
  assumes "gateway_reach x env s g" "server_ok s" "s_breakerStore s = NewBreakerStore"
  shows "breaker_replayed x env s g k"
  using assms(1)
proof (induction rule: gateway_reach.induct)
  case (start now)
  then show ?case
    by (simp add: breaker_replayed_def new_gateway_def breaker_at_def assms(3) NewBreakerStore_def)
next
  case (step g g')
  show ?case by (rule breaker_replayed_step [OF step(2) step.IH tasks_ok_reach [OF step(1) assms(2)]])
qed

text \<open>The calls of breakers a handler made, of whatever breaker.\<close>

definition asks_breaker :: "call_entry \<Rightarrow> bool" where
  "asks_breaker e = (case ce_call e of AskLimit rid client \<Rightarrow> False | CallBreaker key ev \<Rightarrow> True)"

lemma asks_breaker_simps [simp]:
  "\<not> asks_breaker (limit_call i route r ans)" "asks_breaker (breaker_call x i route target ans ev)"
  by (simp_all add: asks_breaker_def limit_call_def breaker_call_def)

definition breaker_calls_by :: "nat \<Rightarrow> ('k, 'r) gateway \<Rightarrow> call_entry list" where
  "breaker_calls_by i g = filter (\<lambda>e. ce_task e = i \<and> asks_breaker e) (gw_calls g)"

lemma breaker_calls_by: "breaker_calls_by i g = filter asks_breaker (calls_by i g)"
  by (simp add: breaker_calls_by_def calls_by_def conj_commute)

text \<open>What a finished handler called: nothing; \<open>Allow\<close> alone; or \<open>Allow\<close>, and its outcome told.\<close>

definition breaker_use ::
  "('k, 'pe) externals \<Rightarrow> ('k, 'r) Server \<Rightarrow> nat \<Rightarrow> task \<Rightarrow> outcome \<Rightarrow> call_entry list \<Rightarrow> bool" where
  "breaker_use x s i t res L \<longleftrightarrow>
     (if tk_forwarded t = None \<and> written_status (w_ops (tk_w t)) \<noteq> 502
      then if written_status (w_ops (tk_w t)) = 503
        then \<exists>route target now. tk_route t = Some route \<and> is_endpoint s route target \<and>
          L = [breaker_call x i route target False (EvAllow now)]
        else L = []
      else \<exists>route target now now1 now2. tk_route t = Some route \<and> is_endpoint s route target \<and>
        (\<forall>out. tk_forwarded t = Some out \<longrightarrow> rq_target out = Some target) \<and>
        L = (if breaker_cfg route = None then []
          else breaker_call x i route target True (EvAllow now) #
            (if res \<noteq> Returned then []
             else if 500 \<le> Rec_Status (tk_w t) then [breaker_call x i route target True (EvFailure now1 now2)]
             else if 0 < Rec_Status (tk_w t) then [breaker_call x i route target True EvSuccess]
             else [])))"

lemma passed_use:
  assumes "is_endpoint s route target" "cleared x s t route r"
    and "tk_forwarded t = None \<longrightarrow> written_status (w_ops (tk_w t)) = 502"
    and "tk_forwarded t = proxy_request (r\<lparr>rq_target := Some target\<rparr>)"
    and "L = limit_calls i route r True @ allow_calls x i route target now True @
      told_calls x i route target now1 now2 res t"
  shows "breaker_use x s i t res (filter asks_breaker L)"
proof -
  have out: "\<forall>out. tk_forwarded t = Some out \<longrightarrow> rq_target out = Some target"
    using assms(4) proxy_request_frame(4) [of "r\<lparr>rq_target := Some target\<rparr>"] by auto
  have "filter asks_breaker L = (if breaker_cfg route = None then []
        else breaker_call x i route target True (EvAllow now) #
          (if res \<noteq> Returned then []
           else if 500 \<le> Rec_Status (tk_w t) then [breaker_call x i route target True (EvFailure now1 now2)]
           else if 0 < Rec_Status (tk_w t) then [breaker_call x i route target True EvSuccess]
           else []))"
    by (simp add: assms(5) call_defs told_events_def)
  with assms(1-3) out show ?thesis unfolding breaker_use_def by (auto simp: cleared_def)
qed

lemma calls_end_use:
  assumes "calls_end x s i t res L"
  shows "breaker_use x s i t res (filter asks_breaker L)"
  using assms unfolding calls_end_def
proof (elim disjE exE conjE)
  fix route r
  assume "L = limit_calls i route r False" "tk_forwarded t = None" "written_status (w_ops (tk_w t)) = 429"
  then show ?thesis by (simp add: breaker_use_def call_defs)
next
  fix route target r now
  assume "is_endpoint s route target" "cleared x s t route r" "breaker_cfg route \<noteq> None"
    "L = limit_calls i route r True @ allow_calls x i route target now False"
    "tk_forwarded t = None" "written_status (w_ops (tk_w t)) = 503"
  then show ?thesis by (auto simp: breaker_use_def call_defs cleared_def)
next
  fix route target r now now1 now2
  assume "is_endpoint s route target" "cleared x s t route r"
    "tk_forwarded t = None \<longrightarrow> written_status (w_ops (tk_w t)) = 502"
    "tk_forwarded t = proxy_request (r\<lparr>rq_target := Some target\<rparr>)"
    "L = limit_calls i route r True @ allow_calls x i route target now True @
      told_calls x i route target now1 now2 res t"
  then show ?thesis by (rule passed_use)
qed (auto simp: breaker_use_def)

subsection \<open>Through a breaker\<close>

text \<open>A handler on its way to its target, or back from it, that had to pass the breaker under a key.\<close>

definition through :: "('k, 'pe) externals \<Rightarrow> string \<Rightarrow> task \<Rightarrow> bool" where
  "through x k t \<longleftrightarrow> (\<exists>route target. tk_route t = Some route \<and> breaker_cfg route \<noteq> None \<and>
     k = breaker_key (rt_ID route) (x_url_string x target) \<and>
     ((\<exists>r. tk_phase t = AtProxy route target r) \<or>
      (\<exists>out. tk_forwarded t = Some out \<and> rq_target out = Some target)))"

text \<open>The only way through a breaker is its \<open>Allow\<close>.\<close>

lemma advance_through:
  assumes "advance x mo (s, t) = (s', t')" "task_ok x s0 s t (tk_phase t)" "through x k t'"
  shows "through x k t \<or>
    (\<exists>cb. breaker_at s k = Some cb \<and> fst (Breaker_Allow (mo_allow_now mo) cb))"
proof (cases "tk_phase t")
  case AtEntry
  with assms show ?thesis by (auto simp: advance_def through_def unsent_def)
next
  case AtRoute
  then have "unsent t" using assms(2) by simp
  with AtRoute assms(1,3) show ?thesis
    by (auto simp: advance_def route_step_def reject_def through_def unsent_def
        split: option.splits prod.splits bool.splits)
next
  case (AtLimit route r)
  then have "unsent t" using assms(2) by simp
  with AtLimit assms(1,3) show ?thesis
    by (auto simp: advance_def limit_step_def limit_result_def reject_def through_def unsent_def Let_def
        split: prod.splits option.splits if_splits)
next
  case (AtFallback route lmt r)
  then have "unsent t" using assms(2) by simp
  with AtFallback assms(1,3) show ?thesis
    by (auto simp: advance_def fallback_step_def limit_result_def reject_def through_def unsent_def Let_def
        split: prod.splits if_splits)
next
  case (AtPick route r)
  then have "unsent t" "tk_route t = Some route" using assms(2) by (simp_all add: cleared_def)
  with AtPick assms(1,3) show ?thesis
    by (auto simp: advance_def pick_step_def reject_def through_def unsent_def Let_def
        split: sum.splits option.splits prod.splits if_splits)
next
  case (AtBreaker route target r)
  then have "unsent t" using assms(2) by simp
  with AtBreaker assms(1,3) show ?thesis by (auto simp: advance_def through_def unsent_def)
next
  case (AtAllow route target r)
  then have u: "unsent t" "tk_route t = Some route" using assms(2) by (simp_all add: cleared_def)
  from assms(3) AtAllow assms(1) u show ?thesis
    by (auto simp: advance_def allow_step_def reject_def through_def unsent_def pointed_breaker_def Let_def
        split: option.splits prod.splits if_splits)
next
  case (AtProxy route target r)
  then have u: "tk_forwarded t = None" "tk_route t = Some route" "rq_target r = Some target"
    using assms(2) by (auto simp: unsent_def cleared_def)
  from assms(1) AtProxy have "tk_forwarded t' = proxy_request r" "tk_route t' = tk_route t"
    "\<And>route target r. tk_phase t' \<noteq> AtProxy route target r"
    by (auto simp: advance_def proxy_step_def proxy_eq split: if_splits)
  with assms(3) AtProxy u proxy_request_frame(4) [of r] show ?thesis
    by (auto simp: through_def)
next
  case (AtRecord route target)
  with assms(1,3) show ?thesis by (auto simp: advance_def through_def)
next
  case (AtTell route target)
  with assms(1,3) show ?thesis by (auto simp: advance_def tell_step_def through_def split: option.splits)
next
  case (AtDefer res)
  with assms(1,3) show ?thesis by (auto simp: advance_def defer_step_def through_def)
next
  case (Finished res)
  with assms(1,3) show ?thesis by (auto simp: advance_def)
qed

subsection \<open>Open breakers\<close>

definition open_until :: "CircuitBreaker \<Rightarrow> instant" where
  "open_until cb = cb_OpenTime cb + cbc_Timeout (cb_config cb)"

definition still_open :: "CircuitBreaker \<Rightarrow> CircuitBreaker \<Rightarrow> bool" where
  "still_open cb cb' \<longleftrightarrow> cb_State cb' = StateOpen \<and> cb_OpenTime cb' = cb_OpenTime cb \<and>
     cb_config cb' = cb_config cb"

lemma still_open_rejects:
  assumes "still_open cb cb'" "cfg_in_range (cb_config cb)" "now < open_until cb"
  shows "Breaker_Allow now cb' = (False, cb')"
  using assms
  by (auto simp: still_open_def open_until_def Breaker_Allow_def time_sub_def cfg_in_range_def sat64_ge_iff)

lemma still_open_event:
  assumes "still_open cb cb'" "cfg_in_range (cb_config cb)" "mo_allow_now mo < open_until cb"
    and "ev \<in> moment_events mo"
  shows "still_open cb (breaker_step ev cb')"
  using assms still_open_rejects [OF assms(1-3)]
  by (auto simp: moment_events_def still_open_def RecordFailure_def RecordSuccess_def Let_def)

lemma open_step:
  assumes "gateway_step x env g g'" "\<And>mo. env mo \<Longrightarrow> mo_allow_now mo < open_until cb"
    and "cfg_in_range (cb_config cb)" "breaker_at (gw_server g) k = Some cb'" "still_open cb cb'"
    and "\<And>i t. gw_tasks g i = Some t \<Longrightarrow> task_ok x s (gw_server g) t (tk_phase t)"
  shows "\<exists>cb'. breaker_at (gw_server g') k = Some cb' \<and> still_open cb cb'"
  using assms(1)
proof cases
  case (run i t mo s' t')
  from advance_breaker [OF run(6) assms(6) [OF run(2)], of k] assms(4) consider "breaker_at s' k = Some cb'"
    | ev where "ev \<in> moment_events mo" "breaker_at s' k = Some (breaker_step ev cb')"
    by auto
  then show ?thesis
    by cases (use assms(5) still_open_event [OF assms(5,3) assms(2) [OF run(3)]] in \<open>simp_all add: run(1)\<close>)
qed (use assms(4,5) in \<open>simp_all add: background_breaker loop_step_kept(5)\<close>)

lemma open_through:
  assumes "gateway_step x env g g'" "\<And>mo. env mo \<Longrightarrow> mo_allow_now mo < open_until cb"
    and "cfg_in_range (cb_config cb)" "breaker_at (gw_server g) k = Some cb'" "still_open cb cb'"
    and "\<And>i t. gw_tasks g i = Some t \<Longrightarrow> task_ok x s (gw_server g) t (tk_phase t)"
    and "gw_tasks g' i = Some t'" "through x k t'"
  shows "\<exists>t. gw_tasks g i = Some t \<and> through x k t"
  using assms(1)
proof cases
  case (arrive j w r)
  with assms(7,8) show ?thesis
    by (cases "j = i") (auto simp: through_def new_task_def)
next
  case (run j t mo s' u)
  show ?thesis
  proof (cases "j = i")
    case True
    with run(1) assms(7) have "u = t'" by simp
    with advance_through [OF run(6) assms(6) [OF run(2)], of k] assms(4,8)
      still_open_rejects [OF assms(5,3) assms(2) [OF run(3)]] run(2) True show ?thesis by auto
  qed (use run(1) assms(7,8) in simp)
qed (use assms(7,8) in simp_all)

lemma gateway_step_mono:
  "gateway_step x env g g' \<Longrightarrow> (\<And>mo. env mo \<Longrightarrow> env' mo) \<Longrightarrow> gateway_step x env' g g'"
proof (induction rule: gateway_step.induct)
  case (run g i t mo s' t')
  show ?case by (rule gateway_step.run [where env = env', OF run(1) _ run(3,4,5)]) (rule run(6) [OF run(2)])
qed (auto intro: gateway_step.intros)

subsection \<open>Properties\<close>

text \<open>
  C13: However the goroutines are interleaved, no call of a breaker is lost or applied twice. Under
  every key the calls logged by the handlers, run in their order on the abstract breaker of a
  route and endpoint with that key, from closed without failures, give exactly the answers the
  handlers got and the breaker the store holds; a key without breaker has no calls. Every call is
  a handler's, and a finished handler made these: none when it answered 404, 401 or 429, the
  refused \<open>Allow\<close> when it answered 503, and otherwise, where its route has a breaker, one admitted
  \<open>Allow\<close> at the breaker of its target, followed, if it returned, by \<open>RecordFailure\<close> for a recorded
  status of 500 or more and \<open>RecordSuccess\<close> for another.
\<close>

theorem concurrent_breakers:
  assumes "gateway_reach x env s g" "server_ok s" "s_breakerStore s = NewBreakerStore"
    and "\<forall>route \<in> set (ro_routes (s_router s)). \<forall>cfg. breaker_cfg route = Some cfg \<longrightarrow> cfg_in_range cfg"
  shows "(let calls = breaker_calls k (gw_calls g)
     in case breaker_at (gw_server g) k of
          None \<Rightarrow> calls = []
        | Some cb \<Rightarrow> \<exists>route target cfg.
            route \<in> set (ro_routes (s_router s)) \<and> is_endpoint s route target \<and>
            breaker_cfg route = Some cfg \<and> k = breaker_key (rt_ID route) (x_url_string x target) \<and>
            (\<forall>ev \<in> fst ` set calls. \<exists>mo. env mo \<and> ev \<in> moment_events mo) \<and>
            abs_run cfg (map fst calls) (AClosed 0) = (allow_answers calls, abs_of cb)) \<and>
    (\<forall>e \<in> set (gw_calls g). gw_tasks g (ce_task e) \<noteq> None) \<and>
    (\<forall>i t res. gw_tasks g i = Some t \<and> tk_phase t = Finished res \<longrightarrow>
       breaker_use x s i t res (breaker_calls_by i g))"
proof (intro conjI allI impI ballI)
  show "let calls = breaker_calls k (gw_calls g)
     in case breaker_at (gw_server g) k of
          None \<Rightarrow> calls = []
        | Some cb \<Rightarrow> \<exists>route target cfg.
            route \<in> set (ro_routes (s_router s)) \<and> is_endpoint s route target \<and>
            breaker_cfg route = Some cfg \<and> k = breaker_key (rt_ID route) (x_url_string x target) \<and>
            (\<forall>ev \<in> fst ` set calls. \<exists>mo. env mo \<and> ev \<in> moment_events mo) \<and>
            abs_run cfg (map fst calls) (AClosed 0) = (allow_answers calls, abs_of cb)"
  proof (cases "breaker_at (gw_server g) k")
    case None
    with breakers_replayed [OF assms(1-3), of k] show ?thesis by (simp add: breaker_replayed_def)
  next
    case (Some cb)
    with breakers_replayed [OF assms(1-3), of k] obtain route target cfg where e:
      "route \<in> set (ro_routes (s_router s))" "is_endpoint s route target" "breaker_cfg route = Some cfg"
      "k = breaker_key (rt_ID route) (x_url_string x target)"
      "\<forall>ev \<in> fst ` set (breaker_calls k (gw_calls g)). \<exists>mo. env mo \<and> ev \<in> moment_events mo"
      "breaker_run (map fst (breaker_calls k (gw_calls g))) (NewCircuitBreaker cfg) =
        (allow_answers (breaker_calls k (gw_calls g)), cb)"
      by (auto simp: breaker_replayed_def breaker_run_of_def)
    then have "abs_run cfg (map fst (breaker_calls k (gw_calls g))) (AClosed 0) =
        (allow_answers (breaker_calls k (gw_calls g)), abs_of cb)"
      using run_refines [OF count_inv_new, of cfg "map fst (breaker_calls k (gw_calls g))"] assms(4) by simp
    with e(1-5) Some show ?thesis unfolding Let_def by (simp only: option.case) blast
  qed
  fix e
  assume "e \<in> set (gw_calls g)"
  then have "e \<in> set (calls_by (ce_task e) g)" by (simp add: calls_by_def)
  with calls_reach [OF assms(1,2)] show "gw_tasks g (ce_task e) \<noteq> None" by fastforce
next
  fix i t res
  assume "gw_tasks g i = Some t \<and> tk_phase t = Finished res"
  with calls_end_use [OF calls_finished [OF assms(1,2)]] show "breaker_use x s i t res (breaker_calls_by i g)"
    by (simp add: breaker_calls_by)
qed

text \<open>
  C12: An open breaker sheds its load under any concurrency: while \<open>Allow\<close> reads the clock before
  the breaker's timeout, no interleaving closes or reopens it, and no handler goes through it
  that was not through when it opened, whatever the ones still out report.
\<close>

theorem open_breaker_sheds:
  assumes "gateway_reach x env s g" "server_ok s"
    and "breaker_at (gw_server g) k = Some cb" "cb_State cb = StateOpen" "cfg_in_range (cb_config cb)"
    and "(gateway_step x (\<lambda>mo. env mo \<and> mo_allow_now mo < cb_OpenTime cb + cbc_Timeout (cb_config cb)))\<^sup>*\<^sup>* g g'"
  shows "(\<exists>cb'. breaker_at (gw_server g') k = Some cb' \<and> cb_State cb' = StateOpen \<and>
      cb_OpenTime cb' = cb_OpenTime cb) \<and>
    (\<forall>i t'. gw_tasks g' i = Some t' \<and> through x k t' \<longrightarrow> (\<exists>t. gw_tasks g i = Some t \<and> through x k t))"
proof -
  let ?env = "\<lambda>mo. env mo \<and> mo_allow_now mo < cb_OpenTime cb + cbc_Timeout (cb_config cb)"
  have before: "?env mo \<Longrightarrow> mo_allow_now mo < open_until cb" for mo by (simp add: open_until_def)
  have "gateway_reach x env s g' \<and>
      (\<exists>cb'. breaker_at (gw_server g') k = Some cb' \<and> still_open cb cb') \<and>
      (\<forall>i t'. gw_tasks g' i = Some t' \<and> through x k t' \<longrightarrow> (\<exists>t. gw_tasks g i = Some t \<and> through x k t))"
    using assms(6)
  proof (induction rule: rtranclp_induct)
    case base
    with assms(1,3,4) show ?case by (auto simp: still_open_def)
  next
    case (step h h')
    then obtain cb' where h: "gateway_reach x env s h" "breaker_at (gw_server h) k = Some cb'" "still_open cb cb'"
      by blast
    have "gateway_reach x env s h'"
      by (rule gateway_reach.step [OF h(1) gateway_step_mono [OF step(2)]]) simp
    moreover have "\<exists>cb'. breaker_at (gw_server h') k = Some cb' \<and> still_open cb cb'"
      by (rule open_step [OF step(2) before assms(5) h(2,3) tasks_ok_reach [OF h(1) assms(2)]])
    moreover have "\<exists>t. gw_tasks h i = Some t \<and> through x k t"
      if "gw_tasks h' i = Some t' \<and> through x k t'" for i t'
      using that tasks_ok_reach [OF h(1) assms(2)]
      by (intro open_through [OF step(2) before assms(5) h(2,3), of s i t']) auto
    ultimately show ?case using step.IH by blast
  qed
  then show ?thesis by (auto simp: still_open_def)
qed

subsection \<open>Witnesses\<close>

lemma demo_breaker_cfg:
  "breaker_cfg open_route = Some sample_breaker_cfg" "rt_ID open_route = ''open''"
  "\<forall>route \<in> set (ro_routes (s_router demo_server)). \<forall>cfg. breaker_cfg route = Some cfg \<longrightarrow> cfg_in_range cfg"
proof -
  show b: "breaker_cfg open_route = Some sample_breaker_cfg" "rt_ID open_route = ''open''"
    by (simp_all add: breaker_cfg_def open_route_def sample_breaker_cfg_def)
  have "ro_routes (s_router demo_server) = [open_route, closed_route]"
    by (simp add: New_Server_simps [OF demo_New] New_Router_def demo_config_def)
  moreover have "breaker_cfg closed_route = None"
    by (simp add: breaker_cfg_def closed_route_def sample_route_def)
  ultimately show "\<forall>route \<in> set (ro_routes (s_router demo_server)). \<forall>cfg. breaker_cfg route = Some cfg \<longrightarrow> cfg_in_range cfg"
    using b(1) sample_breaker_range by auto
qed

lemma demo_served_breaker:
  "breaker_at (sv_server (serveRoute demo_externals (demo_moment ok_exchange) demo_server new_writer open_request))
     ''open:http://a'' \<noteq> None"
proof -
  let ?a = "serve_admit demo_externals (demo_moment ok_exchange) (serve_begin demo_server) (new_recorder new_writer) open_request"
  have a: "?a = (Admitted open_route (sample_url ''a'') (open_request\<lparr>rq_target := Some (sample_url ''a'')\<rparr>), snd ?a)"
    using demo_admit [of ok_exchange] by (metis prod.collapse)
  obtain w' s' where ws: "snd ?a = (w', s')" by (metis prod.collapse)
  have key: "breaker_key (rt_ID open_route) (x_url_string demo_externals (sample_url ''a'')) = ''open:http://a''"
    by (simp add: demo_breaker_cfg breaker_key_def demo_externals_def sample_url_def)
  obtain calls res where ex: "proxy_exchange (demo_moment ok_exchange)
      (open_request\<lparr>rq_target := Some (sample_url ''a'')\<rparr>) = (calls, res)"
    by fastforce
  show ?thesis
    using serve_admit_breaker [OF a [unfolded ws] demo_breaker_cfg(1), of "''open:http://a''"]
    unfolding serveRoute_Admitted [OF a [unfolded ws]] ex
    by (simp add: key Let_def record_result_at [OF demo_breaker_cfg(1)])
qed

lemma concurrent_breakers_witness:
  "\<exists>g t cb calls. gateway_reach demo_externals (\<lambda>mo :: (unit, redis_map) moment. True) demo_server g \<and>
     gw_tasks g 0 = Some t \<and> finished t \<and> breaker_at (gw_server g) ''open:http://a'' = Some cb \<and>
     calls = breaker_calls ''open:http://a'' (gw_calls g) \<and>
     (\<exists>cfg. abs_run cfg (map fst calls) (AClosed 0) = (allow_answers calls, abs_of cb)) \<and>
     (\<exists>now L. breaker_calls_by 0 g = breaker_call demo_externals 0 open_route (sample_url ''a'') True (EvAllow now) # L)"
proof -
  obtain g t where g: "gateway_reach demo_externals (\<lambda>mo :: (unit, redis_map) moment. True) demo_server g"
    "gw_tasks g = [0 \<mapsto> t]" "finished t"
    "gw_server g = sv_server (serveRoute demo_externals (demo_moment ok_exchange) demo_server new_writer open_request)"
    "tk_forwarded t = sv_forwarded (serveRoute demo_externals (demo_moment ok_exchange) demo_server new_writer open_request)"
    "tk_request t = open_request"
    using gateway_serves [of "\<lambda>mo. True" "demo_moment ok_exchange" new_writer demo_externals demo_server open_request]
    by (auto simp: new_writer_def)
  obtain cb where cb: "breaker_at (gw_server g) ''open:http://a'' = Some cb"
    using demo_served_breaker g(4) by auto
  note C = concurrent_breakers [OF g(1) demo_server_ok demo_facts(5) demo_breaker_cfg(3), of "''open:http://a''"]
  from C cb obtain cfg where run: "abs_run cfg (map fst (breaker_calls ''open:http://a'' (gw_calls g))) (AClosed 0) =
      (allow_answers (breaker_calls ''open:http://a'' (gw_calls g)), abs_of cb)"
    by (auto simp: Let_def)
  have t: "gw_tasks g 0 = Some t" by (simp add: g(2))
  from g(3) obtain res where res: "tk_phase t = Finished res" by (auto simp: finished_iff)
  obtain out where out: "proxy_request (open_request\<lparr>rq_target := Some (sample_url ''a'')\<rparr>) = Some out"
    using demo_proxied by blast
  then have fwd: "tk_forwarded t = Some out" using g(5) sv_forwarded_Admitted [OF demo_admit] by simp
  have target: "rq_target out = Some (sample_url ''a'')" using proxy_request_frame(4) [OF out] by simp
  have rt: "tk_route t = Some open_route"
  proof -
    have "task_ok demo_externals demo_server (gw_server g) t (tk_phase t)"
      by (rule tasks_ok_reach [OF g(1) demo_server_ok t])
    with fwd res have "gone demo_externals demo_server t" by (auto simp: answered_def ended_well_def)
    with g(6) demo_facts(1) show ?thesis by (auto simp: gone_def sent_def cleared_def)
  qed
  have "breaker_use demo_externals demo_server 0 t res (breaker_calls_by 0 g)" using C t res by blast
  with fwd rt target demo_breaker_cfg(1) have use: "\<exists>now L. breaker_calls_by 0 g =
      breaker_call demo_externals 0 open_route (sample_url ''a'') True (EvAllow now) # L"
    by (auto simp: breaker_use_def)
  show ?thesis
    using C t res run cb g(1,3) use by blast
qed

text \<open>The sample server with the breaker of the first target open since 2: its timeout is 100.\<close>

definition shedding_server :: "(nat, redis_map) Server" where
  "shedding_server = demo_server\<lparr>s_breakerStore := put_breaker ''open:http://a''
     ((NewCircuitBreaker sample_breaker_cfg)\<lparr>cb_State := StateOpen, cb_OpenTime := 2\<rparr>) NewBreakerStore\<rparr>"

lemma shedding_server_ok: "server_ok shedding_server"
  by (rule server_ok_cong [OF _ _ _ demo_server_ok]) (simp_all add: shedding_server_def)

lemma reach_steps: "gateway_reach x env s g \<Longrightarrow> \<exists>now ms. (gateway_step x env)\<^sup>*\<^sup>* (new_gateway s now ms) g"
  by (induction rule: gateway_reach.induct) (auto intro: rtranclp.rtrancl_into_rtrancl)

lemma open_breaker_sheds_witness:
  "\<exists>(g :: (nat, redis_map) gateway) t. gw_tasks g 0 = Some t \<and> finished t \<and> tk_request t = open_request \<and>
     \<not> through demo_externals ''open:http://a'' t \<and>
     (\<exists>cb. breaker_at (gw_server g) ''open:http://a'' = Some cb \<and> cb_State cb = StateOpen)"
proof -
  let ?cb = "(NewCircuitBreaker sample_breaker_cfg)\<lparr>cb_State := StateOpen, cb_OpenTime := 2\<rparr>"
  let ?env = "\<lambda>mo :: (unit, redis_map) moment. True \<and> mo_allow_now mo < cb_OpenTime ?cb + cbc_Timeout (cb_config ?cb)"
  have cfg: "cb_config ?cb = sample_breaker_cfg" by (simp add: NewCircuitBreaker_def)
  have env: "?env (demo_moment ok_exchange)"
    by (simp add: demo_moment_def NewCircuitBreaker_def sample_breaker_cfg_def)
  obtain g t where g: "gateway_reach demo_externals ?env shedding_server g" "gw_tasks g = [0 \<mapsto> t]"
    "finished t" "tk_request t = open_request"
    using gateway_serves [of ?env "demo_moment ok_exchange" new_writer demo_externals shedding_server open_request, OF env]
    by (auto simp: new_writer_def)
  from reach_steps [OF g(1)] obtain now ms where
    steps: "(gateway_step demo_externals ?env)\<^sup>*\<^sup>* (new_gateway shedding_server now ms) g" by blast
  have at: "breaker_at (gw_server (new_gateway shedding_server now ms)) ''open:http://a'' = Some ?cb"
    by (simp add: new_gateway_def breaker_at_def shedding_server_def)
  have "cb_State ?cb = StateOpen" "cfg_in_range (cb_config ?cb)"
    using cfg sample_breaker_range by simp_all
  from open_breaker_sheds [OF gateway_reach.start shedding_server_ok at this steps] g(2)
  have "(\<exists>cb. breaker_at (gw_server g) ''open:http://a'' = Some cb \<and> cb_State cb = StateOpen)"
    "\<not> through demo_externals ''open:http://a'' t"
    by (auto simp: new_gateway_def)
  with g(2-4) show ?thesis by (intro exI [of _ g] exI [of _ t]) simp
qed

end
