(* ===== verification/Gateway_Types.thy ===== *)
theory Gateway_Types
  imports Gateway_Breakers
begin

text \<open>
  The values of a running gateway fit the Go types they are declared with, in every
  interleaving of theory \<open>Gateway_Concurrent\<close>. Theories keep several machine integers as \<open>int\<close>;
  this one shows that none of them leaves its range, and that the fields which are tied to a
  state of the breaker or to a place in the handler always agree with it.

  \<open>server_typed\<close> is the shared state, \<open>task_typed\<close> a handler's own. A step keeps both
  (preservation), a new server on a configuration in range has them.
\<close>

subsection \<open>Shared state\<close>

text \<open>A breaker: closed, it counts below its threshold and has no opening instant; half-open, it
  has forgotten its failures.\<close>

definition breaker_typed :: "CircuitBreaker \<Rightarrow> bool" where
  "breaker_typed cb \<longleftrightarrow> cfg_in_range (cb_config cb) \<and> in_int64 (cb_FailureCount cb) \<and>
     (case cb_State cb of
        StateClosed \<Rightarrow> 0 \<le> cb_FailureCount cb \<and> cb_FailureCount cb < trip_count (cb_config cb) \<and>
          cb_OpenTime cb = zero_time
      | StateOpen \<Rightarrow> True
      | StateHalfOpen \<Rightarrow> cb_FailureCount cb = 0 \<and> cb_LastFailure cb = zero_time)"

definition memory_typed :: "memoryLimiter \<Rightarrow> bool" where
  "memory_typed m \<longleftrightarrow> (\<forall>k e. m k = Some e \<longrightarrow> in_int64 (me_count e))"

text \<open>Metrics hold \<open>float64\<close> values: integers of at most 53 bits, and states.\<close>

definition counts_typed :: "(string, int) mapping \<Rightarrow> bool" where
  "counts_typed mp \<longleftrightarrow> (\<forall>k v. Mapping.lookup mp k = Some v \<longrightarrow> v \<in> {0..9007199254740992})"

definition metrics_typed :: "Metrics \<Rightarrow> bool" where
  "metrics_typed m \<longleftrightarrow>
     g_value (m_ActiveConnections m) \<in> {- 9007199254740992..9007199254740992} \<and>
     counts_typed (cv_values (m_RequestsTotal m)) \<and> counts_typed (cv_values (m_RateLimitRejections m)) \<and>
     (\<forall>k v. Mapping.lookup (gv_values (m_CircuitBreakerState m)) k = Some v \<longrightarrow> v \<in> {0, 1, 2})"

definition routes_typed :: "Router \<Rightarrow> bool" where
  "routes_typed ro \<longleftrightarrow>
     (\<forall>route \<in> set (ro_routes ro). \<forall>cfg. breaker_cfg route = Some cfg \<longrightarrow> cfg_in_range cfg)"

definition server_typed :: "('k, 'r) Server \<Rightarrow> bool" where
  "server_typed s \<longleftrightarrow> routes_typed (s_router s) \<and>
     (\<forall>k cb. breaker_at s k = Some cb \<longrightarrow> breaker_typed cb) \<and>
     memory_typed (rlm_memory (s_rateLimiter s)) \<and> metrics_typed (s_metrics s)"

lemma server_typedD:
  assumes "server_typed s"
  shows "routes_typed (s_router s)" "\<And>k cb. breaker_at s k = Some cb \<Longrightarrow> breaker_typed cb"
    "memory_typed (rlm_memory (s_rateLimiter s))" "metrics_typed (s_metrics s)"
  using assms by (simp_all add: server_typed_def)

subsection \<open>Breakers keep their types\<close>

lemma new_breaker_typed: "cfg_in_range cfg \<Longrightarrow> breaker_typed (NewCircuitBreaker cfg)"
  by (simp add: breaker_typed_def NewCircuitBreaker_def trip_count_def in_int64_def min_int64_def
      max_int64_def)

lemma breaker_typed_wrap:
  "breaker_typed cb \<Longrightarrow> cb_State cb = StateClosed \<Longrightarrow>
     wrap64 (cb_FailureCount cb + 1) = cb_FailureCount cb + 1"
  by (rule count_inv_wrap [of "cb_config cb"]) (simp_all add: breaker_typed_def count_inv_def)

lemma breaker_typed_step: "breaker_typed cb \<Longrightarrow> breaker_typed (breaker_step ev cb)"
proof (cases ev)
  case (EvAllow t)
  then show "breaker_typed cb \<Longrightarrow> ?thesis"
    by (cases "cb_State cb")
      (auto simp: breaker_typed_def Breaker_Allow_def in_int64_def min_int64_def max_int64_def)
next
  case (EvFailure t1 t2)
  moreover have "in_int64 (wrap64 (cb_FailureCount cb + 1))" by (rule wrap64_range)
  ultimately show "breaker_typed cb \<Longrightarrow> ?thesis"
    using breaker_typed_wrap [of cb]
    by (cases "cb_State cb")
      (auto simp: breaker_typed_def RecordFailure_def Let_def trip_count_def)
next
  case EvSuccess
  then show "breaker_typed cb \<Longrightarrow> ?thesis"
    by (cases "cb_State cb")
      (auto simp: breaker_typed_def RecordSuccess_def trip_count_def in_int64_def min_int64_def max_int64_def)
qed

lemma advance_breaker_typed:
  assumes "advance x mo (s, t) = (s', t')" "task_ok x s0 s t (tk_phase t)" "grows s0 s"
    and "server_typed s" "breaker_at s' k = Some cb"
  shows "breaker_typed cb"
proof -
  from advance_breaker [OF assms(1,2), where k = k and i = 0] assms(5) consider "breaker_at s k = Some cb"
    | cb' ev where "breaker_at s k = Some cb'" "cb = breaker_step ev cb'"
    | "breaker_created x t k cb"
    by auto
  then show ?thesis
  proof cases
    case 3
    then obtain route target cfg where c:
      "(\<exists>r. tk_phase t = AtBreaker route target r) \<or> tk_phase t = AtRecord route target"
      "breaker_cfg route = Some cfg" "cb = NewCircuitBreaker cfg"
      unfolding breaker_created_def by blast
    from c(1) assms(2) have "\<exists>r. cleared x s0 t route r" by (auto simp: sent_def)
    then have "route \<in> set (ro_routes (s_router s))"
      using assms(3) by (auto simp: cleared_def Match_in_table grows_def)
    with c(2) server_typedD(1) [OF assms(4)] have "cfg_in_range cfg" by (simp add: routes_typed_def)
    then show ?thesis unfolding c(3) by (rule new_breaker_typed)
  qed (use server_typedD(2) [OF assms(4)] breaker_typed_step in auto)
qed

subsection \<open>Limiter and metrics keep their types\<close>

lemma memory_typed_allow: "memory_typed m \<Longrightarrow> memory_typed (snd (memory_allow rid client l w now until m))"
  by (simp add: memory_typed_def memory_allow_def memory_allow_key_state wrap64_range)

lemma memory_typed_clean: "memory_typed m \<Longrightarrow> memory_typed (cleanExpired now m)"
  by (auto simp: memory_typed_def cleanExpired_def split: option.splits if_splits)

lemma memory_typed_redis:
  "rlm_memory (snd (RL_redis run rl rid client lmt)) = rlm_memory rl"
  by (simp add: RL_redis_def split: option.split sum.split prod.split)

lemma memory_typed_fallback:
  "memory_typed (rlm_memory rl) \<Longrightarrow> memory_typed (rlm_memory (snd (RL_fallback now until rl rid client lmt)))"
  using memory_typed_allow [of "rlm_memory rl" rid client "rl_Requests lmt" "rl_Window lmt" now until]
  by (auto simp: RL_fallback_def split: prod.splits)

lemma counts_typed_inc: "counts_typed (cv_values v) \<Longrightarrow> counts_typed (cv_values (Counter_Inc lvs v))"
  by (force simp: counts_typed_def Counter_Inc_def Let_def lookup_update' lookup_default_def float_inc_def
      split: option.splits if_splits)

lemma metrics_typed_gauge:
  "metrics_typed m \<Longrightarrow> metrics_typed (m\<lparr>m_ActiveConnections := Gauge_Inc (m_ActiveConnections m)\<rparr>)"
  "metrics_typed m \<Longrightarrow> metrics_typed (m\<lparr>m_ActiveConnections := Gauge_Dec (m_ActiveConnections m)\<rparr>)"
  by (auto simp: metrics_typed_def Gauge_Inc_def Gauge_Dec_def float_inc_def float_dec_def)

lemma metrics_typed_request: "metrics_typed m \<Longrightarrow> metrics_typed (RecordRequest rnd route me code d m)"
  by (simp add: metrics_typed_def RecordRequest_def counts_typed_inc)

lemma metrics_typed_rejection: "metrics_typed m \<Longrightarrow> metrics_typed (RecordRateLimitRejection route m)"
  by (simp add: metrics_typed_def RecordRateLimitRejection_def counts_typed_inc)

lemma state_int_typed: "state_int st \<in> {0, 1, 2}"
  by (cases st) simp_all

lemma metrics_typed_reset:
  "metrics_typed m \<Longrightarrow> metrics_typed (m\<lparr>m_CircuitBreakerState := GaugeVec_Reset (m_CircuitBreakerState m)\<rparr>)"
  by (simp add: metrics_typed_def GaugeVec_Reset_def)

lemma metrics_typed_set:
  "metrics_typed m \<Longrightarrow> metrics_typed (m\<lparr>m_CircuitBreakerState :=
     GaugeVec_Set (state_int st) labels (m_CircuitBreakerState m)\<rparr>)"
  using state_int_typed [of st] by (auto simp: metrics_typed_def GaugeVec_Set_def lookup_update' split: if_splits)

lemma metrics_typed_new: "metrics_typed (NewMetrics rnd)"
  by (simp add: metrics_typed_def counts_typed_def NewMetrics_def NewCounterVec_def NewGaugeVec_def)

subsection \<open>The server keeps its types\<close>

lemma server_typed_fields:
  "server_typed s \<Longrightarrow> metrics_typed m \<Longrightarrow> server_typed (s\<lparr>s_metrics := m\<rparr>)"
  "server_typed s \<Longrightarrow> memory_typed (rlm_memory rl) \<Longrightarrow> server_typed (s\<lparr>s_rateLimiter := rl\<rparr>)"
  "server_typed (s\<lparr>s_breakerDone := b\<rparr>) = server_typed s"
  "server_typed (s\<lparr>s_balancers := lbs\<rparr>) = server_typed s"
  by (auto simp: server_typed_def breaker_at_def)

lemma server_typed_begin: "server_typed s \<Longrightarrow> server_typed (serve_begin s)"
  unfolding serve_begin_def by (intro server_typed_fields(1) metrics_typed_gauge(1) server_typedD(4))

lemma server_typed_deferred: "server_typed s \<Longrightarrow> server_typed (serve_deferred x mo route r w s)"
  unfolding serve_deferred_def Let_def
  by (intro server_typed_fields(1) metrics_typed_request metrics_typed_gauge(2) server_typedD(4))

lemma server_typed_limit:
  assumes "limit_result x mo route lmt r a (s, t) = (s', t')" "server_typed s"
  shows "server_typed s'"
  using assms
  by (auto simp: limit_result_def Let_def server_typed_fields(1) metrics_typed_rejection server_typedD(4)
      split: prod.splits if_splits)

lemma server_typed_background:
  "server_typed s \<Longrightarrow> server_typed (clean_limiter now s)"
  "server_typed s \<Longrightarrow> server_typed (snd (Server_Shutdown stop_metrics stop_main close_main is_deadline s))"
  by (simp_all add: clean_limiter_def RL_clean_def Server_Shutdown_def Let_def
      server_typed_fields memory_typed_clean server_typedD(3,4))

lemma server_typed_loop:
  assumes "loop_step ks (s, l) = (s', l')" "server_typed s"
  shows "server_typed s'"
proof -
  note m = server_typedD(4) [OF assms(2)]
  note ok = server_typed_fields(1) [OF assms(2) metrics_typed_reset [OF m]]
    server_typed_fields(1) [OF assms(2) metrics_typed_set [OF m]] assms(2)
  have "server_typed (fst (loop_step ks (s, l)))"
    by (cases "(ks, s, l)" rule: loop_step.cases) (use ok in \<open>auto split: option.split\<close>)
  with assms(1) show ?thesis by simp
qed

lemma server_typed_breakers:
  assumes "server_typed s" "grows s s'" "\<forall>k cb. breaker_at s' k = Some cb \<longrightarrow> breaker_typed cb"
    and "s_rateLimiter s' = s_rateLimiter s" "s_metrics s' = s_metrics s"
  shows "server_typed s'"
  using assms by (simp add: server_typed_def grows_def)

lemma breaker_steps_frame:
  "s_rateLimiter (set_breaker x route target cb s) = s_rateLimiter s"
  "s_metrics (set_breaker x route target cb s) = s_metrics s"
  "s_rateLimiter (create_breaker x route target s) = s_rateLimiter s"
  "s_metrics (create_breaker x route target s) = s_metrics s"
  by (simp_all add: set_breaker_def create_breaker_def split: option.split)

lemma server_typed_advance:
  assumes "advance x mo (s, t) = (s', t')" "task_ok x s0 s t (tk_phase t)" "grows s0 s" "server_typed s"
  shows "server_typed s'"
proof -
  have "\<forall>k cb. breaker_at s' k = Some cb \<longrightarrow> breaker_typed cb"
    using advance_breaker_typed [OF assms] by blast
  note keep = server_typed_breakers [OF assms(4) grows_advance [OF assms(1)] this]
  show ?thesis
  proof (cases "tk_phase t")
    case (AtLimit route r)
    have "server_typed (s\<lparr>s_rateLimiter := rl\<rparr>)"
      if "RL_redis (mo_redis mo) (s_rateLimiter s) (rt_ID route) (client_id r route) lmt = (a, rl)" for a rl lmt
      using memory_typed_redis [of "mo_redis mo" "s_rateLimiter s" "rt_ID route" "client_id r route" lmt]
      by (intro server_typed_fields(2) assms(4)) (simp add: that server_typedD(3) [OF assms(4)])
    with AtLimit assms(1,4) show ?thesis
      by (auto simp: advance_def limit_step_def dest: server_typed_limit split: option.splits prod.splits)
  next
    case (AtFallback route lmt r)
    have "server_typed (s\<lparr>s_rateLimiter := rl\<rparr>)"
      if "RL_fallback (mo_limit_now mo) (mo_limit_until mo) (s_rateLimiter s) (rt_ID route)
            (client_id r route) lmt = (a, rl)" for a rl
      using memory_typed_fallback [OF server_typedD(3) [OF assms(4)], of "mo_limit_now mo" "mo_limit_until mo"
          "rt_ID route" "client_id r route" lmt]
      by (intro server_typed_fields(2) assms(4)) (simp add: that)
    with AtFallback assms(1) show ?thesis
      by (auto simp: advance_def fallback_step_def dest: server_typed_limit split: prod.splits)
  next
    case (AtPick route r)
    with assms(1,4) show ?thesis
      by (auto simp: advance_def pick_step_def Let_def server_typed_fields(4)
          split: sum.splits option.splits prod.splits if_splits)
  next
    case (AtAllow route target r)
    with assms(1) have "s_rateLimiter s' = s_rateLimiter s" "s_metrics s' = s_metrics s"
      by (auto simp: advance_def allow_step_def Let_def breaker_steps_frame
          split: option.splits prod.splits if_splits)
    then show ?thesis by (rule keep)
  next
    case (AtTell route target)
    with assms(1) have "s_rateLimiter s' = s_rateLimiter s" "s_metrics s' = s_metrics s"
      by (auto simp: advance_def tell_step_def breaker_steps_frame split: option.splits)
    then show ?thesis by (rule keep)
  next
    case (AtBreaker route target r)
    with assms(1) have "s' = create_breaker x route target s" by (simp add: advance_def)
    then show ?thesis by (intro keep) (simp_all add: breaker_steps_frame)
  next
    case (AtRecord route target)
    with assms(1) have "s' = create_breaker x route target s" by (simp add: advance_def)
    then show ?thesis by (intro keep) (simp_all add: breaker_steps_frame)
  qed (use assms(1,4) server_typed_begin server_typed_deferred in \<open>auto simp: advance_def defer_step_def\<close>)
qed

subsection \<open>Handlers keep their types\<close>

text \<open>What the transport promises of a reply: three-digit codes, the early ones informational.\<close>

definition reply_typed :: "upstream_reply \<Rightarrow> bool" where
  "reply_typed up \<longleftrightarrow> early_ok up \<and>
     (case ur_answer up of RoundTripError \<Rightarrow> True | Answer res \<Rightarrow> us_StatusCode res \<in> {0..999})"

fun returned :: "phase \<Rightarrow> bool" where
  "returned (AtRecord route target) \<longleftrightarrow> True"
| "returned (AtTell route target) \<longleftrightarrow> True"
| "returned (AtDefer res) \<longleftrightarrow> res = Returned"
| "returned (Finished res) \<longleftrightarrow> res = Returned"
| "returned ph \<longleftrightarrow> False"

text \<open>A handler's status is none yet (0) or a three-digit code, which it has once it returns.\<close>

definition task_typed :: "task \<Rightarrow> bool" where
  "task_typed t \<longleftrightarrow> Rec_Status (tk_w t) \<in> {0..999} \<and> (returned (tk_phase t) \<longrightarrow> 100 \<le> Rec_Status (tk_w t))"

lemma early_status_range:
  assumes "early_ok up" "ur_early up \<noteq> []" "\<not> sr_wroteHeader w"
  shows "sr_statusCode (rec_run (fst (exchange_of up)) w) \<in> {100..199}"
  unfolding exchange_early_status [OF assms]
  using assms(1,2) by (cases "ur_early up") (auto simp: early_ok_def informational_def)

lemma response_status:
  assumes "\<not> sr_wroteHeader w"
  shows "sr_statusCode (rec_run (fst (response_calls res)) w) = us_StatusCode res"
  using assms by (simp add: response_calls_def Let_def rec_run_append rec_run_Cons)

lemma exchange_status_typed:
  assumes "reply_typed up" "fresh w"
  shows "sr_statusCode (rec_run (fst (exchange_of up)) w) \<in> {0..999}"
    and "snd (exchange_of up) = Returned \<Longrightarrow> 100 \<le> sr_statusCode (rec_run (fst (exchange_of up)) w)"
proof -
  have w: "\<not> sr_wroteHeader w" using assms(2) by (simp add: fresh_def)
  have "sr_statusCode (rec_run (fst (exchange_of up)) w) \<in> {0..999} \<and>
    (snd (exchange_of up) = Returned \<longrightarrow> 100 \<le> sr_statusCode (rec_run (fst (exchange_of up)) w))"
  proof (cases "ur_early up = []")
    case True
    show ?thesis
    proof (cases "ur_answer up")
      case RoundTripError
      with True w show ?thesis by (simp add: exchange_of_def error_calls_def rec_run_Cons)
    next
      case (Answer res)
      show ?thesis
      proof (cases "us_StatusCode res = 101")
        case True
        with Answer \<open>ur_early up = []\<close> w show ?thesis
          by (simp add: exchange_of_def error_calls_def rec_run_Cons)
      next
        case False
        with Answer True have ex: "exchange_of up = response_calls res"
          by (simp add: exchange_of_def)
        have "snd (response_calls res) = Returned \<Longrightarrow> 100 \<le> us_StatusCode res"
          by (auto simp: response_calls_def Let_def split: if_splits)
        with assms(1) Answer show ?thesis
          by (auto simp: ex response_status [OF w] reply_typed_def)
      qed
    qed
  next
    case False
    with early_status_range [OF _ False w] assms(1) show ?thesis by (simp add: reply_typed_def)
  qed
  then show "sr_statusCode (rec_run (fst (exchange_of up)) w) \<in> {0..999}"
    "snd (exchange_of up) = Returned \<Longrightarrow> 100 \<le> sr_statusCode (rec_run (fst (exchange_of up)) w)"
    by blast+
qed

lemma proxy_status_typed:
  assumes "\<And>out. reply_typed (mo_upstream mo out)" "fresh w"
  shows "sr_statusCode (rec_run (fst (proxy_exchange mo r)) w) \<in> {0..999}"
    and "snd (proxy_exchange mo r) = Returned \<Longrightarrow>
      100 \<le> sr_statusCode (rec_run (fst (proxy_exchange mo r)) w)"
  using exchange_status_typed [OF assms] assms(2)
  by (auto simp: proxy_exchange_def error_calls_def rec_run_Cons fresh_def split: option.split)

lemma reject_typed: "unsent t \<Longrightarrow> status \<in> {401, 404, 429, 503} \<Longrightarrow> task_typed (reject status b t)"
  using writeJSON_status [of "tk_w t" status b]
  by (auto simp: task_typed_def reject_def unsent_def informational_def)

lemma unsent_typed: "unsent t \<Longrightarrow> \<not> returned (tk_phase t) \<Longrightarrow> task_typed t"
  by (simp add: task_typed_def unsent_def fresh_def Rec_Status_def)

lemma limit_result_typed:
  assumes "limit_result x mo route lmt r a (s, t) = (s', t')" "unsent t"
  shows "task_typed t'"
proof -
  obtain allowed remaining reset where a: "a = (allowed, remaining, reset)" by (metis prod_cases3)
  let ?w = "limit_headers (rl_Requests lmt) remaining (unix_seconds (mo_reset_now mo + reset)) (tk_w t)"
  let ?t = "t\<lparr>tk_w := Rec_SetHeader ?w ''Retry-After'' (Itoa (retry_after (x_rnd x) reset))\<rparr>"
  have "unsent ?t" using assms(2) by (simp add: unsent_def)
  then have "task_typed (reject 429 body_rate_limited ?t)" by (rule reject_typed) simp
  moreover have "task_typed (t\<lparr>tk_w := ?w, tk_phase := AtPick route r\<rparr>)"
    by (rule unsent_typed) (use assms(2) in \<open>simp_all add: unsent_def\<close>)
  ultimately show ?thesis using assms(1) by (auto simp: a limit_result_def Let_def split: if_splits)
qed

lemma task_typed_same:
  "task_typed t \<Longrightarrow> tk_w t' = tk_w t \<Longrightarrow> (returned (tk_phase t') \<Longrightarrow> returned (tk_phase t)) \<Longrightarrow> task_typed t'"
  by (auto simp: task_typed_def)

lemma task_typed_advance:
  assumes "advance x mo (s, t) = (s', t')" "task_ok x s0 s t (tk_phase t)"
    and "\<And>out. reply_typed (mo_upstream mo out)" "task_typed t"
  shows "task_typed t'"
proof (cases "tk_phase t")
  case AtRoute
  then have u: "unsent t" using assms(2) by simp
  from assms(1) AtRoute have t': "t' = route_step x s t" by (auto simp: advance_def)
  show ?thesis
  proof (cases "Match (s_router s) (tk_request t)")
    case None
    with reject_typed [OF u, of 404 body_not_found] show ?thesis by (simp add: t' route_step_def)
  next
    case (Some route)
    obtain ok w r where a: "authenticate x s (tk_w t) (tk_request t) route = (ok, w, r)"
      by (metis prod_cases3)
    show ?thesis
    proof (cases ok)
      case True
      with a have "authenticate x s (tk_w t) (tk_request t) route = (True, w, r)" by simp
      from authenticate_True(1) [OF this] have "w = tk_w t" .
      with Some a True u show ?thesis by (simp add: t' route_step_def unsent_typed)
    next
      case False
      with a have "authenticate x s (tk_w t) (tk_request t) route = (False, w, r)" by simp
      from authenticate_False(1) [OF this] obtain b where "w = writeJSON (tk_w t) 401 b" by blast
      with Some a False u writeJSON_status [of "tk_w t" 401 b] show ?thesis
        by (simp add: t' route_step_def task_typed_def unsent_def informational_def)
    qed
  qed
next
  case (AtLimit route r)
  then have u: "unsent t" using assms(2) by simp
  have "task_typed (t\<lparr>tk_phase := AtPick route r\<rparr>)" "\<And>lmt. task_typed (t\<lparr>tk_phase := AtFallback route lmt r\<rparr>)"
    by (rule unsent_typed; use u in simp)+
  with AtLimit assms(1) u show ?thesis
    by (auto simp: advance_def limit_step_def dest: limit_result_typed split: option.splits prod.splits)
next
  case (AtFallback route lmt r)
  then have "unsent t" using assms(2) by simp
  with AtFallback assms(1) show ?thesis
    by (auto simp: advance_def fallback_step_def dest: limit_result_typed split: prod.splits)
next
  case (AtPick route r)
  then have u: "unsent t" using assms(2) by simp
  then have rej: "task_typed (reject 503 body_no_upstream t)" by (rule reject_typed) simp
  have same: "task_typed (t\<lparr>tk_phase := ph\<rparr>)" if "\<not> returned ph" for ph
    using that by (intro task_typed_same [OF assms(4)]) simp_all
  from AtPick assms(1) rej same show ?thesis
    by (auto simp: advance_def pick_step_def Let_def split: sum.splits option.splits prod.splits if_splits)
next
  case (AtAllow route target r)
  then have u: "unsent t" using assms(2) by simp
  then have rej: "task_typed (reject 503 body_circuit_open t)" by (rule reject_typed) simp
  have same: "task_typed (t\<lparr>tk_phase := ph\<rparr>)" if "\<not> returned ph" for ph
    using that by (intro task_typed_same [OF assms(4)]) simp_all
  from AtAllow assms(1) rej same show ?thesis
    by (auto simp: advance_def allow_step_def Let_def split: option.splits prod.splits if_splits)
next
  case (AtProxy route target r)
  then have "fresh (tk_w t)" using assms(2) by (simp add: unsent_def)
  from proxy_status_typed [OF assms(3) this, of r] AtProxy assms(1) show ?thesis
    by (auto simp: advance_def proxy_step_def proxy_eq task_typed_def Rec_Status_def split: if_splits)
next
  case (AtTell route target)
  with assms(1,4) show ?thesis
    by (auto simp: advance_def tell_step_def split: option.splits intro: task_typed_same)
next
  case (AtDefer res)
  with assms(1,4) show ?thesis by (auto simp: advance_def defer_step_def intro: task_typed_same)
qed (use assms(1,4) in \<open>auto simp: advance_def intro: task_typed_same\<close>)

subsection \<open>Every reachable state\<close>

text \<open>
  C15: Every value of a running gateway has its Go type, in every interleaving: failure counters
  and window counts are 64-bit integers, a closed breaker counts below its threshold and has no
  opening instant, a half-open one has no failures, the metrics are exact floating-point
  integers and breaker states; and a handler's status is 0 or a three-digit code, which it has
  once it returns, so no request that returns is recorded without one.
\<close>

theorem running_gateway_typed:
  assumes "gateway_reach x env s g" "server_ok s" "server_typed s"
    and "\<And>mo out. env mo \<Longrightarrow> reply_typed (mo_upstream mo out)"
  shows "server_typed (gw_server g) \<and> (\<forall>i t. gw_tasks g i = Some t \<longrightarrow> task_typed t)"
  using assms(1)
proof (induction rule: gateway_reach.induct)
  case (start now ms)
  with assms(3) show ?case by (simp add: new_gateway_def)
next
  case (step g g')
  from step(2) show ?case
  proof cases
    case (arrive i w r)
    have "task_typed (new_task w r)" by (rule unsent_typed) (simp_all add: new_task_def unsent_def arrive(3))
    with arrive step.IH show ?thesis by simp
  next
    case (run i t mo s' t')
    have ok: "task_ok x s (gw_server g) t (tk_phase t)" by (rule tasks_ok_reach [OF step(1) assms(2) run(2)])
    have "server_typed s'"
      by (rule server_typed_advance [OF run(6) ok grows_reach [OF step(1)]]) (use step.IH in simp)
    moreover have "task_typed t'"
      by (rule task_typed_advance [OF run(6) ok assms(4) [OF run(3)]]) (use step.IH run(2) in simp)
    ultimately show ?thesis using step.IH run(1) by simp
  qed (use step.IH in \<open>auto intro: server_typed_background server_typed_loop\<close>)
qed

text \<open>A new server has the types, when the thresholds and timeouts of its configuration do.\<close>

lemma New_Server_typed:
  assumes "New_Server sy cfg = Inr s"
    and "\<And>route b. route \<in> set (c_Routes cfg) \<Longrightarrow> breaker_cfg route = Some b \<Longrightarrow> cfg_in_range b"
  shows "server_typed s"
  using assms(2) metrics_typed_new [of "sy_rnd sy"]
  by (auto simp: server_typed_def New_Server_simps [OF assms(1)] routes_typed_def New_Router_def breaker_at_def
      NewBreakerStore_def memory_typed_def NewRateLimiter_def newMemoryLimiter_def)

lemma demo_server_typed: "server_typed demo_server"
proof (rule New_Server_typed [OF demo_New])
  fix route b
  assume "route \<in> set (c_Routes demo_config)" "breaker_cfg route = Some b"
  then have "b = sample_breaker_cfg"
    by (auto simp: demo_config_def breaker_cfg_def open_route_def closed_route_def sample_breaker_cfg_def
        sample_route_def split: if_splits)
  then show "cfg_in_range b" by (simp add: sample_breaker_range)
qed

lemma running_gateway_typed_witness:
  "\<exists>(g :: (nat, redis_map) gateway) t. gw_tasks g 0 = Some t \<and> finished t \<and> tk_forwarded t \<noteq> None \<and>
     server_typed (gw_server g) \<and> task_typed t"
proof -
  let ?env = "\<lambda>mo :: (unit, redis_map) moment. \<forall>out. reply_typed (mo_upstream mo out)"
  have env: "?env (demo_moment ok_exchange)"
    by (simp add: demo_moment_def ok_exchange_def reply_typed_def early_ok_def)
  obtain g t where g: "gateway_reach demo_externals ?env demo_server g" "gw_tasks g = [0 \<mapsto> t]"
    "finished t" "tk_forwarded t \<noteq> None"
    using gateway_serves [of ?env "demo_moment ok_exchange" new_writer demo_externals demo_server open_request, OF env]
      demo_forwards by (auto simp: new_writer_def)
  from running_gateway_typed [OF g(1) demo_server_ok demo_server_typed] g(2)
  have "server_typed (gw_server g)" "task_typed t" by auto
  with g(2-4) show ?thesis by (intro exI [of _ g] exI [of _ t]) simp
qed

end
