(* ===== verification/Gateway_Answers.thy ===== *)
theory Gateway_Answers
  imports Gateway_Effects
begin

text \<open>
  What comes back through the reverse proxy of \<open>serveRoute\<close>: the client's answer against the
  upstream's reply, the status the recorder keeps, and what the circuit breaker makes of it.
\<close>

subsection \<open>The writer at the proxy\<close>

text \<open>The headers of the limiter are all the gateway adds to a response on its way to the proxy.\<close>

abbreviation limit_keys :: "string set" where
  "limit_keys \<equiv> {''X-Ratelimit-Limit'', ''X-Ratelimit-Remaining'', ''X-Ratelimit-Reset''}"

lemma serve_admit_Header:
  assumes "serve_admit x mo s w r = (Admitted route target r', w', s')" "key \<notin> limit_keys"
  shows "w_Header w' key = w_Header w key"
proof -
  from assms(1) obtain rt w1 r1 s2 where
    a: "authenticate x s w r rt = (True, w1, r1)"
    and l: "checkRateLimit x mo s w1 r1 rt = (True, w', s2)"
    using serve_target_Admitted(3)
    by (fastforce simp: serve_admit_def split: option.splits prod.splits bool.splits)
  have "w_Header w' key = w_Header w1 key"
    using l assms(2)
    by (auto simp: checkRateLimit_eq limit_headers_def Header_Set_def Let_def
        split: option.splits prod.splits if_splits)
  then show ?thesis using authenticate_True(1) [OF a] by simp
qed

text \<open>The writer after the exchange of a forwarded request.\<close>

lemma forwarded_writer:
  assumes "sv_forwarded (serveRoute x mo s w r) = Some out" "w_ops w = []"
  obtains w' where "fresh w'" "\<forall>key. key \<notin> limit_keys \<longrightarrow> w_Header w' key = w_Header w key"
    "sv_writer (serveRoute x mo s w r) = rec_run (fst (exchange_of (mo_upstream mo out))) w'"
    "sv_outcome (serveRoute x mo s w r) = snd (exchange_of (mo_upstream mo out))"
proof -
  from assms(1) obtain route target r' w' s' where
    a: "serve_admit x mo (serve_begin s) (new_recorder w) r = (Admitted route target r', w', s')"
    and out: "proxy_request r' = Some out"
    by (rule sv_forwarded_Some)
  have "proxy_exchange mo r' = exchange_of (mo_upstream mo out)" by (simp add: proxy_exchange_def out)
  with serveRoute_Admitted [OF a] serve_admit_Admitted(8) [OF a] assms(2) serve_admit_Header [OF a]
  show thesis by (intro that [of w']) (simp_all add: Let_def split: prod.splits)
qed

subsection \<open>The client's answer\<close>

definition final_answer :: "upstream_reply \<Rightarrow> upstream_response \<Rightarrow> bool" where
  "final_answer up res \<longleftrightarrow>
     ur_answer up = Answer res \<and> 200 \<le> us_StatusCode res \<and> us_StatusCode res \<le> 999"

text \<open>The values of an upstream's header that the proxy passes on.\<close>

definition relayed_values :: "upstream_response \<Rightarrow> string \<Rightarrow> string list" where
  "relayed_values res key =
     (if hop_by_hop (header_of (us_Header res)) key then []
      else map snd (filter (\<lambda>(k, v). CanonicalHeaderKey k = key) (us_Header res)))"

text \<open>
  C8: The client of a forwarded request gets the upstream's status and body when the body was
  copied to its end, and 502 with no body when the upstream does not answer or wants to switch
  protocols. When the upstream breaks off in the middle of its body the handler panics with
  \<open>ErrAbortHandler\<close>, and the client gets no complete answer: of the upstream's status and what
  was read of its body, which went to the writer, \<open>net/http\<close> drops what it had not yet sent. The
  upstream's header values, less the hop-by-hop ones, stand behind the values the gateway had
  set, which are kept unless the upstream sent an informational response first: then they are
  lost.
\<close>

theorem upstream_answer_relayed:
  assumes "sv_forwarded (serveRoute x mo s w r) = Some out" "early_ok (mo_upstream mo out)" "w_ops w = []"
  shows "let up = mo_upstream mo out; sv = serveRoute x mo s w r; ops = w_ops (sv_writer sv) in
    (no_answer up \<longrightarrow> sv_outcome sv = Returned \<and> client_gets (sv_outcome sv) ops = Some (502, '''')) \<and>
    (\<forall>res. final_answer up res \<longrightarrow>
       client_gets (sv_outcome sv) ops =
         (if us_complete res then Some (us_StatusCode res, concat (us_chunks res)) else None) \<and>
       (\<not> us_complete res \<longrightarrow> sv_outcome sv = Panicked AbortHandler \<and>
          written_status ops = us_StatusCode res \<and> written_body ops = concat (us_chunks res)) \<and>
       (\<exists>h. OpWriteHeader (us_StatusCode res) h \<in> set ops \<and>
         (\<forall>key. key \<notin> limit_keys \<union> {''Trailer''} \<longrightarrow> header_values h key =
            (if ur_early up = [] then header_values (w_Header w) key else []) @ relayed_values res key)))"
proof -
  from assms(1,3) obtain w' where w': "fresh w'" "\<forall>key. key \<notin> limit_keys \<longrightarrow> w_Header w' key = w_Header w key"
    and sv: "sv_writer (serveRoute x mo s w r) = rec_run (fst (exchange_of (mo_upstream mo out))) w'"
      "sv_outcome (serveRoute x mo s w r) = snd (exchange_of (mo_upstream mo out))"
    by (rule forwarded_writer)
  let ?up = "mo_upstream mo out" and ?ops = "w_ops (rec_run (fst (exchange_of (mo_upstream mo out))) w')"
  from w'(1) have fresh: "w_ops w' = []" "\<not> sr_wroteHeader w'" by (simp_all add: fresh_def)
  have "written_status ?ops = 502 \<and> written_body ?ops = ''''" if "no_answer ?up"
    using exchange_no_answer(1) [OF assms(2) that fresh(2)] fresh(1) by (auto simp: informational_def)
  moreover have "written_status ?ops = us_StatusCode res \<and> written_body ?ops = concat (us_chunks res) \<and>
      (\<exists>h. OpWriteHeader (us_StatusCode res) h \<in> set ?ops \<and>
        (\<forall>key. key \<notin> limit_keys \<union> {''Trailer''} \<longrightarrow> header_values h key =
           (if ur_early ?up = [] then header_values (w_Header w) key else []) @ relayed_values res key))"
    if f: "final_answer ?up res" for res
  proof -
    let ?h = "sent_header (if ur_early ?up = [] then w_Header w' else Map.empty) res"
    from f have "ur_answer ?up = Answer res" "200 \<le> us_StatusCode res" "us_StatusCode res \<le> 999"
      by (simp_all add: final_answer_def)
    from exchange_answer(1) [OF assms(2) this fresh(2)] obtain xs where
      xs: "list_all op_informational xs"
        "?ops = w_ops w' @ xs @ OpWriteHeader (us_StatusCode res) ?h # map OpWrite (us_chunks res)"
      by blast
    have status: "\<not> informational (us_StatusCode res)" using f by (simp add: final_answer_def informational_def)
    have "written_status ?ops = us_StatusCode res" "written_body ?ops = concat (us_chunks res)"
      "OpWriteHeader (us_StatusCode res) ?h \<in> set ?ops"
      unfolding xs(2) fresh(1) using xs(1) status by simp_all
    moreover
    have "header_values ?h key =
        (if ur_early ?up = [] then header_values (w_Header w) key else []) @ relayed_values res key"
      if "key \<notin> limit_keys \<union> {''Trailer''}" for key
    proof -
      from that have "key \<noteq> ''Trailer''" "key \<notin> limit_keys" by blast+
      moreover from this(2) have "w_Header w' key = w_Header w key" using w'(2) by blast
      ultimately show ?thesis
        using sent_header_values [of key] by (simp add: relayed_values_def header_values_def)
    qed
    ultimately show ?thesis by blast
  qed
  ultimately show ?thesis
    using exchange_no_answer(3) [OF assms(2) _ fresh(2)] exchange_answer(3) [OF assms(2) _ _ _ fresh(2)]
    unfolding Let_def sv by (simp add: final_answer_def client_gets_def)
qed

lemma upstream_answer_relayed_witness:
  "\<exists>out. sv_forwarded (serveRoute demo_externals (demo_moment ok_exchange) demo_server new_writer open_request) =
       Some out \<and>
     (let sv = serveRoute demo_externals (demo_moment ok_exchange) demo_server new_writer open_request
      in client_gets (sv_outcome sv) (w_ops (sv_writer sv)) = Some (200, ''hi''))"
proof -
  obtain out where "proxy_request (open_request\<lparr>rq_target := Some (sample_url ''a'')\<rparr>) = Some out"
    using demo_proxied by blast
  then have out: "sv_forwarded (serveRoute demo_externals (demo_moment ok_exchange) demo_server new_writer
      open_request) = Some out"
    using sv_forwarded_Admitted [OF demo_admit] by simp
  have up: "mo_upstream (demo_moment ok_exchange) out = ok_exchange out" by (simp add: demo_moment_def)
  have "early_ok (ok_exchange out)" by (simp add: early_ok_def ok_exchange_def)
  moreover have "final_answer (ok_exchange out) \<lparr>us_StatusCode = 200, us_Header = [(''Server'', ''s'')],
     us_announced = [], us_chunks = [''hi''], us_complete = True, us_Trailer = []\<rparr>"
    by (simp add: final_answer_def ok_exchange_def)
  ultimately show ?thesis
    using out upstream_answer_relayed [OF out, unfolded up] by (auto simp: Let_def new_writer_def)
qed

subsection \<open>What the recorder keeps and the breaker is told\<close>

text \<open>
  C20: One informational response of the upstream decides what the gateway believes: the
  recorded status is that code, and when the handler returns from the exchange the breaker is
  told a success, whatever the client is answered. So a connection that breaks after the hint
  and before a response counts as a success although the client is answered 502, and so does
  a complete answer of any status; a body that breaks off makes the handler panic, and then the
  breaker is told nothing.
\<close>

theorem early_hint_counts_as_success:
  assumes "sv_forwarded (serveRoute x mo s w r) = Some out" "early_ok (mo_upstream mo out)" "w_ops w = []"
    and "ur_early (mo_upstream mo out) \<noteq> []" "Match (s_router s) r = Some route"
    and "breaker_cfg route = Some cfg"
  shows "let sv = serveRoute x mo s w r in
    Rec_Status (sv_writer sv) = fst (hd (ur_early (mo_upstream mo out))) \<and>
    (no_answer (mo_upstream mo out) \<longrightarrow>
       client_gets (sv_outcome sv) (w_ops (sv_writer sv)) = Some (502, '''')) \<and>
    (\<forall>res. final_answer (mo_upstream mo out) res \<longrightarrow> (sv_outcome sv = Returned \<longleftrightarrow> us_complete res)) \<and>
    (\<exists>target. is_endpoint s route target \<and> url_Host (rq_URL out) = url_Host target \<and>
       (let key = breaker_key (rt_ID route) (x_url_string x target);
            allowed = snd (Breaker_Allow (mo_allow_now mo) (breaker_or_new cfg (breaker_at s key)))
        in breaker_at (sv_server sv) key =
             Some (if sv_outcome sv = Returned then RecordSuccess allowed else allowed)))"
proof -
  from assms(1,3) obtain w' where w': "fresh w'"
    and sv: "sv_writer (serveRoute x mo s w r) = rec_run (fst (exchange_of (mo_upstream mo out))) w'"
      "sv_outcome (serveRoute x mo s w r) = snd (exchange_of (mo_upstream mo out))"
    by (rule forwarded_writer)
  from w' have fresh: "w_ops w' = []" "\<not> sr_wroteHeader w'" by (simp_all add: fresh_def)
  have status: "Rec_Status (sv_writer (serveRoute x mo s w r)) = fst (hd (ur_early (mo_upstream mo out)))"
    using exchange_early_status [OF assms(2,4)] w' by (simp add: sv Rec_Status_def fresh_def)
  moreover have "informational (fst (hd (ur_early (mo_upstream mo out))))"
    using assms(2,4) by (cases "ur_early (mo_upstream mo out)") (auto simp: early_ok_def)
  ultimately have "tell_breaker t1 t2 (Rec_Status (sv_writer (serveRoute x mo s w r))) cb = RecordSuccess cb"
    for t1 t2 cb by (simp add: tell_breaker_def informational_def)
  note told = forwarded_tells [OF assms(1,5,6), unfolded Let_def this]
  have "client_gets (sv_outcome (serveRoute x mo s w r)) (w_ops (sv_writer (serveRoute x mo s w r))) = Some (502, '''')"
    if n: "no_answer (mo_upstream mo out)"
    using exchange_no_answer(1) [OF assms(2) n fresh(2)] exchange_no_answer(3) [OF assms(2) n fresh(2)] fresh(1)
    by (auto simp: sv client_gets_def informational_def)
  moreover have "sv_outcome (serveRoute x mo s w r) = Returned \<longleftrightarrow> us_complete res"
    if f: "final_answer (mo_upstream mo out) res" for res
    using exchange_answer(3) [OF assms(2) _ _ _ fresh(2), of res] f by (simp add: sv(2) final_answer_def)
  ultimately show ?thesis using status told unfolding Let_def by blast
qed

definition hinted_exchange :: "Request \<Rightarrow> upstream_reply" where
  "hinted_exchange out = \<lparr>ur_early = [(103, [])], ur_answer = RoundTripError\<rparr>"

lemma early_hint_counts_as_success_witness:
  "let sv = serveRoute demo_externals (demo_moment hinted_exchange) demo_server new_writer open_request
   in Rec_Status (sv_writer sv) = 103 \<and> client_gets (sv_outcome sv) (w_ops (sv_writer sv)) = Some (502, '''')"
proof -
  obtain out where "proxy_request (open_request\<lparr>rq_target := Some (sample_url ''a'')\<rparr>) = Some out"
    using demo_proxied by blast
  then have out: "sv_forwarded (serveRoute demo_externals (demo_moment hinted_exchange) demo_server new_writer
      open_request) = Some out"
    using sv_forwarded_Admitted [OF demo_admit] by simp
  have up: "mo_upstream (demo_moment hinted_exchange) out = \<lparr>ur_early = [(103, [])], ur_answer = RoundTripError\<rparr>"
    by (simp add: demo_moment_def hinted_exchange_def)
  have cfg: "breaker_cfg open_route = Some sample_breaker_cfg"
    by (simp add: breaker_cfg_def open_route_def sample_breaker_cfg_def)
  show ?thesis
    using early_hint_counts_as_success [OF out, unfolded up, OF _ _ _ demo_facts(1) cfg]
    by (simp add: early_ok_def informational_def new_writer_def no_answer_def Let_def)
qed

text \<open>
  A request the proxy refuses to send, for an \<open>Upgrade\<close> it cannot print, is a failure of the
  upstream to the breaker, so a client can open it.
\<close>

theorem unsendable_upgrade_is_failure:
  assumes "serve_admit x mo (serve_begin s) (new_recorder w) r = (Admitted route target r', w', s')"
    and "proxy_request r' = None" "breaker_cfg route = Some cfg" "w_ops w = []"
  shows "let sv = serveRoute x mo s w r; key = breaker_key (rt_ID route) (x_url_string x target) in
    sv_forwarded sv = None \<and> written_status (w_ops (sv_writer sv)) = 502 \<and>
    breaker_at (sv_server sv) key = Some (RecordFailure (mo_failure1 mo) (mo_failure2 mo)
      (snd (Breaker_Allow (mo_allow_now mo) (breaker_or_new cfg (breaker_at s key)))))"
proof -
  have "fresh w'" using serve_admit_Admitted(8) [OF assms(1)] assms(4) by simp
  moreover have "proxy_exchange mo r' = ([CallWriteHeader 502], Returned)"
    by (simp add: proxy_exchange_def assms(2) error_calls_def)
  ultimately show ?thesis
    using serve_admit_breaker [OF assms(1,3)] assms(2)
    by (simp add: serveRoute_Admitted [OF assms(1)] record_result_at [OF assms(3)] rec_run_Cons Let_def
        Rec_Status_def fresh_def informational_def tell_breaker_def breaker_or_new_def)
qed

end
