(* ===== verification/Gateway_Balance.thy ===== *)
theory Gateway_Balance
  imports Gateway_Concurrent
begin

text \<open>
  Load balancing under concurrency: in every interleaving of the goroutines of theory
  \<open>Gateway_Concurrent\<close> the turns at a route's balancer walk its endpoints in cyclic order, and
  every forwarded request went to the endpoint of its own turn.

  The turns are the log \<open>gw_picks\<close>; \<open>picks_of\<close> are those of one route.
\<close>

subsection \<open>What a step does to the balancers\<close>

definition picks_of :: "string \<Rightarrow> ('k, 'r) gateway \<Rightarrow> pick_entry list" where
  "picks_of rid g = filter (\<lambda>e. pe_route e = rid) (gw_picks g)"

definition at_pick :: "task \<Rightarrow> bool" where
  "at_pick t = (case tk_phase t of AtPick route r \<Rightarrow> True | _ \<Rightarrow> False)"

lemma set_breaker_balancers [simp]:
  "s_balancers (set_breaker x route target cb s) = s_balancers s"
  "s_balancers (create_breaker x route target s) = s_balancers s"
  by (simp_all add: set_breaker_def create_breaker_def split: option.split)

lemma advance_balancers:
  assumes "advance x mo (s, t) = (s', t')" "\<not> at_pick t"
  shows "s_balancers s' = s_balancers s" "picked i t t' = []"
proof -
  show "picked i t t' = []" using assms(2) by (simp add: picked_def at_pick_def split: phase.splits)
  show "s_balancers s' = s_balancers s"
    using assms
    by (cases "tk_phase t")
      (auto simp: advance_def at_pick_def limit_step_def fallback_step_def limit_result_def allow_step_def
        tell_step_def defer_step_def Let_def split: option.splits prod.splits bool.splits if_splits)
qed

text \<open>A turn: the balancer moves on, and the handler heads for what it got.\<close>

lemma advance_pick:
  assumes "advance x mo (s, t) = (s', t')" "tk_phase t = AtPick route r"
    and "GetEndpoints (s_registry s) (rt_ID route) = Inr eps" "eps \<noteq> []"
    and "s_balancers s (rt_ID route) = Some lb"
  shows "\<exists>target. fst (RR_Next lb eps) = Inr target \<and>
    s_balancers s' = (s_balancers s)(rt_ID route \<mapsto> snd (RR_Next lb eps)) \<and>
    picked i t t' = [\<lparr>pe_task = i, pe_route = rt_ID route, pe_target = target\<rparr>]"
  using assms
  by (auto simp: advance_def pick_step_def RR_Next_simp picked_def Let_def split: if_splits)

lemma background_balancers:
  "s_balancers (clean_limiter now s) = s_balancers s"
  "s_balancers (snd (Server_Shutdown stop_metrics stop_main close_main is_deadline s)) = s_balancers s"
  by (simp_all add: clean_limiter_def Server_Shutdown_def Let_def)

subsection \<open>The turns are the balancer's run\<close>

text \<open>The log and the balancer of a route are a run of \<open>Next\<close> over its endpoints.\<close>

definition in_turn :: "('k, 'r) gateway \<Rightarrow> string \<Rightarrow> URL list \<Rightarrow> RoundRobin \<Rightarrow> bool" where
  "in_turn g rid eps lb \<longleftrightarrow>
     (let run = picks RR_Next lb (replicate (length (picks_of rid g)) eps)
      in map (\<lambda>e. Inr (pe_target e)) (picks_of rid g) = fst run \<and>
         s_balancers (gw_server g) rid = Some (snd run))"

lemma in_turn_cong:
  "gw_picks g' = gw_picks g \<Longrightarrow> s_balancers (gw_server g') = s_balancers (gw_server g) \<Longrightarrow>
     in_turn g' rid eps lb = in_turn g rid eps lb"
  by (simp add: in_turn_def picks_of_def)

lemma in_turn_pick:
  assumes "in_turn g rid eps lb" "gw_picks g' = gw_picks g @ [\<lparr>pe_task = i, pe_route = rid, pe_target = target\<rparr>]"
    and "s_balancers (gw_server g) rid = Some lb'" "RR_Next lb' eps = (Inr target, lb'')"
    and "s_balancers (gw_server g') rid = Some lb''"
  shows "in_turn g' rid eps lb"
proof -
  let ?n = "length (picks_of rid g)"
  have "replicate (Suc ?n) eps = replicate ?n eps @ [eps]"
    by (simp add: replicate_append_same)
  then show ?thesis
    using assms by (simp add: in_turn_def picks_of_def picks_snoc Let_def del: replicate.simps)
qed

lemma in_turn_step:
  assumes "gateway_step x env g g'" "in_turn g rid eps lb"
    and "GetEndpoints (s_registry (gw_server g)) rid = Inr eps" "eps \<noteq> []"
  shows "in_turn g' rid eps lb"
  using assms(1)
proof cases
  case (run i t mo s' t')
  show ?thesis
  proof (cases "at_pick t")
    case False
    from advance_balancers [OF run(6) False] assms(2) run(1) show ?thesis
      by (simp add: in_turn_def picks_of_def)
  next
    case True
    then obtain route r where t: "tk_phase t = AtPick route r"
      by (auto simp: at_pick_def split: phase.splits)
    show ?thesis
    proof (cases "rt_ID route = rid")
      case True
      obtain lb' where lb': "s_balancers (gw_server g) rid = Some lb'"
        using assms(2) by (simp add: in_turn_def Let_def)
      from advance_pick [OF run(6) t _ assms(4), of lb' i] assms(3) lb' True obtain target where
        "fst (RR_Next lb' eps) = Inr target"
        "s_balancers s' = (s_balancers (gw_server g))(rid \<mapsto> snd (RR_Next lb' eps))"
        "picked i t t' = [\<lparr>pe_task = i, pe_route = rid, pe_target = target\<rparr>]"
        by auto
      with run(1) show ?thesis
        by (intro in_turn_pick [OF assms(2) _ lb', where lb'' = "snd (RR_Next lb' eps)"])
          (simp_all add: prod_eq_iff)
    next
      case False
      have "s_balancers s' rid = s_balancers (gw_server g) rid"
        "filter (\<lambda>e. pe_route e = rid) (picked i t t') = []"
        using run(6) t False
        by (auto simp: advance_def pick_step_def picked_def Let_def reject_def
            split: sum.splits option.splits prod.splits if_splits phase.splits)
      with run(1) assms(2) show ?thesis by (simp add: in_turn_def picks_of_def)
    qed
  qed
qed (use assms(2) in \<open>simp_all add: in_turn_def picks_of_def background_balancers loop_step_kept(2)\<close>)

lemma in_turn_reach:
  assumes "gateway_reach x env s g" "s_balancers s rid = Some lb"
    and "GetEndpoints (s_registry s) rid = Inr eps" "eps \<noteq> []"
  shows "in_turn g rid eps lb"
  using assms(1)
proof (induction rule: gateway_reach.induct)
  case (start now ms)
  with assms(2) show ?case by (simp add: in_turn_def new_gateway_def picks_of_def)
next
  case (step g g')
  have "s_registry (gw_server g) = s_registry s" using grows_reach [OF step(1)] by (simp add: grows_def)
  with assms(3,4) show ?case by (intro in_turn_step [OF step(2) step.IH]) simp_all
qed

subsection \<open>Every handler takes one turn and keeps to it\<close>

text \<open>A handler on its way to a target, or whose request went there.\<close>

definition headed :: "task \<Rightarrow> string \<Rightarrow> URL \<Rightarrow> bool" where
  "headed t rid target \<longleftrightarrow>
     (\<exists>route r. tk_phase t \<in> {AtBreaker route target r, AtAllow route target r, AtProxy route target r} \<and>
        rid = rt_ID route) \<or>
     (\<exists>route out. tk_route t = Some route \<and> tk_forwarded t = Some out \<and> rq_target out = Some target \<and>
        rid = rt_ID route)"

lemma unsent_headed:
  "unsent t \<Longrightarrow> headed t rid target \<longleftrightarrow> (\<exists>route r. tk_phase t \<in>
     {AtBreaker route target r, AtAllow route target r, AtProxy route target r} \<and> rid = rt_ID route)"
  by (auto simp: headed_def unsent_def)

lemma headed_same:
  "headed (t\<lparr>tk_phase := ph\<rparr>) rid target \<Longrightarrow>
     \<forall>route r. ph \<notin> {AtBreaker route target r, AtAllow route target r, AtProxy route target r} \<Longrightarrow>
     headed t rid target"
  by (auto simp: headed_def)

lemma reject_not_headed: "unsent t \<Longrightarrow> \<not> headed (reject status b t) rid target"
  by (simp add: headed_def reject_def unsent_def)

lemma advance_headed:
  assumes "advance x mo (s, t) = (s', t')" "task_ok x s0 s t (tk_phase t)" "headed t' rid target"
  shows "headed t rid target \<or> \<lparr>pe_task = i, pe_route = rid, pe_target = target\<rparr> \<in> set (picked i t t')"
proof (cases "tk_phase t")
  case AtEntry
  with assms show ?thesis by (auto simp: advance_def headed_def unsent_def)
next
  case AtRoute
  then have "unsent t" using assms(2) by simp
  with AtRoute assms(1,3) show ?thesis
    by (auto simp: advance_def route_step_def reject_def headed_def unsent_def
        split: option.splits prod.splits bool.splits)
next
  case (AtLimit route r)
  then have "unsent t" using assms(2) by simp
  with AtLimit assms(1,3) show ?thesis
    by (auto simp: advance_def limit_step_def limit_result_def reject_def headed_def unsent_def Let_def
        split: prod.splits option.splits if_splits)
next
  case (AtFallback route lmt r)
  then have "unsent t" using assms(2) by simp
  with AtFallback assms(1,3) show ?thesis
    by (auto simp: advance_def fallback_step_def limit_result_def reject_def headed_def unsent_def Let_def
        split: prod.splits if_splits)
next
  case (AtPick route r)
  then have "unsent t" using assms(2) by simp
  with AtPick assms(1,3) show ?thesis
    by (auto simp: advance_def pick_step_def picked_def reject_def headed_def unsent_def Let_def
        split: sum.splits option.splits prod.splits if_splits)
next
  case (AtBreaker route tgt r)
  then have "unsent t" using assms(2) by simp
  with AtBreaker assms(1,3) show ?thesis by (auto simp: advance_def headed_def unsent_def)
next
  case (AtAllow route tgt r)
  then have "unsent t" using assms(2) by simp
  with AtAllow assms(1,3) show ?thesis
    by (auto simp: advance_def allow_step_def reject_def headed_def unsent_def Let_def
        split: option.splits prod.splits if_splits)
next
  case (AtProxy route tgt r)
  then have u: "tk_forwarded t = None" "tk_route t = Some route" "rq_target r = Some tgt"
    using assms(2) by (auto simp: unsent_def cleared_def)
  from assms(1) AtProxy have "tk_forwarded t' = proxy_request r" "tk_route t' = tk_route t"
    "tk_phase t' \<in> {AtRecord route tgt} \<union> range AtDefer"
    by (auto simp: advance_def proxy_step_def proxy_eq split: if_splits)
  with assms(3) AtProxy u proxy_request_frame(4) [of r] show ?thesis
    by (auto simp: headed_def)
next
  case (AtRecord route tgt)
  with assms(1,3) show ?thesis by (auto simp: advance_def headed_def)
next
  case (AtTell route tgt)
  with assms(1,3) show ?thesis by (auto simp: advance_def tell_step_def headed_def split: option.splits)
next
  case (AtDefer res)
  with assms(1,3) show ?thesis by (auto simp: advance_def defer_step_def headed_def)
next
  case (Finished res)
  with assms(1,3) show ?thesis by (auto simp: advance_def)
qed

text \<open>The log has a turn for every headed handler, and one turn of each handler at most.\<close>

definition turns_ok :: "('k, 'r) gateway \<Rightarrow> bool" where
  "turns_ok g \<longleftrightarrow>
     (\<forall>i t rid target. gw_tasks g i = Some t \<longrightarrow> headed t rid target \<longrightarrow>
        \<lparr>pe_task = i, pe_route = rid, pe_target = target\<rparr> \<in> set (gw_picks g)) \<and>
     (\<forall>e \<in> set (gw_picks g). \<exists>t. gw_tasks g (pe_task e) = Some t \<and> phase_rank (tk_phase t) < 7) \<and>
     distinct (map pe_task (gw_picks g))"

lemma picked_rank:
  assumes "picked i t t' \<noteq> []"
  shows "phase_rank (tk_phase t) = 7 \<and> phase_rank (tk_phase t') < 7 \<and> (\<exists>e. picked i t t' = [e] \<and> pe_task e = i)"
  using assms by (auto simp: picked_def split: phase.splits)

lemma turns_ok_run:
  assumes "turns_ok g" "gw_tasks g i = Some t" "task_ok x s0 (gw_server g) t (tk_phase t)"
    and "advance x mo (gw_server g, t) = (s', t')"
  shows "turns_ok (run_gateway x mo i t s' t' g)"
proof -
  have rank: "phase_rank (tk_phase t') \<le> phase_rank (tk_phase t)"
    using advance_rank_le [of x mo "gw_server g" t] assms(4) by simp
  have "\<lparr>pe_task = j, pe_route = rid, pe_target = target\<rparr> \<in> set (gw_picks g) \<union> set (picked i t t')"
    if "((gw_tasks g)(i \<mapsto> t')) j = Some u" "headed u rid target" for j u rid target
    using that assms(1,2) advance_headed [OF assms(4,3), of rid target i]
    by (cases "j = i") (auto simp: turns_ok_def)
  moreover have "\<exists>u. ((gw_tasks g)(i \<mapsto> t')) (pe_task e) = Some u \<and> phase_rank (tk_phase u) < 7"
    if "e \<in> set (gw_picks g) \<union> set (picked i t t')" for e
  proof (cases "e \<in> set (gw_picks g)")
    case True
    with assms(1) obtain u where "gw_tasks g (pe_task e) = Some u" "phase_rank (tk_phase u) < 7"
      by (auto simp: turns_ok_def)
    with assms(2) rank show ?thesis by (cases "pe_task e = i") auto
  next
    case False
    with that picked_rank [of i t t'] show ?thesis by force
  qed
  moreover have "distinct (map pe_task (gw_picks g @ picked i t t'))"
  proof (cases "picked i t t' = []")
    case False
    from picked_rank [OF this] obtain e where e: "picked i t t' = [e]" "pe_task e = i"
      "phase_rank (tk_phase t) = 7" by blast
    have "i \<notin> pe_task ` set (gw_picks g)"
      using assms(1,2) e(3) by (force simp: turns_ok_def)
    with assms(1) e show ?thesis by (simp add: turns_ok_def)
  qed (use assms(1) in \<open>simp add: turns_ok_def\<close>)
  ultimately show ?thesis by (simp add: turns_ok_def)
qed

lemma turns_ok_reach:
  assumes "gateway_reach x env s g" "server_ok s"
  shows "turns_ok g"
  using assms(1)
proof (induction rule: gateway_reach.induct)
  case (start now ms)
  then show ?case by (simp add: turns_ok_def new_gateway_def)
next
  case (step g g')
  from step(2) show ?case
  proof cases
    case (arrive i w r)
    have "\<not> headed (new_task w r) rid target" for rid target
      by (simp add: headed_def new_task_def)
    moreover have "pe_task e \<noteq> i" if "e \<in> set (gw_picks g)" for e
      using that step.IH arrive(2) by (force simp: turns_ok_def)
    ultimately show ?thesis using step.IH arrive(1) by (auto simp: turns_ok_def)
  next
    case (run i t mo s' t')
    show ?thesis
      unfolding run(1)
      by (rule turns_ok_run [OF step.IH run(2) tasks_ok_reach [OF step(1) assms(2) run(2)] run(6)])
  qed (use step.IH in \<open>simp_all add: turns_ok_def\<close>)
qed

lemma forwarded_target:
  assumes "task_ok x s s' t (tk_phase t)" "tk_forwarded t = Some out"
  shows "\<exists>target. rq_target out = Some target"
proof -
  from forwarded_gone [OF assms] obtain route target r where
    "proxy_request (r\<lparr>rq_target := Some target\<rparr>) = Some out"
    using assms(2) by (auto simp: gone_def sent_def)
  from proxy_request_frame(4) [OF this] show ?thesis by simp
qed

subsection \<open>The rotation\<close>

lemma turns_few:
  assumes "turns_ok g" "finite (dom (gw_tasks g))"
  shows "length (picks_of rid g) \<le> card (dom (gw_tasks g))"
proof -
  have "length (picks_of rid g) = card (pe_task ` set (picks_of rid g))"
    using assms(1) distinct_card [of "map pe_task (picks_of rid g)"]
    by (simp add: turns_ok_def picks_of_def distinct_map_filter)
  also have "\<dots> \<le> card (dom (gw_tasks g))"
    using assms by (intro card_mono) (force simp: turns_ok_def picks_of_def)+
  finally show ?thesis .
qed

text \<open>
  C32: Round robin holds under concurrency. In every interleaving the handlers of a route take
  turns at its endpoints in cyclic order, each handler one turn at most, and every forwarded
  request went to the endpoint of its handler's turn; so no endpoint is ever more than one turn
  ahead of another. This ends where the \<open>uint64\<close> counter wraps: after \<open>2 ^ 64\<close> turns the cycle
  breaks when the number of endpoints does not divide \<open>2 ^ 64\<close>.
\<close>

theorem concurrent_rotation:
  assumes "gateway_reach x env s g" "server_ok s"
    and "s_balancers s rid = Some lb" "GetEndpoints (s_registry s) rid = Inr eps" "eps \<noteq> []"
    and "unat (rr_counter lb) + length (picks_of rid g) \<le> 2 ^ 64"
  shows "map pe_target (picks_of rid g) =
      map (\<lambda>k. eps ! ((unat (rr_counter lb) + k) mod length eps)) [0..<length (picks_of rid g)] \<and>
    distinct (map pe_task (picks_of rid g)) \<and>
    (\<forall>i t route out. gw_tasks g i = Some t \<and> tk_route t = Some route \<and> rt_ID route = rid \<and>
       tk_forwarded t = Some out \<longrightarrow>
       (\<exists>e \<in> set (picks_of rid g). pe_task e = i \<and> rq_target out = Some (pe_target e))) \<and>
    (distinct eps \<longrightarrow> (\<forall>u \<in> set eps. \<forall>v \<in> set eps.
       count_list (map pe_target (picks_of rid g)) u \<le> count_list (map pe_target (picks_of rid g)) v + 1))"
proof -
  let ?P = "picks_of rid g"
  let ?cycle = "map (\<lambda>k. eps ! ((unat (rr_counter lb) + k) mod length eps)) [0..<length ?P]"
  have "map (Inr :: URL \<Rightarrow> go_panic + URL) (map pe_target ?P) = map Inr ?cycle"
    using in_turn_reach [OF assms(1,3,4,5)] unfolding in_turn_def Let_def RR_picks [OF assms(5,6)]
    by (simp add: comp_def)
  then have cycle: "map pe_target ?P = ?cycle"
    by (simp only: inj_map_eq_map inj_Inr)
  have ok: "turns_ok g" by (rule turns_ok_reach [OF assms(1,2)])
  have once: "distinct (map pe_task ?P)"
    using ok by (simp add: turns_ok_def picks_of_def distinct_map_filter)
  have "\<exists>e \<in> set ?P. pe_task e = i \<and> rq_target out = Some (pe_target e)"
    if t: "gw_tasks g i = Some t" "tk_route t = Some route" "rt_ID route = rid" "tk_forwarded t = Some out"
    for i t route out
  proof -
    obtain target where "rq_target out = Some target"
      using forwarded_target [OF tasks_ok_reach [OF assms(1,2) t(1)] t(4)] by blast
    moreover from this t have "headed t rid target" by (auto simp: headed_def)
    with ok t(1) have "\<lparr>pe_task = i, pe_route = rid, pe_target = target\<rparr> \<in> set (gw_picks g)"
      by (auto simp: turns_ok_def)
    ultimately show ?thesis by (force simp: picks_of_def)
  qed
  moreover have "count_list ?cycle u \<le> count_list ?cycle v + 1"
    if "distinct eps" "u \<in> set eps" "v \<in> set eps" for u v
    using cycle_counts [OF that(1,2), of "unat (rr_counter lb)" "length ?P"]
      cycle_counts [OF that(1,3), of "unat (rr_counter lb)" "length ?P"] by simp
  ultimately show ?thesis unfolding cycle using once by blast
qed

lemma concurrent_rotation_witness:
  "\<exists>(g :: (nat, redis_map) gateway) t. gw_tasks g 0 = Some t \<and> tk_forwarded t \<noteq> None \<and>
     map pe_target (picks_of ''open'' g) = [sample_url ''a'']"
proof -
  obtain g t where g: "gateway_reach demo_externals (\<lambda>mo :: (unit, redis_map) moment. True) demo_server g"
    "gw_tasks g = [0 \<mapsto> t]" "tk_forwarded t \<noteq> None" "tk_route t = Some open_route"
    using demo_gateway_request by blast
  have few: "length (picks_of ''open'' g) \<le> 1"
    using turns_few [OF turns_ok_reach [OF g(1) demo_server_ok] finite_tasks [OF g(1)]] by (simp add: g(2))
  then have "unat (rr_counter NewRoundRobin) + length (picks_of ''open'' g) \<le> 2 ^ 64"
    by (simp add: NewRoundRobin_def)
  note rot = concurrent_rotation [OF g(1) demo_server_ok demo_facts(3,2) list.simps(3) this]
  have id: "rt_ID open_route = ''open''" by (simp add: open_route_def)
  have cycle: "map pe_target (picks_of ''open'' g) =
      map (\<lambda>k. [sample_url ''a'', sample_url ''b''] !
        ((unat (rr_counter NewRoundRobin) + k) mod length [sample_url ''a'', sample_url ''b'']))
      [0..<length (picks_of ''open'' g)]"
    by (rule conjunct1 [OF rot])
  have entry: "\<exists>e \<in> set (picks_of ''open'' g). pe_task e = 0" if "tk_forwarded t = Some out" for out
    using conjunct1 [OF conjunct2 [OF conjunct2 [OF rot]], rule_format, of 0 t open_route out] g(2,4) id that
    by auto
  from entry g(3) have "length (picks_of ''open'' g) \<noteq> 0" by auto
  with few have "length (picks_of ''open'' g) = 1" by linarith
  with cycle g(2,3) show ?thesis by (intro exI [of _ g] exI [of _ t]) (simp add: NewRoundRobin_def)
qed

end
