(* ===== verification/Gateway_Main.thy ===== *)
theory Gateway_Main
  imports Gateway_Lifecycle
begin

text \<open>
  The program: \<open>main\<close> of \<open>cmd/gogateway/main.go\<close> with \<open>Init\<close> of \<open>internal/logger/logger.go\<close>,
  from the command line and the configuration file to the exit code.

  The file, the environment and \<open>http.Server\<close> are arguments, as in \<open>Load\<close>, \<open>New_Server\<close> and
  \<open>Server_Shutdown\<close>. What the two \<open>select\<close> statements receive is the argument \<open>serving\<close>.
\<close>

subsection \<open>The logger\<close>

text \<open>The default logger: its level and its writer, \<open>None\<close> for the standard output.\<close>

record 'w slog_handler =
  sh_level :: slog_level
  sh_writer :: "'w option"

definition logger_Init :: "slog_level \<Rightarrow> 'w option \<Rightarrow> 'w slog_handler" where
  "logger_Init level w = \<lparr>sh_level = level, sh_writer = w\<rparr>"

subsection \<open>The command line\<close>

text \<open>
  \<open>flag.Parse\<close> with the one flag of the program, a string: it stops at the first argument
  that is no flag or after \<open>--\<close>; one or two dashes; the value behind \<open>=\<close> or in the next
  argument. An unknown flag or a missing value ends the process with code 2, \<open>-h\<close> and
  \<open>-help\<close> with 0.
\<close>

datatype flags = ConfigPath string | FlagHelp | FlagFailed

definition split_flag :: "string \<Rightarrow> string \<times> string option" where
  "split_flag s =
     (takeWhile (\<lambda>c. c \<noteq> CHR ''='') s,
      case dropWhile (\<lambda>c. c \<noteq> CHR ''='') s of [] \<Rightarrow> None | c # v \<Rightarrow> Some v)"

text \<open>One argument: \<open>None\<close> where the flags end, or the flag's name and value.\<close>

definition flag_arg :: "string \<Rightarrow> (string \<times> string option) option" where
  "flag_arg s =
     (if length s < 2 \<or> hd s \<noteq> CHR ''-'' \<or> s = ''--'' then None
      else Some (split_flag (if s ! 1 = CHR ''-'' then drop 2 s else drop 1 s)))"

text \<open>A name that is empty or starts with a dash or \<open>=\<close> is bad syntax.\<close>

fun parse_flags :: "string list \<Rightarrow> string \<Rightarrow> flags" where
  "parse_flags [] path = ConfigPath path"
| "parse_flags [s] path =
     (case flag_arg s of
        None \<Rightarrow> ConfigPath path
      | Some (flag, val) \<Rightarrow>
          if flag = ''config-path'' then (case val of None \<Rightarrow> FlagFailed | Some v \<Rightarrow> ConfigPath v)
          else if flag = ''help'' \<or> flag = ''h'' then FlagHelp else FlagFailed)"
| "parse_flags (s # arg # args) path =
     (case flag_arg s of
        None \<Rightarrow> ConfigPath path
      | Some (flag, val) \<Rightarrow>
          if flag = ''config-path''
          then (case val of None \<Rightarrow> parse_flags args arg | Some v \<Rightarrow> parse_flags (arg # args) v)
          else if flag = ''help'' \<or> flag = ''h'' then FlagHelp else FlagFailed)"

definition default_path :: string where
  "default_path = ''./gogateway.yaml''"

text \<open>Every way to write the flag; the last one written counts.\<close>

definition path_flags :: "string \<Rightarrow> string list set" where
  "path_flags v = {[''-config-path'', v], [''--config-path'', v], [''-config-path='' @ v],
     [''--config-path='' @ v]}"

lemma flag_arg_path [simp]:
  "flag_arg ''-config-path'' = Some (''config-path'', None)"
  "flag_arg ''--config-path'' = Some (''config-path'', None)"
  "flag_arg (''-config-path='' @ v) = Some (''config-path'', Some v)"
  "flag_arg (''--config-path='' @ v) = Some (''config-path'', Some v)"
  by (simp_all add: flag_arg_def split_flag_def)

lemma parse_flags_path:
  assumes "fl \<in> path_flags v"
  shows "parse_flags (fl @ args) path = parse_flags args v"
proof -
  have "parse_flags ((''-config-path='' @ v) # args) path = parse_flags args v"
    "parse_flags ((''--config-path='' @ v) # args) path = parse_flags args v"
    by (cases args; simp del: append_Cons append_Nil)+
  with assms show ?thesis by (auto simp: path_flags_def)
qed

subsection \<open>main\<close>

text \<open>
  \<open>Start\<close> returns one error, which its goroutine sends to \<open>errCh\<close>. Either a signal is received
  first and the error arrives before the drain ends, or not (\<open>SignalThen\<close>); or the error is
  received first (\<open>StartReturned\<close>), and then \<open>errCh\<close> stays empty for the drain.
\<close>

datatype 'e serve_error = ErrServerClosed | ServeFailed 'e

datatype 'e serving = SignalThen "'e serve_error option" | StartReturned "'e serve_error"

fun drained :: "'e serving \<Rightarrow> 'e serve_error option" where
  "drained (SignalThen late) = late"
| "drained (StartReturned err) = None"

text \<open>How the process ends: an exit code or a panic, and the logger installed by then.\<close>

record 'w ended =
  en_exit :: "go_panic + int"
  en_logger :: "'w slog_handler option"

definition main_serve ::
  "'e serving \<Rightarrow> (string \<Rightarrow> duration \<Rightarrow> 's option) \<Rightarrow> (duration \<Rightarrow> 's option) \<Rightarrow> 's option \<Rightarrow> ('s \<Rightarrow> bool)
     \<Rightarrow> ('k, 'r) Server \<Rightarrow> go_panic + int" where
  "main_serve serving stop_metrics stop_main close_main is_deadline srv =
     (case fst (Server_Shutdown stop_metrics stop_main close_main is_deadline srv) of
        Inl p \<Rightarrow> Inl p
      | Inr (Some err) \<Rightarrow> Inr 1
      | Inr None \<Rightarrow>
          (case drained serving of
             Some err \<Rightarrow> if err \<noteq> ErrServerClosed then Inr 1 else Inr 0
           | None \<Rightarrow> Inr 0))"

definition gateway_main ::
  "(string \<Rightarrow> 'a + 'b) \<Rightarrow> ('b \<Rightarrow> 'y + Config) \<Rightarrow> ('d, 'f, 'p, 'u, 'c, 'r) system
     \<Rightarrow> string list \<Rightarrow> (('k, 'r) Server \<Rightarrow> go_panic + int) \<Rightarrow> 'w ended" where
  "gateway_main read_file unmarshal sy args serve =
     (case parse_flags args default_path of
        FlagHelp \<Rightarrow> \<lparr>en_exit = Inr 0, en_logger = None\<rparr>
      | FlagFailed \<Rightarrow> \<lparr>en_exit = Inr 2, en_logger = None\<rparr>
      | ConfigPath configPath \<Rightarrow>
          (case Load read_file unmarshal configPath of
             Inl err \<Rightarrow> \<lparr>en_exit = Inr 1, en_logger = None\<rparr>
           | Inr cfg \<Rightarrow>
               let handler = logger_Init (LogLevelToSlog (gw_LogLevel (c_Gateway cfg))) None
               in (case New_Server sy cfg of
                     Inl err \<Rightarrow> \<lparr>en_exit = Inr 1, en_logger = Some handler\<rparr>
                   | Inr srv \<Rightarrow> \<lparr>en_exit = serve srv, en_logger = Some handler\<rparr>)))"

subsection \<open>Properties\<close>

lemma New_Server_Inr_iff:
  "(\<exists>s. New_Server sy cfg = Inr s) \<longleftrightarrow> \<not> isl (NewStaticRegistry (sy_parse_url sy) (c_Routes cfg))"
  by (simp add: New_Server_def split: sum.split)

lemma demo_loaded: "\<exists>s. New_Server demo_system (snd (validate demo_config)) = Inr s"
proof -
  have "\<not> isl (NewStaticRegistry sample_parse (c_Routes demo_config))" by code_simp
  then show ?thesis by (simp add: New_Server_Inr_iff demo_system_def)
qed

text \<open>The error of stopping a server: the graceful stop fails, or the forced close does.\<close>

definition stop_failed :: "(duration \<Rightarrow> 's option) \<Rightarrow> 's option \<Rightarrow> ('s \<Rightarrow> bool) \<Rightarrow> duration \<Rightarrow> bool" where
  "stop_failed stop_main close_main is_deadline timeout \<longleftrightarrow>
     (\<exists>err. stop_main timeout = Some err \<and> (is_deadline err \<longrightarrow> close_main \<noteq> None))"

lemma main_serve_eq:
  assumes "\<not> s_breakerDone srv"
  shows "main_serve serving stop_metrics stop_main close_main is_deadline srv =
    Inr (if stop_failed stop_main close_main is_deadline (gw_ShutdownTimeout (c_Gateway (s_cfg srv)))
            \<or> (\<exists>e. drained serving = Some (ServeFailed e))
         then 1 else 0)"
proof -
  let ?t = "gw_ShutdownTimeout (c_Gateway (s_cfg srv))"
  have "fst (Server_Shutdown stop_metrics stop_main close_main is_deadline srv) =
      Inr (case stop_main ?t of None \<Rightarrow> None
        | Some err \<Rightarrow> if is_deadline err then map_option CloseFailed close_main else Some (ShutdownFailed err))"
    using assms by (simp add: Server_Shutdown_def Let_def)
  then show ?thesis
    by (auto simp: main_serve_def stop_failed_def split: option.splits serve_error.splits)
       (metis serve_error.exhaust)+
qed

text \<open>
  C34: The exit code. The program never panics on its way out. A wrong command line exits 2 and
  a call for help 0; otherwise it exits 0 exactly when the configuration at the path of the last
  flag loads, the server is built, the main server stops (or is closed after the deadline), and
  no error but \<open>ErrServerClosed\<close> is drained after a signal.
\<close>

theorem main_exit_code:
  "en_exit (gateway_main read_file unmarshal sy args
      (main_serve serving stop_metrics stop_main close_main is_deadline
        :: ('k, 'r) Server \<Rightarrow> go_panic + int)) =
    Inr (case parse_flags args default_path of
        FlagHelp \<Rightarrow> 0
      | FlagFailed \<Rightarrow> 2
      | ConfigPath path \<Rightarrow>
          if \<exists>cfg srv. Load read_file unmarshal path = Inr cfg \<and>
            (New_Server sy cfg :: 'u registry_error + ('k, 'r) Server) = Inr srv \<and>
            \<not> stop_failed stop_main close_main is_deadline (gw_ShutdownTimeout (c_Gateway cfg)) \<and>
            (\<forall>e. drained serving \<noteq> Some (ServeFailed e))
         then 0 else 1)"
proof (cases "parse_flags args default_path")
  case (ConfigPath path)
  show ?thesis
  proof (cases "Load read_file unmarshal path")
    case (Inl e)
    with ConfigPath show ?thesis by (simp add: gateway_main_def)
  next
    case (Inr cfg)
    show ?thesis
    proof (cases "New_Server sy cfg :: 'u registry_error + ('k, 'r) Server")
      case (Inl e)
      with ConfigPath Inr show ?thesis by (simp add: gateway_main_def Let_def)
    next
      case srv: (Inr srv)
      note s = New_Server_simps(4,10) [OF srv]
      show ?thesis
        using ConfigPath Inr srv by (auto simp: gateway_main_def Let_def main_serve_eq [OF s(2)] s(1))
    qed
  qed
qed (simp_all add: gateway_main_def)

text \<open>
  A gateway that cannot listen exits 0: the error of \<open>Start\<close> is taken from the channel by the
  first \<open>select\<close>, so the drain no longer sees it.
\<close>

theorem start_failure_exits_zero:
  assumes "Load read_file unmarshal path = Inr cfg" "fl \<in> path_flags path"
    and "(New_Server sy cfg :: 'u registry_error + ('k, 'r) Server) = Inr srv"
    and "stop_main (gw_ShutdownTimeout (c_Gateway cfg)) = None"
  shows "en_exit (gateway_main read_file unmarshal sy fl
      (main_serve (StartReturned (ServeFailed e)) stop_metrics stop_main close_main is_deadline
        :: ('k, 'r) Server \<Rightarrow> go_panic + int)) = Inr 0"
proof -
  note s = New_Server_simps(4,10) [OF assms(3)]
  have "parse_flags fl default_path = ConfigPath path"
    using parse_flags_path [OF assms(2), of "[]" default_path] by simp
  then show ?thesis
    using assms by (simp add: gateway_main_def Let_def main_serve_eq [OF s(2)] s(1) stop_failed_def)
qed

lemma start_failure_exits_zero_witness:
  "en_exit (gateway_main (\<lambda>p. Inr p :: nat + string) (\<lambda>d. Inr demo_config :: nat + Config) demo_system
      [''-config-path'', ''f'']
      (main_serve (StartReturned (ServeFailed ''address in use'')) (\<lambda>_ _. None) (\<lambda>_. None :: nat option)
        None (\<lambda>_. False) :: (nat, redis_map) Server \<Rightarrow> go_panic + int)) = Inr 0"
proof -
  let ?c = "snd (validate demo_config)"
  have l: "Load (\<lambda>p. Inr p :: nat + string) (\<lambda>d. Inr demo_config :: nat + Config) ''f'' = Inr ?c"
    using demo_config_ok by (simp add: Load_Inr)
  obtain srv where srv: "(New_Server demo_system ?c :: nat registry_error + (nat, redis_map) Server) = Inr srv"
    using demo_loaded by blast
  have fl: "[''-config-path'', ''f''] \<in> path_flags ''f''" by (simp add: path_flags_def)
  show ?thesis
    by (rule start_failure_exits_zero [OF l fl srv, of "\<lambda>_. None :: nat option"]) simp
qed

text \<open>
  What \<open>main\<close> serves with: a server built from a loaded configuration has endpoints and a
  balancer for every route of its table, a positive shutdown timeout, no breaker and no
  counter yet, and asks every JWT for a configured secret.
\<close>

theorem loaded_server_sound:
  assumes "Load read_file unmarshal path = Inr cfg" "New_Server sy cfg = Inr s"
  shows "server_ok s \<and> ro_routes (s_router s) = c_Routes cfg \<and>
    0 < gw_ShutdownTimeout (c_Gateway (s_cfg s)) \<and> \<not> s_breakerDone s \<and>
    Mapping.keys (bs_breakers (s_breakerStore s)) = {} \<and> rlm_memory (s_rateLimiter s) = Map.empty \<and>
    ja_HMACSecret (s_jwtAuth s) \<noteq> None"
proof -
  note s = New_Server_simps [OF assms(2)]
  have "0 < gw_ShutdownTimeout (c_Gateway cfg)"
    using assms(1) by (auto simp: Load_Inr validate_config config_ok_def default_shutdown_def default_loglevel_def)
  with New_Server_ok [OF assms(2) Load_config_ok [OF assms(1)]] show ?thesis
    by (simp add: s New_Router_def NewBreakerStore_def NewRateLimiter_def newMemoryLimiter_def NewJWTAuth_def)
qed

lemma loaded_server_sound_witness:
  "\<exists>s. New_Server demo_system (snd (validate demo_config)) = Inr s \<and> server_ok (s :: (nat, redis_map) Server)"
proof -
  let ?c = "snd (validate demo_config)"
  have l: "Load (\<lambda>p. Inr p :: nat + string) (\<lambda>d. Inr demo_config :: nat + Config) ''f'' = Inr ?c"
    using demo_config_ok by (simp add: Load_Inr)
  obtain s where s: "(New_Server demo_system ?c :: nat registry_error + (nat, redis_map) Server) = Inr s"
    using demo_loaded by blast
  from loaded_server_sound [OF l s] s show ?thesis by auto
qed

end
