(* ===== verification/Gateway_Program.thy ===== *)
theory Gateway_Program
  imports Gateway_Main Gateway_Concurrent
begin

text \<open>
  The program as a whole: the configuration that \<open>main\<close> loads (theory \<open>Gateway_Main\<close>) against
  what its goroutines send and answer in any interleaving (theory \<open>Gateway_Concurrent\<close>). The
  property speaks of the configuration file, the environment and the requests only; the server
  in between, with its router, registry, authenticators and balancers, is gone from it.
\<close>

subsection \<open>What the configuration promises\<close>

text \<open>A target the configuration names for a route ID.\<close>

definition configured_target :: "('d, 'f, 'p, 'u, 'c, 'r) system \<Rightarrow> Config \<Rightarrow> string \<Rightarrow> URL \<Rightarrow> bool" where
  "configured_target sy cfg rid target \<longleftrightarrow>
     (\<exists>route \<in> set (c_Routes cfg). rt_ID route = rid \<and>
       (\<exists>u \<in> set (rt_Upstreams route). sy_parse_url sy (u_URL u) = Inr target))"

text \<open>The first route of the file that matches a request.\<close>

definition configured_route :: "Config \<Rightarrow> Request \<Rightarrow> Route \<Rightarrow> bool" where
  "configured_route cfg r route \<longleftrightarrow> List.find (\<lambda>rt. matchRoute rt r) (c_Routes cfg) = Some route"

text \<open>The credentials the route asks for, checked against the environment's secret and key file.\<close>

definition credentials_ok ::
  "('k, 'pe) externals \<Rightarrow> ('d, 'f, 'p, 'u, 'c, 'r) system \<Rightarrow> Request \<Rightarrow> AuthConfig \<Rightarrow> bool" where
  "credentials_ok x sy r auth \<longleftrightarrow>
     jwt_required auth \<and> (\<exists>claims. JWT_Validate (x_jwt_parse x) (NewJWTAuth (Some (jwt_secret sy))) r
       (auth_JWT auth) = Inr claims) \<or>
     apikey_required auth \<and> (\<exists>key. APIKey_Validate (x_sha256 x) (NewAPIKeyAuth (loaded_keys sy)) r = Inr key)"

definition access_granted ::
  "('k, 'pe) externals \<Rightarrow> ('d, 'f, 'p, 'u, 'c, 'r) system \<Rightarrow> Request \<Rightarrow> Route \<Rightarrow> bool" where
  "access_granted x sy r route \<longleftrightarrow>
     (\<forall>auth. rt_Auth route = Some auth \<and> (jwt_required auth \<or> apikey_required auth) \<longrightarrow> credentials_ok x sy r auth)"

subsection \<open>The server keeps the promises\<close>

lemma New_Server_target:
  assumes "New_Server sy cfg = Inr s" "is_endpoint s route target"
  shows "configured_target sy cfg (rt_ID route) target"
proof -
  note reg = New_Server_simps(3) [OF assms(1)]
  from assms(2) obtain eps where eps: "GetEndpoints (s_registry s) (rt_ID route) = Inr eps" "target \<in> set eps"
    by (auto simp: is_endpoint_def split: sum.splits)
  from eps(1) [unfolded GetEndpoints_last [OF reg]] obtain before r after where r:
    "c_Routes cfg = before @ r # after" "rt_ID r = rt_ID route" "endpoints_of (sy_parse_url sy) r = eps"
    by blast
  from eps(2) r(3) obtain u where u: "u \<in> set (rt_Upstreams r)" "target = projr (sy_parse_url sy (u_URL u))"
    by (auto simp: endpoints_of_def)
  have "route_urls_ok (sy_parse_url sy) r"
    using reg r(1) registry_ok_iff [of "sy_parse_url sy" "c_Routes cfg"] by auto
  with u have "sy_parse_url sy (u_URL u) = Inr target"
    by (cases "sy_parse_url sy (u_URL u)") (auto simp: route_urls_ok_def url_ok_def)
  with u(1) r(1,2) show ?thesis unfolding configured_target_def by auto
qed

lemma New_Server_Match:
  "New_Server sy cfg = Inr s \<Longrightarrow> Match (s_router s) r = Some route \<longleftrightarrow> configured_route cfg r route"
  by (simp add: New_Server_simps Match_def Match_loop_find New_Router_def configured_route_def)

lemma New_Server_authorized:
  assumes "New_Server sy cfg = Inr s"
  shows "authorized x s r route \<longleftrightarrow> access_granted x sy r route"
proof -
  have ex: "\<not> isl e \<longleftrightarrow> (\<exists>v. e = Inr v)" for e :: "'y + 'z" by (cases e) auto
  show ?thesis
    by (auto simp: authorized_def access_granted_def credentials_ok_def jwt_accepts_def apikey_accepts_def
        New_Server_simps(5,6) [OF assms] ex split: option.splits)
qed

subsection \<open>Why a request is refused\<close>

text \<open>Of the answers the gateway gives by itself, 404 and 401 have one reason each.\<close>

definition refused_ok :: "('k, 'pe) externals \<Rightarrow> ('k, 'r) Server \<Rightarrow> task \<Rightarrow> bool" where
  "refused_ok x s t \<longleftrightarrow> (tk_forwarded t = None \<and> w_ops (tk_w t) \<noteq> [] \<longrightarrow>
     (written_status (w_ops (tk_w t)) = 404 \<longleftrightarrow> Match (s_router s) (tk_request t) = None) \<and>
     (written_status (w_ops (tk_w t)) = 401 \<longleftrightarrow>
        (\<exists>route. Match (s_router s) (tk_request t) = Some route \<and> \<not> authorized x s (tk_request t) route)))"

lemma refused_unwritten: "w_ops (tk_w t) = [] \<Longrightarrow> refused_ok x s t"
  by (simp add: refused_ok_def)

lemma refused_same:
  "refused_ok x s t \<Longrightarrow> tk_w t' = tk_w t \<Longrightarrow> tk_forwarded t' = tk_forwarded t \<Longrightarrow>
     tk_request t' = tk_request t \<Longrightarrow> refused_ok x s t'"
  by (simp add: refused_ok_def)

lemma refused_cleared:
  "cleared x s t route r \<Longrightarrow> tk_request t' = tk_request t \<Longrightarrow>
     written_status (w_ops (tk_w t')) \<notin> {404, 401} \<Longrightarrow> refused_ok x s t'"
  by (auto simp: refused_ok_def cleared_def)

lemma refused_route:
  assumes "grows s s1" "unsent t"
  shows "refused_ok x s (route_step x s1 t)"
proof (cases "Match (s_router s) (tk_request t)")
  case None
  with assms reject_status [OF assms(2), of 404 body_not_found] show ?thesis
    by (simp add: route_step_def grows_def refused_ok_def)
next
  case (Some route)
  obtain ok w r where a: "authenticate x s (tk_w t) (tk_request t) route = (ok, w, r)"
    by (metis prod_cases3)
  have step: "route_step x s1 t =
      (if ok then t\<lparr>tk_route := Some route, tk_w := w, tk_phase := AtLimit route r\<rparr>
       else t\<lparr>tk_route := Some route, tk_w := w, tk_phase := AtDefer Returned\<rparr>)"
    using Some assms(1) a grows_authenticate [OF assms(1), of x "tk_w t" "tk_request t" route]
    by (simp add: route_step_def grows_def)
  show ?thesis
  proof (cases ok)
    case True
    with a have "authenticate x s (tk_w t) (tk_request t) route = (True, w, r)" by simp
    from authenticate_True(1) [OF this] assms(2) True show ?thesis
      by (intro refused_unwritten) (simp add: step unsent_def fresh_def)
  next
    case False
    with a have a': "authenticate x s (tk_w t) (tk_request t) route = (False, w, r)" by simp
    then have "\<not> authorized x s (tk_request t) route" by (metis authenticate_iff fst_conv)
    moreover from authenticate_False(1) [OF a'] obtain b where "w = writeJSON (tk_w t) 401 b" by blast
    ultimately show ?thesis
      using False Some assms(2) writeJSON_status [of "tk_w t" 401 b]
      by (simp add: step refused_ok_def unsent_def informational_def)
  qed
qed

lemma refused_limit:
  assumes "limit_result x mo route lmt r a (s1, t) = (s', t')" "unsent t" "cleared x s t route r"
  shows "refused_ok x s t'"
proof -
  obtain allowed remaining reset where a: "a = (allowed, remaining, reset)" by (metis prod_cases3)
  let ?w = "limit_headers (rl_Requests lmt) remaining (unix_seconds (mo_reset_now mo + reset)) (tk_w t)"
  let ?t = "t\<lparr>tk_w := Rec_SetHeader ?w ''Retry-After'' (Itoa (retry_after (x_rnd x) reset))\<rparr>"
  have "unsent ?t" using assms(2) by (simp add: unsent_def)
  from reject_status [OF this, of 429 body_rate_limited]
  have "refused_ok x s (reject 429 body_rate_limited ?t)"
    by (intro refused_cleared [OF assms(3)]) simp_all
  moreover have "refused_ok x s (t\<lparr>tk_w := ?w, tk_phase := AtPick route r\<rparr>)"
    using assms(2) by (intro refused_unwritten) (simp add: unsent_def fresh_def)
  ultimately show ?thesis using assms(1) by (auto simp: a limit_result_def Let_def split: if_splits)
qed

lemma refused_advance:
  assumes "advance x mo (s1, t) = (s', t')" "task_ok x s s1 t (tk_phase t)" "grows s s1" "refused_ok x s t"
  shows "refused_ok x s t'"
proof (cases "tk_phase t")
  case AtRoute
  with refused_route [OF assms(3)] assms(1,2) show ?thesis by (auto simp: advance_def)
next
  case (AtLimit route r)
  then have c: "unsent t" "cleared x s t route r" using assms(2) by simp_all
  have "refused_ok x s (t\<lparr>tk_phase := ph\<rparr>)" for ph by (rule refused_same [OF assms(4)]) simp_all
  with AtLimit assms(1) c show ?thesis
    by (auto simp: advance_def limit_step_def dest: refused_limit split: option.splits prod.splits)
next
  case (AtFallback route lmt r)
  with assms(1,2) show ?thesis
    by (auto simp: advance_def fallback_step_def dest: refused_limit split: prod.splits)
next
  case (AtPick route r)
  then have c: "unsent t" "cleared x s t route r" using assms(2) by simp_all
  have "refused_ok x s (reject 503 body_no_upstream t)"
    by (rule refused_cleared [OF c(2)]) (simp_all add: reject_status [OF c(1)])
  moreover have "refused_ok x s (t\<lparr>tk_phase := ph\<rparr>)" for ph by (rule refused_same [OF assms(4)]) simp_all
  ultimately show ?thesis
    using AtPick assms(1)
    by (auto simp: advance_def pick_step_def Let_def split: sum.splits option.splits prod.splits if_splits)
next
  case (AtAllow route target r)
  then have c: "unsent t" "cleared x s t route r" using assms(2) by simp_all
  have "refused_ok x s (reject 503 body_circuit_open t)"
    by (rule refused_cleared [OF c(2)]) (simp_all add: reject_status [OF c(1)])
  moreover have "refused_ok x s (t\<lparr>tk_phase := ph\<rparr>)" for ph by (rule refused_same [OF assms(4)]) simp_all
  ultimately show ?thesis
    using AtAllow assms(1)
    by (auto simp: advance_def allow_step_def Let_def split: option.splits prod.splits if_splits)
next
  case (AtProxy route target r)
  then obtain r0 where c: "fresh (tk_w t)" "cleared x s t route r0"
    using assms(2) by (auto simp: unsent_def)
  show ?thesis
  proof (cases "proxy_request r")
    case None
    with proxy_exchange_unsent(2) [OF None c(1), of mo] AtProxy assms(1) show ?thesis
      by (intro refused_cleared [OF c(2)]) (auto simp: advance_def proxy_step_def proxy_eq)
  next
    case (Some out)
    with AtProxy assms(1) show ?thesis
      by (auto simp: advance_def proxy_step_def proxy_eq refused_ok_def)
  qed
next
  case (AtTell route target)
  with assms(1,4) show ?thesis
    by (auto simp: advance_def tell_step_def split: option.splits intro: refused_same)
next
  case (AtDefer res)
  with assms(1,4) show ?thesis by (auto simp: advance_def defer_step_def intro: refused_same)
qed (use assms(1,4) in \<open>auto simp: advance_def intro: refused_same\<close>)

lemma refused_reach:
  assumes "gateway_reach x env s g" "server_ok s"
  shows "gw_tasks g i = Some t \<Longrightarrow> refused_ok x s t"
  using assms(1)
proof (induction arbitrary: i t rule: gateway_reach.induct)
  case (start now ms)
  then show ?case by (simp add: new_gateway_def)
next
  case (step g g')
  from step(2) show ?case
  proof cases
    case (arrive j w r)
    have "refused_ok x s (new_task w r)" by (rule refused_unwritten) (simp add: new_task_def arrive(3))
    with arrive step.IH step.prems show ?thesis by (auto split: if_splits)
  next
    case (run j u mo s' u')
    have "refused_ok x s u'"
      by (rule refused_advance [OF run(6) tasks_ok_reach [OF step(1) assms(2) run(2)] grows_reach [OF step(1)]
            step.IH [OF run(2)]])
    with run(1) step.IH step.prems show ?thesis by (auto split: if_splits)
  qed (use step.IH step.prems in auto)
qed

subsection \<open>From the file to the upstream\<close>

text \<open>
  C33: The running program and its configuration file. Whatever requests arrive and however
  they interleave, a gateway started on a configuration that loads only ever sends a request to
  a URL the file gives for the ID of the first route that matches it, and only after the
  credentials the route asks for were accepted by the secret or the key file of the
  environment. A request it does not send it answers 404, 401, 429, 502 or 503: 404 exactly when
  no route of the file matches, 401 exactly when the credentials of the matching one are missing.
\<close>

theorem configured_forwarding:
  assumes "Load read_file unmarshal path = Inr cfg" "New_Server sy cfg = Inr s"
    and "gateway_reach x env s g" "gw_tasks g i = Some t"
  shows "(\<forall>out. tk_forwarded t = Some out \<longrightarrow>
      (\<exists>route target. configured_route cfg (tk_request t) route \<and> access_granted x sy (tk_request t) route \<and>
         configured_target sy cfg (rt_ID route) target \<and>
         url_Scheme (rq_URL out) = url_Scheme target \<and> url_Host (rq_URL out) = url_Host target)) \<and>
    (finished t \<and> tk_forwarded t = None \<longrightarrow>
      (let status = written_status (w_ops (tk_w t)) in
        status \<in> {404, 401, 429, 502, 503} \<and>
        (status = 404 \<longleftrightarrow> (\<forall>route. \<not> configured_route cfg (tk_request t) route)) \<and>
        (status = 401 \<longleftrightarrow> (\<exists>route. configured_route cfg (tk_request t) route \<and>
           \<not> access_granted x sy (tk_request t) route))))"
proof (intro conjI allI impI)
  note sound = New_Server_ok [OF assms(2) Load_config_ok [OF assms(1)]]
  note match = New_Server_Match [OF assms(2)] New_Server_authorized [OF assms(2)]
  have ok: "task_ok x s (gw_server g) t (tk_phase t)" by (rule tasks_ok_reach [OF assms(3) sound assms(4)])
  {
    fix out
    assume out: "tk_forwarded t = Some out"
    from forwarded_gone [OF ok out] out obtain route target r where
      sent: "is_endpoint s route target" "cleared x s t route r"
      "proxy_request (r\<lparr>rq_target := Some target\<rparr>) = Some out"
      by (auto simp: gone_def sent_def)
    from sent(2) have "configured_route cfg (tk_request t) route" "access_granted x sy (tk_request t) route"
      by (simp_all add: cleared_def match)
    with New_Server_target [OF assms(2) sent(1)] proxy_request_target [OF sent(3)]
    show "\<exists>route target. configured_route cfg (tk_request t) route \<and> access_granted x sy (tk_request t) route \<and>
         configured_target sy cfg (rt_ID route) target \<and>
         url_Scheme (rq_URL out) = url_Scheme target \<and> url_Host (rq_URL out) = url_Host target"
      by (intro exI [of _ route] exI [of _ target]) simp
  }
  assume fin: "finished t \<and> tk_forwarded t = None"
  with ok have status: "written_status (w_ops (tk_w t)) \<in> {404, 401, 429, 502, 503}"
    by (auto simp: finished_iff ended_well_def answered_def gone_def sent_def)
  then have "w_ops (tk_w t) \<noteq> []" by auto
  with refused_reach [OF assms(3) sound assms(4)] fin
  have "written_status (w_ops (tk_w t)) = 404 \<longleftrightarrow> (\<forall>route. \<not> configured_route cfg (tk_request t) route)"
    "written_status (w_ops (tk_w t)) = 401 \<longleftrightarrow> (\<exists>route. configured_route cfg (tk_request t) route \<and>
       \<not> access_granted x sy (tk_request t) route)"
    by (simp_all add: refused_ok_def match flip: not_Some_eq)
  with status show "let status = written_status (w_ops (tk_w t)) in
        status \<in> {404, 401, 429, 502, 503} \<and>
        (status = 404 \<longleftrightarrow> (\<forall>route. \<not> configured_route cfg (tk_request t) route)) \<and>
        (status = 401 \<longleftrightarrow> (\<exists>route. configured_route cfg (tk_request t) route \<and>
           \<not> access_granted x sy (tk_request t) route))"
    by (simp add: Let_def)
qed

lemma configured_forwarding_witness:
  "\<exists>(g :: (nat, redis_map) gateway) t out target. gw_tasks g 0 = Some t \<and> tk_forwarded t = Some out \<and>
     configured_target demo_system demo_config ''open'' target \<and> url_Host (rq_URL out) = url_Host target"
proof -
  obtain g t out where g: "gateway_reach demo_externals (\<lambda>mo :: (unit, redis_map) moment. True) demo_server g"
    "gw_tasks g 0 = Some t" "tk_forwarded t = Some out" "tk_request t = open_request"
    using demo_gateway_request by auto
  have route: "configured_route demo_config open_request open_route"
    using New_Server_Match [OF demo_New] demo_facts(1) by simp
  have "\<exists>route target. configured_route demo_config open_request route \<and>
      configured_target demo_system demo_config (rt_ID route) target \<and> url_Host (rq_URL out) = url_Host target"
    using conjunct1 [OF configured_forwarding [OF demo_config_loads demo_New g(1,2)], rule_format, OF g(3)]
    unfolding g(4) by blast
  with route have "\<exists>target. configured_target demo_system demo_config (rt_ID open_route) target \<and>
      url_Host (rq_URL out) = url_Host target"
    by (auto simp: configured_route_def)
  with g(2,3) show ?thesis by (auto simp: open_route_def)
qed

end
