(* ===== verification/Gateway_Locks.thy ===== *)
theory Gateway_Locks
  imports Gateway_Prelude
begin

text \<open>
  The mutexes of the program. Every critical section of the packages \<open>balancer\<close>, \<open>metrics\<close>,
  \<open>middleware\<close> and \<open>store\<close> is the list of its calls of \<open>sync.Mutex\<close> and \<open>sync.RWMutex\<close>, in the
  order in which the code makes them; a goroutine (a handler, the breaker loop, the cleanup, a
  scrape) runs one such section after another. Between the calls of a section the code neither
  waits for anything else nor panics (\<open>RoundRobin.Next\<close> and the rendering of the page unlock
  without a \<open>defer\<close>: theories \<open>Load_Balance\<close> and \<open>Prom_Metrics\<close> show that they do not panic
  where the gateway calls them).

  The rest of the development takes each critical section as one step. Here the calls themselves
  are interleaved, with the blocking rules of package \<open>sync\<close>, to show that no goroutine waits for
  a mutex forever.
\<close>

subsection \<open>Mutexes and critical sections\<close>

text \<open>A mutex is named after the object it is a field of.\<close>

datatype mutex =
    MActive | MRequests | MDurations | MStates | MRejections
  | MStore | MBreaker string | MMemory | MKeys | MBalancer string

datatype lock_op = LockW mutex | UnlockW mutex | LockR mutex | UnlockR mutex

definition with_lock :: "mutex \<Rightarrow> lock_op list" where
  "with_lock m = [LockW m, UnlockW m]"

definition with_rlock :: "mutex \<Rightarrow> lock_op list" where
  "with_rlock m = [LockR m, UnlockR m]"

text \<open>The functions that lock, by what they lock.\<close>

datatype critical =
    ActiveInc | ActiveDec | RequestsInc | RejectionsInc | DurationsObserve | StatesSet | StatesReset
  | RenderRequests | RenderRejections | RenderActive | RenderStates | RenderDurations
  | BreakersGetOrCreate bool | BreakersSnapshot "string list"
  | BreakerAllow string | BreakerFailure string | BreakerSuccess string
  | MemoryAllow | MemoryClean
  | KeysLookup | KeysAdd | KeysRevoke
  | BalancerNext string | BalancerDone string

text \<open>
  \<open>GetOrCreate\<close> takes the write lock when it missed the key; \<open>Snapshot\<close> reads each breaker, in the
  order in which it ranges over them, while it holds the store.
\<close>

definition GetOrCreate_locks :: "bool \<Rightarrow> lock_op list" where
  "GetOrCreate_locks missed = [LockR MStore, UnlockR MStore] @ (if missed then [LockW MStore, UnlockW MStore] else [])"

definition Snapshot_locks :: "string list \<Rightarrow> lock_op list" where
  "Snapshot_locks ks =
     LockR MStore # concat (map (\<lambda>k. [LockR (MBreaker k), UnlockR (MBreaker k)]) ks) @ [UnlockR MStore]"

fun section_locks :: "critical \<Rightarrow> lock_op list" where
  "section_locks ActiveInc = with_lock MActive"
| "section_locks ActiveDec = with_lock MActive"
| "section_locks RequestsInc = with_lock MRequests"
| "section_locks RejectionsInc = with_lock MRejections"
| "section_locks DurationsObserve = with_lock MDurations"
| "section_locks StatesSet = with_lock MStates"
| "section_locks StatesReset = with_lock MStates"
| "section_locks RenderRequests = with_lock MRequests"
| "section_locks RenderRejections = with_lock MRejections"
| "section_locks RenderActive = with_lock MActive"
| "section_locks RenderStates = with_lock MStates"
| "section_locks RenderDurations = with_lock MDurations"
| "section_locks (BreakersGetOrCreate missed) = GetOrCreate_locks missed"
| "section_locks (BreakersSnapshot ks) = Snapshot_locks ks"
| "section_locks (BreakerAllow k) = with_lock (MBreaker k)"
| "section_locks (BreakerFailure k) = with_lock (MBreaker k)"
| "section_locks (BreakerSuccess k) = with_lock (MBreaker k)"
| "section_locks MemoryAllow = with_lock MMemory"
| "section_locks MemoryClean = with_lock MMemory"
| "section_locks KeysLookup = with_rlock MKeys"
| "section_locks KeysAdd = with_lock MKeys"
| "section_locks KeysRevoke = with_lock MKeys"
| "section_locks (BalancerNext rid) = with_lock (MBalancer rid)"
| "section_locks (BalancerDone rid) = with_lock (MBalancer rid)"

subsection \<open>Goroutines\<close>

text \<open>
  A goroutine holds mutexes (true: for writing), may have called \<open>Lock\<close> and be waiting in it, and
  has calls left to make.
\<close>

record goroutine =
  go_held :: "(mutex \<times> bool) list"
  go_waits :: bool
  go_todo :: "lock_op list"

definition new_goroutine :: "critical list \<Rightarrow> goroutine" where
  "new_goroutine cs = \<lparr>go_held = [], go_waits = False, go_todo = concat (map section_locks cs)\<rparr>"

definition holds :: "goroutine list \<Rightarrow> mutex \<Rightarrow> bool \<Rightarrow> bool" where
  "holds gs m w \<longleftrightarrow> (\<exists>g \<in> set gs. (m, w) \<in> set (go_held g))"

definition writer_waits :: "goroutine list \<Rightarrow> mutex \<Rightarrow> bool" where
  "writer_waits gs m \<longleftrightarrow> (\<exists>g \<in> set gs. go_waits g \<and> (\<exists>p. go_todo g = LockW m # p))"

text \<open>
  One call of one goroutine. \<open>Lock\<close> waits until nobody holds the mutex, and from when it waits
  no new reader gets in; \<open>RLock\<close> waits while there is a writer, holding it or waiting for it.
  Unlocking a mutex one does not hold ends the program: that goroutine has no step.
\<close>

inductive lock_step :: "goroutine list \<Rightarrow> goroutine list \<Rightarrow> bool" where
  waits: "i < length gs \<Longrightarrow> go_todo (gs ! i) = LockW m # p \<Longrightarrow> \<not> go_waits (gs ! i) \<Longrightarrow>
    lock_step gs (gs[i := (gs ! i)\<lparr>go_waits := True\<rparr>])"
| lock: "i < length gs \<Longrightarrow> go_todo (gs ! i) = LockW m # p \<Longrightarrow> go_waits (gs ! i) \<Longrightarrow>
    \<not> holds gs m True \<Longrightarrow> \<not> holds gs m False \<Longrightarrow>
    lock_step gs (gs[i := \<lparr>go_held = (m, True) # go_held (gs ! i), go_waits = False, go_todo = p\<rparr>])"
| rlock: "i < length gs \<Longrightarrow> go_todo (gs ! i) = LockR m # p \<Longrightarrow>
    \<not> holds gs m True \<Longrightarrow> \<not> writer_waits gs m \<Longrightarrow>
    lock_step gs (gs[i := \<lparr>go_held = (m, False) # go_held (gs ! i), go_waits = False, go_todo = p\<rparr>])"
| unlock: "i < length gs \<Longrightarrow> go_todo (gs ! i) = UnlockW m # p \<Longrightarrow> (m, True) \<in> set (go_held (gs ! i)) \<Longrightarrow>
    lock_step gs (gs[i := \<lparr>go_held = remove1 (m, True) (go_held (gs ! i)), go_waits = False, go_todo = p\<rparr>])"
| runlock: "i < length gs \<Longrightarrow> go_todo (gs ! i) = UnlockR m # p \<Longrightarrow> (m, False) \<in> set (go_held (gs ! i)) \<Longrightarrow>
    lock_step gs (gs[i := \<lparr>go_held = remove1 (m, False) (go_held (gs ! i)), go_waits = False, go_todo = p\<rparr>])"

subsection \<open>Lock order\<close>

text \<open>The store comes before the breakers; no other two mutexes are held together.\<close>

fun lock_rank :: "mutex \<Rightarrow> nat" where
  "lock_rank MStore = 0"
| "lock_rank m = 1"

text \<open>
  A program in order: it locks upwards, unlocks what it holds the way it holds it, and ends with
  nothing held.
\<close>

fun in_order :: "(mutex \<times> bool) list \<Rightarrow> lock_op list \<Rightarrow> bool" where
  "in_order h [] \<longleftrightarrow> h = []"
| "in_order h (LockW m # p) \<longleftrightarrow> (\<forall>(m', w) \<in> set h. lock_rank m' < lock_rank m) \<and> in_order ((m, True) # h) p"
| "in_order h (LockR m # p) \<longleftrightarrow> (\<forall>(m', w) \<in> set h. lock_rank m' < lock_rank m) \<and> in_order ((m, False) # h) p"
| "in_order h (UnlockW m # p) \<longleftrightarrow> (m, True) \<in> set h \<and> in_order (remove1 (m, True) h) p"
| "in_order h (UnlockR m # p) \<longleftrightarrow> (m, False) \<in> set h \<and> in_order (remove1 (m, False) h) p"

lemma lock_rank_less: "lock_rank m < 2"
  by (cases m) simp_all

lemma Snapshot_in_order: "in_order [] (Snapshot_locks ks @ p) = in_order [] p"
proof -
  have "in_order [(MStore, False)]
      (concat (map (\<lambda>k. [LockR (MBreaker k), UnlockR (MBreaker k)]) ks) @ UnlockR MStore # p) = in_order [] p"
    by (induction ks) simp_all
  then show ?thesis by (simp add: Snapshot_locks_def)
qed

lemma section_in_order: "in_order [] (section_locks c @ p) = in_order [] p"
  by (cases c) (simp_all add: with_lock_def with_rlock_def GetOrCreate_locks_def Snapshot_in_order)

lemma sections_in_order: "in_order [] (concat (map section_locks cs))"
  by (induction cs) (simp_all add: section_in_order)

text \<open>Every goroutine stays in order, and waits only where it calls \<open>Lock\<close>.\<close>

definition well_locked :: "goroutine \<Rightarrow> bool" where
  "well_locked g \<longleftrightarrow> in_order (go_held g) (go_todo g) \<and> (go_waits g \<longrightarrow> (\<exists>m p. go_todo g = LockW m # p))"

lemma well_locked_new: "well_locked (new_goroutine cs)"
  by (simp add: well_locked_def new_goroutine_def sections_in_order)

lemma list_all_update: "list_all P xs \<Longrightarrow> P x \<Longrightarrow> list_all P (xs[i := x])"
  by (auto simp: list_all_iff dest!: set_update_subset_insert [THEN subsetD])

lemma well_locked_step:
  assumes "lock_step gs gs'" "list_all well_locked gs"
  shows "list_all well_locked gs'"
  using assms
proof (induction rule: lock_step.induct)
  case (waits i gs m p)
  then have "well_locked (gs ! i)" by (simp add: list_all_length)
  with waits show ?case by (intro list_all_update) (auto simp: well_locked_def)
next
  case (lock i gs m p)
  then have "well_locked (gs ! i)" by (simp add: list_all_length)
  with lock show ?case by (intro list_all_update) (auto simp: well_locked_def)
next
  case (rlock i gs m p)
  then have "well_locked (gs ! i)" by (simp add: list_all_length)
  with rlock show ?case by (intro list_all_update) (auto simp: well_locked_def)
next
  case (unlock i gs m p)
  then have "well_locked (gs ! i)" by (simp add: list_all_length)
  with unlock show ?case by (intro list_all_update) (auto simp: well_locked_def)
next
  case (runlock i gs m p)
  then have "well_locked (gs ! i)" by (simp add: list_all_length)
  with runlock show ?case by (intro list_all_update) (auto simp: well_locked_def)
qed

lemma well_locked_steps:
  "lock_step\<^sup>*\<^sup>* gs gs' \<Longrightarrow> list_all well_locked gs \<Longrightarrow> list_all well_locked gs'"
  by (induction rule: rtranclp_induct) (auto intro: well_locked_step)

subsection \<open>Progress\<close>

text \<open>A goroutine that holds a mutex has a call left; when that locks, it locks above it.\<close>

lemma holder_above:
  assumes "well_locked g" "(m, w) \<in> set (go_held g)"
  obtains (locks) m' p where "go_todo g = LockW m' # p \<or> go_todo g = LockR m' # p" "lock_rank m < lock_rank m'"
    | (unlocks) m' p where "go_todo g = UnlockW m' # p \<and> (m', True) \<in> set (go_held g) \<or>
        go_todo g = UnlockR m' # p \<and> (m', False) \<in> set (go_held g)"
  using assms unfolding well_locked_def
  by (cases "(go_held g, go_todo g)" rule: in_order.cases) auto

text \<open>The mutex a goroutine is about to lock.\<close>

definition wants :: "goroutine \<Rightarrow> mutex \<Rightarrow> bool" where
  "wants g m \<longleftrightarrow> (\<exists>p. go_todo g = LockW m # p \<or> go_todo g = LockR m # p)"

lemma unlocks_step:
  assumes "g \<in> set gs" "go_todo g = UnlockW m # p \<and> (m, True) \<in> set (go_held g) \<or>
    go_todo g = UnlockR m # p \<and> (m, False) \<in> set (go_held g)"
  shows "\<exists>gs'. lock_step gs gs'"
proof -
  from assms(1) obtain i where i: "i < length gs" "gs ! i = g" by (auto simp: in_set_conv_nth)
  with assms(2) lock_step.unlock [OF i(1), of m] lock_step.runlock [OF i(1), of m] show ?thesis by blast
qed

text \<open>A goroutine that wants a mutex of highest rank wants a free one.\<close>

lemma highest_free:
  assumes "list_all well_locked gs" "\<forall>g \<in> set gs. \<forall>m'. wants g m' \<longrightarrow> lock_rank m' \<le> lock_rank m"
    and "\<not> (\<exists>gs'. lock_step gs gs')"
  shows "\<not> holds gs m w"
proof
  assume "holds gs m w"
  then obtain g where g: "g \<in> set gs" "(m, w) \<in> set (go_held g)" by (auto simp: holds_def)
  with assms(1) have "well_locked g" by (simp add: list_all_iff)
  from this g(2) show False
  proof (cases rule: holder_above)
    case (locks m' p)
    with assms(2) g(1) show False by (auto simp: wants_def)
  next
    case (unlocks m' p)
    with unlocks_step [OF g(1)] assms(3) show False by blast
  qed
qed

lemma free_step:
  assumes "g \<in> set gs" "wants g m" "\<And>w. \<not> holds gs m w"
  shows "\<exists>gs'. lock_step gs gs'"
proof (cases "writer_waits gs m")
  case True
  then obtain g' p where "g' \<in> set gs" "go_waits g'" "go_todo g' = LockW m # p" by (auto simp: writer_waits_def)
  with assms(3) show ?thesis by (auto simp: in_set_conv_nth intro: lock_step.lock)
next
  case False
  from assms(1) obtain i where i: "i < length gs" "gs ! i = g" by (auto simp: in_set_conv_nth)
  from assms(2) obtain p where "go_todo g = LockW m # p \<or> go_todo g = LockR m # p" by (auto simp: wants_def)
  then show ?thesis
  proof
    assume "go_todo g = LockW m # p"
    moreover from this False assms(1) have "\<not> go_waits g" by (auto simp: writer_waits_def)
    ultimately show ?thesis using i by (auto intro: lock_step.waits)
  next
    assume "go_todo g = LockR m # p"
    with i False assms(3) show ?thesis by (auto intro: lock_step.rlock)
  qed
qed

definition all_done :: "goroutine list \<Rightarrow> bool" where
  "all_done gs \<longleftrightarrow> (\<forall>g \<in> set gs. go_todo g = [] \<and> go_held g = [])"

lemma step_or_done:
  assumes "list_all well_locked gs"
  shows "all_done gs \<or> (\<exists>gs'. lock_step gs gs')"
proof (rule ccontr)
  assume no: "\<not> (all_done gs \<or> (\<exists>gs'. lock_step gs gs'))"
  from no obtain g where g: "g \<in> set gs" "go_todo g \<noteq> []"
    using assms unfolding all_done_def list_all_iff well_locked_def by (metis in_order.simps(1))
  have "well_locked g" using assms g(1) by (simp add: list_all_iff)
  with g no have "\<exists>m. wants g m"
    using unlocks_step [OF g(1)] unfolding well_locked_def wants_def
    by (cases "(go_held g, go_todo g)" rule: in_order.cases) auto
  with g(1) obtain m0 where "\<exists>g \<in> set gs. wants g m0" by blast
  then obtain m where m: "\<exists>g \<in> set gs. wants g m"
    "\<forall>m'. (\<exists>g \<in> set gs. wants g m') \<longrightarrow> lock_rank m' \<le> lock_rank m"
    using ex_has_greatest_nat [of "\<lambda>m. \<exists>g \<in> set gs. wants g m" m0 lock_rank 2] lock_rank_less by blast
  from m(2) have "\<forall>g \<in> set gs. \<forall>m'. wants g m' \<longrightarrow> lock_rank m' \<le> lock_rank m" by blast
  note free = highest_free [OF assms this]
  from m(1) free_step [of _ gs m] free no show False by blast
qed

text \<open>Every call is one or two steps: waiting for a lock is one of its own.\<close>

definition calls_left :: "goroutine \<Rightarrow> nat" where
  "calls_left g = 2 * length (go_todo g) - (if go_waits g then 1 else 0)"

definition work_left :: "goroutine list \<Rightarrow> nat" where
  "work_left gs = sum_list (map calls_left gs)"

lemma sum_list_update_less:
  "i < length xs \<Longrightarrow> f x < f (xs ! i) \<Longrightarrow> sum_list (map f (xs[i := x])) < (sum_list (map f xs) :: nat)"
  by (induction xs arbitrary: i) (auto split: nat.split simp: add_less_le_mono nth_Cons')

lemma step_work: "lock_step gs gs' \<Longrightarrow> work_left gs' < work_left gs"
  unfolding work_left_def
  by (induction rule: lock_step.induct) (auto intro!: sum_list_update_less simp: calls_left_def)

lemma steps_work: "(lock_step ^^ n) gs gs' \<Longrightarrow> n + work_left gs' \<le> work_left gs"
proof (induction n arbitrary: gs')
  case (Suc n)
  from Suc.prems obtain h where "(lock_step ^^ n) gs h" "lock_step h gs'" by (rule relpowp_Suc_E)
  with Suc.IH [of h] step_work [of h gs'] show ?case by simp
qed simp

text \<open>While a goroutine holds a mutex for writing nobody else holds it.\<close>

definition exclusive :: "goroutine list \<Rightarrow> bool" where
  "exclusive gs \<longleftrightarrow> (\<forall>i < length gs. \<forall>j < length gs. \<forall>m w. i \<noteq> j \<longrightarrow>
     (m, True) \<in> set (go_held (gs ! i)) \<longrightarrow> (m, w) \<notin> set (go_held (gs ! j)))"

lemma holds_nth: "i < length gs \<Longrightarrow> (m, w) \<in> set (go_held (gs ! i)) \<Longrightarrow> holds gs m w"
  by (auto simp: holds_def)

lemma exclusive_update:
  assumes "exclusive gs" "i < length gs"
    and "\<And>m w. (m, w) \<in> set (go_held g) \<Longrightarrow> (m, w) \<in> set (go_held (gs ! i)) \<or>
      \<not> holds gs m True \<and> (w \<longrightarrow> \<not> holds gs m False)"
  shows "exclusive (gs[i := g])"
  unfolding exclusive_def
proof (intro allI impI notI)
  fix j k m w
  assume jk: "j < length (gs[i := g])" "k < length (gs[i := g])" "j \<noteq> k"
    and h: "(m, True) \<in> set (go_held (gs[i := g] ! j))" "(m, w) \<in> set (go_held (gs[i := g] ! k))"
  have held: "holds gs m w'" if "(m, w') \<in> set (go_held (gs ! l))" "l < length gs" for w' l
    using that holds_nth by blast
  have ex: "(m, w') \<notin> set (go_held (gs ! l'))"
    if "l < length gs" "l' < length gs" "l \<noteq> l'" "(m, True) \<in> set (go_held (gs ! l))" for l l' w'
    using assms(1) that unfolding exclusive_def by blast
  show False
  proof (cases "j = i")
    case True
    with jk h assms(2) have k: "(m, w) \<in> set (go_held (gs ! k))" "k < length gs" "i \<noteq> k" "(m, True) \<in> set (go_held g)"
      by simp_all
    have "(m, True) \<notin> set (go_held (gs ! i))" using ex [OF assms(2) k(2,3)] k(1) by blast
    with assms(3) [OF k(4)] held [OF k(1,2)] show False by (cases w) simp_all
  next
    case False
    with jk h have j: "(m, True) \<in> set (go_held (gs ! j))" "j < length gs" by simp_all
    show False
    proof (cases "k = i")
      case True
      with h assms(2) have "(m, w) \<in> set (go_held g)" by simp
      from assms(3) [OF this] ex [OF j(2) assms(2) False j(1)] held [OF j] show False by blast
    next
      case False
      with jk h have "(m, w) \<in> set (go_held (gs ! k))" "k < length gs" by simp_all
      with ex [OF j(2) _ jk(3) j(1)] show False by blast
    qed
  qed
qed

lemma exclusive_step: "lock_step gs gs' \<Longrightarrow> exclusive gs \<Longrightarrow> exclusive gs'"
  by (induction rule: lock_step.induct)
    (auto intro!: exclusive_update dest: notin_set_remove1 set_remove1_subset [THEN subsetD])

lemma exclusive_steps: "lock_step\<^sup>*\<^sup>* gs gs' \<Longrightarrow> exclusive gs \<Longrightarrow> exclusive gs'"
  by (induction rule: rtranclp_induct) (auto intro: exclusive_step)

subsection \<open>No deadlock\<close>

text \<open>
  C16: No goroutine waits for a mutex forever. However the goroutines' locking and unlocking calls
  are interleaved, whatever sequences of critical sections they run: nobody unlocks what it does
  not hold, a mutex held for writing has no other holder, as long as a goroutine has a call left
  some goroutine can make its next call, and every run has a bounded number of steps - so each,
  continued as long as it can be, ends with all sections run and every mutex free.
\<close>

theorem no_deadlock:
  assumes "lock_step\<^sup>*\<^sup>* (map new_goroutine sections) gs"
  shows "(\<forall>g \<in> set gs. \<forall>m p. (go_todo g = UnlockW m # p \<longrightarrow> (m, True) \<in> set (go_held g)) \<and>
      (go_todo g = UnlockR m # p \<longrightarrow> (m, False) \<in> set (go_held g))) \<and>
    (\<forall>i < length gs. \<forall>j < length gs. \<forall>m w. i \<noteq> j \<longrightarrow>
      (m, True) \<in> set (go_held (gs ! i)) \<longrightarrow> (m, w) \<notin> set (go_held (gs ! j))) \<and>
    ((\<forall>g \<in> set gs. go_todo g = [] \<and> go_held g = []) \<or> (\<exists>gs'. lock_step gs gs')) \<and>
    (\<forall>n gs'. (lock_step ^^ n) gs gs' \<longrightarrow> n \<le> (\<Sum>g\<leftarrow>gs. 2 * length (go_todo g)))"
proof (intro conjI)
  have well: "list_all well_locked gs"
    by (rule well_locked_steps [OF assms]) (simp add: list_all_iff well_locked_new)
  show "\<forall>g \<in> set gs. \<forall>m p. (go_todo g = UnlockW m # p \<longrightarrow> (m, True) \<in> set (go_held g)) \<and>
      (go_todo g = UnlockR m # p \<longrightarrow> (m, False) \<in> set (go_held g))"
    using well by (auto simp: list_all_iff well_locked_def)
  have "exclusive (map new_goroutine sections)" by (simp add: exclusive_def new_goroutine_def)
  from exclusive_steps [OF assms this] show "\<forall>i < length gs. \<forall>j < length gs. \<forall>m w. i \<noteq> j \<longrightarrow>
      (m, True) \<in> set (go_held (gs ! i)) \<longrightarrow> (m, w) \<notin> set (go_held (gs ! j))"
    unfolding exclusive_def .
  show "(\<forall>g \<in> set gs. go_todo g = [] \<and> go_held g = []) \<or> (\<exists>gs'. lock_step gs gs')"
    using step_or_done [OF well] by (simp add: all_done_def)
  have "work_left gs \<le> (\<Sum>g\<leftarrow>gs. 2 * length (go_todo g))"
    unfolding work_left_def calls_left_def by (intro sum_list_mono) simp
  then show "\<forall>n gs'. (lock_step ^^ n) gs gs' \<longrightarrow> n \<le> (\<Sum>g\<leftarrow>gs. 2 * length (go_todo g))"
    using steps_work [of _ gs] by (meson add_leD1 le_trans)
qed

text \<open>A handler that uses a breaker for the first time, and the breaker loop reading the store.\<close>

lemma no_deadlock_witness:
  "\<exists>gs'. lock_step (map new_goroutine [[BreakersGetOrCreate True, BreakerAllow ''k''], [BreakersSnapshot [''k'']]]) gs'"
  using no_deadlock [OF rtranclp.rtrancl_refl,
      of "[[BreakersGetOrCreate True, BreakerAllow ''k''], [BreakersSnapshot [''k'']]]"]
  by (simp add: new_goroutine_def with_lock_def GetOrCreate_locks_def Snapshot_locks_def)

end
