(* ===== verification/Spec2Isabelle.thy ===== *)
theory Spec2Isabelle
  imports Gateway_Failover Gateway_Types Gateway_Answers Gateway_Balance Gateway_Breakers Gateway_Program
    Gateway_Locks Prom_Lines
begin

text \<open>
  GoGateway: an HTTP API gateway and reverse proxy, modelled from its Go sources.

  \<^bold>\<open>The program.\<close> \<open>cmd/gogateway/main.go\<close> loads a YAML configuration (\<open>internal/config\<close>), builds a
  server (\<open>internal/server\<close>) and serves until a signal. For each request the server finds the
  route (\<open>internal/router\<close>), authenticates by JWT or API key (\<open>internal/middleware\<close>,
  \<open>internal/store\<close>), applies the route's rate limit (in Redis or in memory), picks an upstream
  (\<open>internal/discovery\<close>, \<open>internal/balancer\<close>), asks the upstream's circuit breaker, proxies, and
  tells the breaker and the metrics (\<open>internal/metrics\<close>) what happened. Go runs one goroutine per
  request; the shared state is protected by mutexes.

  \<^bold>\<open>The theories\<close>, each with its own introduction:
  \<^item> \<open>Gateway_Prelude\<close>: instants and durations (nanoseconds), 64-bit wrap-around, Go's string
    functions, decimal and hexadecimal printing, panics; shared hints and lemmas.
  \<^item> \<open>Gateway_Config\<close> (\<open>config.go\<close>): the configuration, \<open>validate\<close>, \<open>Load\<close>, \<open>LogLevelToSlog\<close>.
  \<^item> \<open>Http_Model\<close>: what the code uses of \<open>net/http\<close>: canonical headers, requests, URLs, the
    response writer as the list of its calls, with the status and body written to it.
  \<^item> \<open>Route_Match\<close> (\<open>router.go\<close>); \<open>Load_Balance\<close> (\<open>roundrobin.go\<close>, \<open>leastconn.go\<close>);
    \<open>Discovery_Registry\<close> (\<open>discovery.go\<close>).
  \<^item> \<open>Key_Store\<close> (\<open>store.go\<close>), behind a locale with the laws of a key store; \<open>Request_Auth\<close>
    (\<open>apikey.go\<close>, \<open>jwt.go\<close>); \<open>Request_Id\<close> (\<open>requestid.go\<close>).
  \<^item> \<open>Window_Counter\<close>: the locale of a fixed-window counter, with what it admits proved once;
    \<open>Memory_Limit\<close> (\<open>memoryLimiter\<close> of \<open>ratelimit.go\<close>) and \<open>Redis_Limit\<close> (\<open>redis.go\<close> with the Lua
    script) are its two instances; \<open>Rate_Limiter\<close> (\<open>RateLimiter\<close> of \<open>ratelimit.go\<close>) joins them.
  \<^item> \<open>Circuit_Breaker\<close> (\<open>circuitbreaker.go\<close>): the breaker, its store, the abstract three-state
    machine it refines, and the machine of the comments, with a limited number of probes.
  \<^item> \<open>Prom_Metrics\<close> (\<open>prometheus.go\<close>): collectors, page, health endpoint, metrics server;
    \<open>Prom_Lines\<close>: what the lines of the page say, exactly.
  \<^item> \<open>Gateway_Response\<close>, \<open>Upstream_Director\<close>, \<open>Gateway_Server\<close>, \<open>Gateway_Lifecycle\<close>
    (\<open>server.go\<close>): the status recorder and JSON errors; the director; \<open>serveRoute\<close> with
    \<open>authenticate\<close> and \<open>checkRateLimit\<close>; \<open>New\<close>, the handler chain, the background ticks and
    \<open>Shutdown\<close>. \<open>Gateway_Main\<close>: \<open>main.go\<close> with its command line, and \<open>logger.go\<close>.
  \<^item> \<open>Proxy_Request\<close> and \<open>Proxy_Response\<close>: \<open>httputil.ReverseProxy\<close> as \<open>New\<close> sets it up, with the
    director inside: the headers it strips and adds on the way out, and the calls it makes on
    the status recorder for a reply of the transport.
  \<^item> \<open>Gateway_Gates\<close>, \<open>Gateway_Effects\<close> and \<open>Gateway_Answers\<close>: what one request may do, what it
    leaves behind, what its client is answered.
  \<^item> \<open>Gateway_Handler\<close>: \<open>serveRoute\<close> cut at its locked sections; \<open>Gateway_Concurrent\<close>: any number
    of handlers, the background goroutines and \<open>Shutdown\<close> in every interleaving, with a log of the
    calls of limiter and breakers (a ghost); \<open>Gateway_Calls\<close>: the gates, by that log;
    \<open>Gateway_Balance\<close>, \<open>Gateway_Limits\<close>, \<open>Gateway_Failover\<close>, \<open>Gateway_Breakers\<close> and
    \<open>Gateway_Types\<close>: the load balancing, the rate limit in memory and while Redis comes and goes,
    the breakers, and the ranges of all state in every interleaving.
  \<^item> \<open>Gateway_Locks\<close>: the calls of \<open>sync.Mutex\<close> and \<open>sync.RWMutex\<close> of every critical section,
    interleaved under the blocking rules of package \<open>sync\<close>.
  \<^item> \<open>Gateway_Program\<close>: the configuration file against what the running program sends.

  \<^bold>\<open>Modelling.\<close> A Go struct is a record, an enumeration a datatype, \<open>uint64\<close> a \<open>64 word\<close>, \<open>int\<close> and
  \<open>time.Duration\<close> are \<open>int\<close> with the wrap-around or saturation written out where it can be reached;
  maps are \<open>mapping\<close> or partial functions. An error is a value of a sum, a panic a constructor of
  its own. A method that holds its mutex throughout is one function on the state; a pointer kept
  in a map is the map's entry. Clock readings are arguments, one for each call of \<open>time.Now\<close>.

  \<^bold>\<open>Outside the sources\<close>, as arguments: files, YAML, the environment, random bytes, SHA-256,
  \<open>jwt.Parse\<close>, JSON of claims, \<open>url.Parse\<close> and URL printing, Redis (three commands under their
  documented laws, the connection free to fail at any call), \<open>http.Server\<close>, \<open>float64\<close> rounding and
  the printing of fractions, and the upstreams: what the transport returns for a request is an
  error or a response, behind any number of informational ones, with any body and any end.

  \<^bold>\<open>What is proved.\<close>
  \<^item> One request: nothing is forwarded past a gate, what each refused request is answered and
    leaves untouched, which identity the upstream sees and which request it gets, what the client
    gets of its answer (nothing that can be relied on when the handler panics, as \<open>net/http\<close> then
    drops what it has buffered), what breaker and metrics are told; no panic but those of the
    reverse proxy on a broken or senseless answer; the invariant of a running server (every route
    has endpoints and a balancer) from \<open>New\<close> on a loaded configuration.
  \<^item> All requests: the goroutine's steps run alone are \<open>serveRoute\<close>; in every interleaving the
    gates hold - limiter and breaker are asked, and their refusal is final -, every value has its
    Go type, the gauge and the counters are exact, the limit is kept up to the factor two of a
    fixed window, or four while Redis comes and goes, each route's endpoints are taken in cyclic
    order, each breaker is the state machine run on the calls of its handlers, none lost and none
    applied twice, and an open one sheds its load until its timeout. The mutexes are never waited
    for forever; a handler finishes as far as Redis and the transport answer it.
  \<^item> Components: the breaker refines its state machine, which is the documented one up to the
    first probe beyond \<open>half_open_max_requests\<close>, and trips exactly at its threshold;
    windows of both limiters admit exactly the limit, and cleanup cannot be observed; token and
    key checks accept exactly what they should; first match wins; round robin and least
    connections balance; the metrics page never panics, has one line for each label tuple
    recorded, with its count, and no other, and tells different counts apart.
  \<^item> The program: which configurations are rejected and why; that a request only ever goes to a
    URL the file gives for the first route that matches it, behind the credentials that route
    asks for, and is answered 404 and 401 exactly when either is missing; the exit code.

  \<^bold>\<open>Bounds.\<close> Recursion is structural or on a measure; there is no fuel. Counters kept as
  \<open>float64\<close> are exact up to \<open>2 ^ 53\<close>, a bound of the theorems that count; limiter counts stay below
  \<open>2 ^ 63\<close> by the hypotheses \<open>mem_inv\<close> and \<open>red_inv\<close>, which hold on a fresh limiter. A handler
  takes at most eleven steps (\<open>phase_rank\<close>).

  \<^bold>\<open>Not modelled.\<close> Listeners, TLS, connection pools and the transport's timeouts; a client that
  goes away in the middle of an exchange, beyond the error it makes of the transport's reply;
  log output; signal delivery; \<open>ceilDiv\<close>, which nothing calls. The Go memory model is not. But
  for theory \<open>Gateway_Locks\<close>, a section under a mutex is one step (the breaker loop, which holds
  one mutex while it takes others, is cut at each), and so are a call of Redis and an exchange
  with the upstream: an upstream that never answers, which the transport does not guard against,
  is a handler that takes no further step. The sections one handler step joins commute with
  every other step. Everything else of the sources has its definition.
\<close>

end
